(* ===== verification/Prelude.thy ===== *)
theory Prelude
  imports Main "HOL-Library.Word" "HOL-Library.AList"
begin

unbundle bit_operations_syntax

text \<open>
  Shared vocabulary of the development: the machine integers of the crates, Rust's \<open>Result\<close>
  and \<open>Poll\<close>, the outcome of a channel \<open>try_send\<close>, and the parts of the Rust standard library
  that the sources call (big-endian byte conversion, \<open>String::from_utf8_lossy\<close>,
  \<open>str::to_ascii_lowercase\<close>).  A \<open>usize\<close> length is a \<open>nat\<close> (a Rust buffer never reaches
  \<open>2 ^ 64\<close> bytes); a counter that is stored in an atomic or cast to a narrower type is a word.

  The channels of the sources are tokio channels, which are not part of the repository.  No
  channel is defined here: an operation that calls \<open>try_send\<close> and looks at the result takes that
  result as an argument of type \<open>send_result\<close> (or \<open>bool\<close> where the code only asks \<open>is_ok\<close>), so
  every theorem holds for every behaviour of the channel, and the messages handed to channels are
  returned as a list of effects.
\<close>

named_theorems be_simps \<open>conversion between words and big-endian byte lists\<close>
named_theorems len_simps \<open>lengths of encoded frames\<close>

type_synonym byte = "8 word"
type_synonym u16 = "16 word"
type_synonym u32 = "32 word"
type_synonym u64 = "64 word"
type_synonym i64 = "64 word"

text \<open>A Rust \<open>String\<close> is its UTF-8 bytes; \<open>len()\<close> counts bytes.\<close>

type_synonym rstring = "byte list"
type_synonym header = "rstring \<times> rstring"

type_synonym ('e, 'a) result = "'e + 'a"

abbreviation Ok :: "'a \<Rightarrow> ('e, 'a) result" where
  "Ok \<equiv> Inr"

abbreviation Err :: "'e \<Rightarrow> ('e, 'a) result" where
  "Err \<equiv> Inl"

datatype 'a poll = Pending | Ready 'a

datatype send_result = SendOk | SendFull | SendClosed

section \<open>Loops\<close>

text \<open>
  A loop of the source whose rounds end in \<open>return\<close> or \<open>continue\<close> is a step function into
  \<open>'r + 's\<close>: \<open>Inl r\<close> returns \<open>r\<close>, \<open>Inr s\<close> goes round again from \<open>s\<close>.  \<open>run_loop step s = None\<close> says that
  the loop does not end.
\<close>

partial_function (option) run_loop :: "('s \<Rightarrow> 'r + 's) \<Rightarrow> 's \<Rightarrow> 'r option" where
  "run_loop step s = (case step s of Inl r \<Rightarrow> Some r | Inr s' \<Rightarrow> run_loop step s')"

lemma run_loop_return [simp]: "step s = Inl r \<Longrightarrow> run_loop step s = Some r"
  by (simp add: run_loop.simps)

lemma run_loop_continue [simp]: "step s = Inr s' \<Longrightarrow> run_loop step s = run_loop step s'"
  by (subst run_loop.simps) simp

text \<open>An invariant of the rounds holds at the one that returns.\<close>

lemma run_loop_rule:
  assumes ret: "run_loop step s = Some r"
    and init: "I s"
    and keep: "\<And>s s'. I s \<Longrightarrow> step s = Inr s' \<Longrightarrow> I s'"
    and exit: "\<And>s r. I s \<Longrightarrow> step s = Inl r \<Longrightarrow> Q r"
  shows "Q r"
proof -
  have "step' = step \<longrightarrow> I s \<longrightarrow> Q r" if "run_loop step' s = Some r" for step' s r
  proof (rule run_loop.raw_induct [where P = "\<lambda>step' s r. step' = step \<longrightarrow> I s \<longrightarrow> Q r", OF _ that])
    fix f step' s r
    assume "\<And>step' s r. f step' s = Some r \<Longrightarrow> step' = step \<longrightarrow> I s \<longrightarrow> Q r"
      and "(case step' s of Inl r \<Rightarrow> Some r | Inr s' \<Rightarrow> f step' s') = Some r"
    then show "step' = step \<longrightarrow> I s \<longrightarrow> Q r"
      by (auto split: sum.splits intro: exit dest: keep)
  qed
  then show ?thesis using ret init by blast
qed

text \<open>Induction over the rounds of a loop that returns.\<close>

lemma run_loop_induct [consumes 1, case_names return continue]:
  assumes ret: "run_loop step s = Some r"
    and return: "\<And>s r. step s = Inl r \<Longrightarrow> P s r"
    and continue: "\<And>s s' r. step s = Inr s' \<Longrightarrow> run_loop step s' = Some r \<Longrightarrow> P s' r \<Longrightarrow> P s r"
  shows "P s r"
proof -
  have "step' = step \<longrightarrow> run_loop step s = Some r \<and> P s r" if "run_loop step' s = Some r" for step' s r
  proof (rule run_loop.raw_induct [where P = "\<lambda>step' s r. step' = step \<longrightarrow> run_loop step s = Some r \<and> P s r", OF _ that])
    fix f step' s r
    assume "\<And>step' s r. f step' s = Some r \<Longrightarrow> step' = step \<longrightarrow> run_loop step s = Some r \<and> P s r"
      and "(case step' s of Inl r \<Rightarrow> Some r | Inr s' \<Rightarrow> f step' s') = Some r"
    then show "step' = step \<longrightarrow> run_loop step s = Some r \<and> P s r"
      by (auto split: sum.splits intro: return continue)
  qed
  then show ?thesis using ret by blast
qed

text \<open>A loop whose rounds commute with a change of state commutes with it.\<close>

lemma run_loop_map:
  assumes "run_loop step s = Some r" "\<And>s. step' (g s) = map_sum h g (step s)"
  shows "run_loop step' (g s) = Some (h r)"
  using assms(1) by (induction rule: run_loop_induct) (simp_all add: assms(2))

text \<open>A well-founded relation that every round decreases makes the loop return.\<close>

lemma run_loop_returns:
  assumes wf: "wf R"
    and init: "I s"
    and keep: "\<And>s s'. I s \<Longrightarrow> step s = Inr s' \<Longrightarrow> I s'"
    and less: "\<And>s s'. I s \<Longrightarrow> step s = Inr s' \<Longrightarrow> (s', s) \<in> R"
  shows "\<exists>r. run_loop step s = Some r"
  using wf init
proof (induction s rule: wf_induct_rule)
  case (less s)
  show ?case
  proof (cases "step s")
    case (Inl r)
    then show ?thesis by simp
  next
    case (Inr s')
    then have "\<exists>r. run_loop step s' = Some r"
      using less keep assms(4) by blast
    with Inr show ?thesis by simp
  qed
qed

section \<open>Big-endian integers\<close>

definition u16_to_be :: "u16 \<Rightarrow> byte list" where
  "u16_to_be w = [ucast (drop_bit 8 w), ucast w]"

definition u16_from_be :: "byte \<Rightarrow> byte \<Rightarrow> u16" where
  "u16_from_be a b = push_bit 8 (ucast a) OR ucast b"

definition u32_to_be :: "u32 \<Rightarrow> byte list" where
  "u32_to_be w = [ucast (drop_bit 24 w), ucast (drop_bit 16 w), ucast (drop_bit 8 w), ucast w]"

definition u32_from_be :: "byte \<Rightarrow> byte \<Rightarrow> byte \<Rightarrow> byte \<Rightarrow> u32" where
  "u32_from_be a b c d =
     push_bit 24 (ucast a) OR push_bit 16 (ucast b) OR push_bit 8 (ucast c) OR ucast d"

text \<open>The four bytes of a slice that starts at an offset.\<close>

definition u32_at :: "byte list \<Rightarrow> nat \<Rightarrow> u32" where
  "u32_at bs i = u32_from_be (bs ! i) (bs ! (i + 1)) (bs ! (i + 2)) (bs ! (i + 3))"

lemma u16_from_be_split [be_simps, simp]:
  "u16_from_be (ucast (drop_bit 8 w)) (ucast (w :: u16)) = w"
proof (rule bit_word_eqI)
  fix n assume "n < LENGTH(16)"
  then consider "n < 8" | "8 \<le> n" "n < 16" by force
  then show "bit (u16_from_be (ucast (drop_bit 8 w)) (ucast w)) n = bit w n"
    by cases (auto simp: u16_from_be_def bit_simps)
qed

lemma u32_from_be_split [be_simps, simp]:
  "u32_from_be (ucast (drop_bit 24 w)) (ucast (drop_bit 16 w)) (ucast (drop_bit 8 w)) (ucast (w :: u32)) = w"
proof (rule bit_word_eqI)
  fix n assume "n < LENGTH(32)"
  then consider "n < 8" | "8 \<le> n" "n < 16" | "16 \<le> n" "n < 24" | "24 \<le> n" "n < 32" by force
  then show "bit (u32_from_be (ucast (drop_bit 24 w)) (ucast (drop_bit 16 w))
      (ucast (drop_bit 8 w)) (ucast w)) n = bit w n"
    by cases (auto simp: u32_from_be_def bit_simps)
qed

lemma length_u16_to_be [len_simps, simp]: "length (u16_to_be w) = 2"
  by (simp add: u16_to_be_def)

lemma length_u32_to_be [len_simps, simp]: "length (u32_to_be w) = 4"
  by (simp add: u32_to_be_def)

lemma u32_at_to_be [be_simps, simp]: "u32_at (u32_to_be w @ bs) 0 = w"
  by (simp add: u32_at_def u32_to_be_def)

lemma u32_at_append [be_simps]: "n = length xs \<Longrightarrow> u32_at (xs @ ys) (n + i) = u32_at ys i"
  by (simp add: u32_at_def nth_append)

lemma u32_at_drop: "i + 4 \<le> length bs - n \<Longrightarrow> u32_at (drop n bs) i = u32_at bs (n + i)"
  by (simp add: u32_at_def add.assoc)

section \<open>The flags and length word of a frame header\<close>

text \<open>
  A SPDY frame header packs an 8-bit flags field and a 24-bit length into one 32-bit word.
\<close>

lemma bit_24_mask: "i < 32 \<Longrightarrow> bit (0x00FFFFFF :: u32) i = (i < 24)"
proof -
  assume i: "i < 32"
  have "bit (mask 24 :: u32) i = (i < 24)" using i by (auto simp: bit_simps)
  moreover have "(mask 24 :: u32) = 0x00FFFFFF" by (simp add: mask_eq_exp_minus_1)
  ultimately show ?thesis by simp
qed

lemma word_of_nat_small_bits:
  assumes "n < 2 ^ k" "k \<le> i"
  shows "\<not> bit (word_of_nat n :: 'a::len word) i"
proof -
  have "n < 2 ^ i" using assms by (meson less_le_trans one_le_numeral power_increasing)
  then have "\<not> bit n i" by (simp add: bit_iff_odd)
  then show ?thesis by (simp add: bit_simps)
qed

lemma flags_len_length [be_simps]:
  assumes "n < 2 ^ 24"
  shows "(push_bit 24 (ucast (f :: byte) :: u32) OR word_of_nat n) AND 0x00FFFFFF = word_of_nat n"
proof (rule bit_word_eqI)
  fix i assume i: "i < LENGTH(32)"
  show "bit ((push_bit 24 (ucast f :: u32) OR word_of_nat n) AND 0x00FFFFFF) i
      = bit (word_of_nat n :: u32) i"
  proof (cases "i < 24")
    case True
    then have "bit (0x00FFFFFF :: u32) i" using bit_24_mask [of i] by simp
    with True show ?thesis by (simp add: bit_and_iff bit_or_iff bit_push_bit_iff)
  next
    case False
    with i have "\<not> bit (0x00FFFFFF :: u32) i" using bit_24_mask [of i] by simp
    with False show ?thesis
      using word_of_nat_small_bits [OF assms, where 'a = 32, of i] by (simp add: bit_and_iff)
  qed
qed

lemma flags_len_flags [be_simps]:
  assumes "n < 2 ^ 24"
  shows "ucast (drop_bit 24 (push_bit 24 (ucast f) OR (word_of_nat n :: u32))) = (f :: byte)"
proof (rule bit_word_eqI)
  fix i assume i: "i < LENGTH(8)"
  have "\<not> bit (word_of_nat n :: u32) (24 + i)"
    by (rule word_of_nat_small_bits [OF assms]) simp
  then show "bit (ucast (drop_bit 24 (push_bit 24 (ucast f) OR (word_of_nat n :: u32))) :: byte) i
      = bit f i"
    using i by (auto simp: bit_simps)
qed

lemma unat_word_of_nat_u32 [simp]: "n < 2 ^ 32 \<Longrightarrow> unat (word_of_nat n :: u32) = n"
  by (simp add: unat_of_nat take_bit_eq_mod)

lemma unat_and_24_bound: "unat (w AND 0x00FFFFFF :: u32) < 2 ^ 24"
proof -
  have "w AND 0x00FFFFFF \<le> (0x00FFFFFF :: u32)" by (rule word_and_le1)
  then have "unat (w AND 0x00FFFFFF :: u32) \<le> unat (0x00FFFFFF :: u32)"
    by (simp add: word_le_nat_alt)
  then show ?thesis by simp
qed

section \<open>UTF-8 strings\<close>

text \<open>
  \<open>String::from_utf8_lossy\<close>: the standard library walks over the bytes, keeps every valid
  sequence, and replaces each maximal ill-formed prefix by U+FFFD.  \<open>utf8_seq bs\<close> looks at the
  first sequence of \<open>bs\<close>: whether it is well formed, and how many bytes it takes.  A byte past
  the end reads as 0, as in the library's \<open>safe_get\<close>.
\<close>

definition byte_get :: "byte list \<Rightarrow> nat \<Rightarrow> byte" where
  "byte_get bs i = (if i < length bs then bs ! i else 0)"

definition utf8_cont :: "byte \<Rightarrow> bool" where
  "utf8_cont b \<longleftrightarrow> 0x80 \<le> b \<and> b \<le> 0xBF"

definition utf8_second3 :: "byte \<Rightarrow> byte \<Rightarrow> bool" where
  "utf8_second3 b c \<longleftrightarrow>
     (b = 0xE0 \<and> 0xA0 \<le> c \<and> c \<le> 0xBF) \<or>
     (0xE1 \<le> b \<and> b \<le> 0xEC \<and> 0x80 \<le> c \<and> c \<le> 0xBF) \<or>
     (b = 0xED \<and> 0x80 \<le> c \<and> c \<le> 0x9F) \<or>
     (0xEE \<le> b \<and> b \<le> 0xEF \<and> 0x80 \<le> c \<and> c \<le> 0xBF)"

definition utf8_second4 :: "byte \<Rightarrow> byte \<Rightarrow> bool" where
  "utf8_second4 b c \<longleftrightarrow>
     (b = 0xF0 \<and> 0x90 \<le> c \<and> c \<le> 0xBF) \<or>
     (0xF1 \<le> b \<and> b \<le> 0xF3 \<and> 0x80 \<le> c \<and> c \<le> 0xBF) \<or>
     (b = 0xF4 \<and> 0x80 \<le> c \<and> c \<le> 0x8F)"

definition utf8_seq :: "byte list \<Rightarrow> bool \<times> nat" where
  "utf8_seq bs =
     (let b = byte_get bs 0 in
      if b < 0x80 then (True, 1)
      else if 0xC2 \<le> b \<and> b \<le> 0xDF then
        (if utf8_cont (byte_get bs 1) then (True, 2) else (False, 1))
      else if 0xE0 \<le> b \<and> b \<le> 0xEF then
        (if \<not> utf8_second3 b (byte_get bs 1) then (False, 1)
         else if utf8_cont (byte_get bs 2) then (True, 3) else (False, 2))
      else if 0xF0 \<le> b \<and> b \<le> 0xF4 then
        (if \<not> utf8_second4 b (byte_get bs 1) then (False, 1)
         else if \<not> utf8_cont (byte_get bs 2) then (False, 2)
         else if utf8_cont (byte_get bs 3) then (True, 4) else (False, 3))
      else (False, 1))"

lemma utf8_seq_pos [simp]: "0 < snd (utf8_seq bs)"
  by (simp add: utf8_seq_def Let_def)

function from_utf8_lossy :: "byte list \<Rightarrow> rstring" where
  "from_utf8_lossy bs =
     (if bs = [] then []
      else let (ok, n) = utf8_seq bs
           in (if ok then take n bs else [0xEF, 0xBF, 0xBD]) @ from_utf8_lossy (drop n bs))"
  by pat_completeness auto
termination
proof (relation "measure length")
  fix bs :: "byte list" and x ok n
  assume "bs \<noteq> []" "x = utf8_seq bs" "(ok, n) = x"
  then have "0 < n" using utf8_seq_pos [of bs] by (metis snd_conv)
  with \<open>bs \<noteq> []\<close> show "(drop n bs, bs) \<in> measure length" by simp
qed simp

declare from_utf8_lossy.simps [simp del]

text \<open>The invariant of the type \<open>String\<close>: the bytes are well-formed UTF-8.\<close>

function valid_utf8 :: "byte list \<Rightarrow> bool" where
  "valid_utf8 bs =
     (if bs = [] then True
      else let (ok, n) = utf8_seq bs in ok \<and> valid_utf8 (drop n bs))"
  by pat_completeness auto
termination
proof (relation "measure length")
  fix bs :: "byte list" and x ok n
  assume "bs \<noteq> []" "x = utf8_seq bs" "(ok, n) = x"
  then have "0 < n" using utf8_seq_pos [of bs] by (metis snd_conv)
  with \<open>bs \<noteq> []\<close> show "(drop n bs, bs) \<in> measure length" by simp
qed simp

declare valid_utf8.simps [simp del]

lemma valid_utf8_Nil [simp]: "valid_utf8 []"
  by (subst valid_utf8.simps) simp

lemma from_utf8_lossy_valid [simp]: "valid_utf8 bs \<Longrightarrow> from_utf8_lossy bs = bs"
proof (induction bs rule: from_utf8_lossy.induct)
  case (1 bs)
  show ?case
  proof (cases "bs = []")
    case True
    then show ?thesis by (subst from_utf8_lossy.simps) simp
  next
    case False
    obtain ok n where seq: "utf8_seq bs = (ok, n)" by force
    from "1.prems" False seq have "ok" "valid_utf8 (drop n bs)"
      by (auto simp: valid_utf8.simps [of bs])
    then have "from_utf8_lossy (drop n bs) = drop n bs"
      using "1.IH" [OF False refl] seq by simp
    with \<open>ok\<close> False seq show ?thesis by (simp add: from_utf8_lossy.simps [of bs])
  qed
qed

definition ascii_lower :: "byte \<Rightarrow> byte" where
  "ascii_lower b = (if 0x41 \<le> b \<and> b \<le> 0x5A then b + 0x20 else b)"

definition to_ascii_lowercase :: "rstring \<Rightarrow> rstring" where
  "to_ascii_lowercase s = map ascii_lower s"

lemma length_to_ascii_lowercase [simp]: "length (to_ascii_lowercase s) = length s"
  by (simp add: to_ascii_lowercase_def)

lemma ascii_lower_low [simp]: "ascii_lower b < 0x80 \<longleftrightarrow> b < 0x80"
  by (simp add: ascii_lower_def) unat_arith

lemma ascii_lower_high: "\<not> b < 0x80 \<Longrightarrow> ascii_lower b = b"
  by (simp add: ascii_lower_def) unat_arith

text \<open>Every test of \<open>utf8_seq\<close> on a byte is false below \<open>0x80\<close> and unaffected above.\<close>

lemma utf8_tests_low:
  assumes "c < 0x80"
  shows "\<not> utf8_cont c" "\<not> utf8_second3 b c" "\<not> utf8_second4 b c"
  using assms by (simp_all add: utf8_cont_def utf8_second3_def utf8_second4_def) unat_arith+

lemma ascii_lower_tests [simp]:
  "utf8_cont (ascii_lower c) = utf8_cont c"
  "utf8_second3 b (ascii_lower c) = utf8_second3 b c"
  "utf8_second4 b (ascii_lower c) = utf8_second4 b c"
  by (cases "c < 0x80"; simp add: utf8_tests_low ascii_lower_high)+

lemma byte_get_map_lower [simp]: "byte_get (map ascii_lower bs) i = ascii_lower (byte_get bs i)"
  by (simp add: byte_get_def ascii_lower_def)

lemma utf8_seq_lower [simp]: "utf8_seq (map ascii_lower bs) = utf8_seq bs"
proof (cases "byte_get bs 0 < 0x80")
  case True
  then show ?thesis by (simp add: utf8_seq_def Let_def)
next
  case False
  then show ?thesis by (simp add: utf8_seq_def Let_def ascii_lower_high)
qed

lemma valid_utf8_lower [simp]: "valid_utf8 s \<Longrightarrow> valid_utf8 (to_ascii_lowercase s)"
proof (induction s rule: valid_utf8.induct)
  case (1 s)
  show ?case
  proof (cases "s = []")
    case True
    then show ?thesis by (simp add: to_ascii_lowercase_def)
  next
    case False
    obtain ok n where seq: "utf8_seq s = (ok, n)" by force
    from "1.prems" False seq have ok: "ok" "valid_utf8 (drop n s)"
      by (auto simp: valid_utf8.simps [of s])
    then have "valid_utf8 (to_ascii_lowercase (drop n s))"
      using "1.IH" [OF False refl] seq by simp
    with False seq ok show ?thesis
      by (subst valid_utf8.simps) (simp add: to_ascii_lowercase_def drop_map)
  qed
qed

section \<open>Lists updated by index\<close>

lemma nth_update_if: "j < length xs \<Longrightarrow> xs[i := x] ! j = (if i = j then x else xs ! j)"
  by (cases "i = j") simp_all

lemma list_all_update: "list_all P xs \<Longrightarrow> P x \<Longrightarrow> list_all P (xs[i := x])"
  using set_update_subset_insert [of xs i x] by (auto simp: list_all_iff)

lemma length_filter_update:
  "i < length xs \<Longrightarrow> length (filter P (xs[i := x])) + of_bool (P (xs ! i)) = length (filter P xs) + of_bool (P x)"
proof (induction xs arbitrary: i)
  case (Cons y ys)
  then show ?case
  proof (cases i)
    case (Suc j)
    then show ?thesis using Cons.IH [of j] Cons.prems by simp
  qed simp
qed simp

text \<open>A count at 64 bits.\<close>

lemma unat_word_of_nat64: "k < 2 ^ 64 \<Longrightarrow> unat (word_of_nat k :: u64) = k"
  by (simp add: unsigned_of_nat take_bit_nat_eq_self)

end
