(* ===== verification/Errors.thy ===== *)
theory Errors
  imports Prelude
begin

text \<open>
  The error type of the crate \<open>spdy-mux\<close> (\<^verbatim>\<open>crates/spdy-mux/src/error.rs\<close>), with the constructors of
  the source.  \<open>GoAway\<close> is also the name of a frame, so the error is \<open>ErrGoAway\<close>.  The payloads of
  \<open>Io\<close> and \<open>Transport\<close> are errors of other crates; the model keeps their text.  A \<open>Duration\<close> is a
  number of nanoseconds.
\<close>

type_synonym duration = nat

datatype spdy_error =
    InvalidFrame string
  | Compression string
  | StreamNotFound u32
  | StreamReset u32 u32
  | MuxClosed
  | SynReplyTimeout u32
  | Io string
  | CapacityExhausted (in_use: nat) (limit: u32)
  | StreamIdExhausted u32
  | FrameTooLarge (too_large_stream: u32) (too_large_size: nat) (too_large_max: u32)
  | ErrGoAway u32 u32
  | PingTimeout duration
  | IdleTimeout duration
  | Transport string

end
