(* ===== verification/Codec.thy ===== *)
theory Codec
  imports Errors Dictionary
begin

text \<open>
  The SPDY/3.1 codec (\<^verbatim>\<open>crates/spdy-mux/src/codec.rs\<close>): frame encoders, the incremental frame
  decoder, and the header-block compressor and decompressor loops around flate2's stateful zlib
  streams.

  flate2 is not part of the repository.  It enters as the record \<open>flate2\<close> of the operations the
  codec calls; a call of \<open>compress\<close> or \<open>decompress\<close> gets the remaining input and the free space of
  the output buffer, and returns the new stream state, how many bytes \<open>total_in\<close> grew by, the bytes
  written (\<open>total_out\<close> grew by their number), and the status or error.  The two loops can run for
  ever with a badly behaved stream, so they are \<open>option\<close>-valued: \<open>None\<close> is "does not return".
\<close>

section \<open>Constants and frames\<close>

definition SPDY_VERSION :: u16 where "SPDY_VERSION = 0x8003"
definition SYN_STREAM_TYPE :: u16 where "SYN_STREAM_TYPE = 0x0001"
definition SYN_REPLY_TYPE :: u16 where "SYN_REPLY_TYPE = 0x0002"
definition RST_STREAM_TYPE :: u16 where "RST_STREAM_TYPE = 0x0003"
definition SETTINGS_TYPE :: u16 where "SETTINGS_TYPE = 0x0004"
definition PING_TYPE :: u16 where "PING_TYPE = 0x0006"
definition GOAWAY_TYPE :: u16 where "GOAWAY_TYPE = 0x0007"
definition WINDOW_UPDATE_TYPE :: u16 where "WINDOW_UPDATE_TYPE = 0x0009"
definition FLAG_FIN :: byte where "FLAG_FIN = 0x01"
definition SETTINGS_INITIAL_WINDOW_SIZE :: u32 where "SETTINGS_INITIAL_WINDOW_SIZE = 7"
definition SETTINGS_MAX_CONCURRENT_STREAMS :: u32 where "SETTINGS_MAX_CONCURRENT_STREAMS = 4"
definition MAX_CONTROL_FRAME_SIZE :: nat where "MAX_CONTROL_FRAME_SIZE = 1048576"
definition MAX_HEADER_BLOCK_SIZE :: nat where "MAX_HEADER_BLOCK_SIZE = 1048576"

lemmas frame_type_defs =
  SPDY_VERSION_def SYN_STREAM_TYPE_def SYN_REPLY_TYPE_def RST_STREAM_TYPE_def SETTINGS_TYPE_def
  PING_TYPE_def GOAWAY_TYPE_def WINDOW_UPDATE_TYPE_def

datatype frame =
    SynStream (frame_stream_id: u32) (frame_headers: "header list") (frame_fin: bool)
  | SynReply (frame_stream_id: u32) (frame_headers: "header list") (frame_fin: bool)
  | Data (frame_stream_id: u32) (frame_payload: "byte list") (frame_fin: bool)
  | RstStream (frame_stream_id: u32) (rst_status: u32)
  | Ping (ping_id: u32)
  | GoAway (last_good_stream_id: u32) (goaway_status: u32)
  | WindowUpdate (frame_stream_id: u32) (delta_window_size: u32)
  | Settings (initial_window_size: "u32 option") (max_concurrent_streams: "u32 option")
      (settings_max_frame_size: "u32 option")
  | Unknown

section \<open>The zlib streams and the codec state\<close>

datatype zstatus = ZOk | ZBufError | ZStreamEnd

datatype zerror = ZError (needs_dictionary: bool) (zmessage: string)

record ('zc, 'zd) flate2 =
  z_compress_new :: 'zc
  z_decompress_new :: 'zd
  z_compress_dict :: "'zc \<Rightarrow> byte list \<Rightarrow> (string, 'zc) result"
  z_compress :: "'zc \<Rightarrow> byte list \<Rightarrow> nat \<Rightarrow> 'zc \<times> nat \<times> byte list \<times> (string, zstatus) result"
  z_decompress_dict :: "'zd \<Rightarrow> byte list \<Rightarrow> (string, 'zd) result"
  z_decompress :: "'zd \<Rightarrow> byte list \<Rightarrow> nat \<Rightarrow> 'zd \<times> nat \<times> byte list \<times> (zerror, zstatus) result"

record ('zc, 'zd) spdy_codec =
  compressor :: 'zc
  decompressor :: 'zd
  dict_set_compress :: bool
  dict_set_decompress :: bool
  codec_max_frame_size :: u32

definition with_max_frame_size :: "('zc, 'zd) flate2 \<Rightarrow> u32 \<Rightarrow> ('zc, 'zd) spdy_codec" where
  "with_max_frame_size z mfs =
     \<lparr>compressor = z_compress_new z, decompressor = z_decompress_new z,
      dict_set_compress = False, dict_set_decompress = False, codec_max_frame_size = mfs\<rparr>"

definition set_max_frame_size :: "u32 \<Rightarrow> ('zc, 'zd) spdy_codec \<Rightarrow> ('zc, 'zd) spdy_codec" where
  "set_max_frame_size mfs c = c\<lparr>codec_max_frame_size := mfs\<rparr>"

section \<open>Header blocks\<close>

text \<open>The uncompressed block: a count, then length-prefixed names (lowercased) and values.\<close>

definition header_entry :: "header \<Rightarrow> byte list" where
  "header_entry h =
     (let lower_name = to_ascii_lowercase (fst h); value = snd h
      in u32_to_be (word_of_nat (length lower_name)) @ lower_name @
         u32_to_be (word_of_nat (length value)) @ value)"

definition header_block :: "header list \<Rightarrow> byte list" where
  "header_block headers =
     u32_to_be (word_of_nat (length headers)) @ concat (map header_entry headers)"

text \<open>One round of the loop of \<open>parse_header_block\<close>: the entry at \<open>offset\<close>, and the next offset.\<close>

definition parse_header :: "byte list \<Rightarrow> nat \<Rightarrow> (spdy_error, header \<times> nat) result" where
  "parse_header bs offset =
     (if offset + 4 > length bs then Err (InvalidFrame ''header block truncated at name length'')
      else let name_len = unat (u32_at bs offset); off1 = offset + 4 in
      if off1 + name_len > length bs then Err (InvalidFrame ''header block truncated at name'')
      else let name = from_utf8_lossy (take name_len (drop off1 bs)); off2 = off1 + name_len in
      if off2 + 4 > length bs then Err (InvalidFrame ''header block truncated at value length'')
      else let value_len = unat (u32_at bs off2); off3 = off2 + 4 in
      if off3 + value_len > length bs then Err (InvalidFrame ''header block truncated at value'')
      else let value = from_utf8_lossy (take value_len (drop off3 bs)) in
      Ok ((name, value), off3 + value_len))"

primrec parse_headers :: "nat \<Rightarrow> byte list \<Rightarrow> nat \<Rightarrow> (spdy_error, header list) result" where
  "parse_headers 0 bs offset = Ok []"
| "parse_headers (Suc n) bs offset =
     (case parse_header bs offset of
        Inl e \<Rightarrow> Err e
      | Inr (h, offset') \<Rightarrow> map_sum id (\<lambda>hs. h # hs) (parse_headers n bs offset'))"

definition parse_header_block :: "byte list \<Rightarrow> (spdy_error, header list) result" where
  "parse_header_block bs =
     (if length bs < 4 then Err (InvalidFrame ''header block too short'')
      else let num_headers = unat (u32_at bs 0) in
      if num_headers > (length bs - 4) div 8
      then Err (InvalidFrame ''header count exceeds header block'')
      else parse_headers num_headers bs 4)"

definition grow_header_buffer :: "nat \<Rightarrow> (spdy_error, nat) result" where
  "grow_header_buffer len =
     (if len \<ge> MAX_HEADER_BLOCK_SIZE then Err (InvalidFrame ''header block too large'')
      else Ok (min (len * 2) MAX_HEADER_BLOCK_SIZE))"

section \<open>Compression\<close>

text \<open>
  One round of the loop of \<open>compress_headers\<close>.  Its state is the stream, \<open>compress_buf.len()\<close>,
  \<open>total_in\<close>, and the first \<open>total_out\<close> bytes of the buffer.
\<close>

type_synonym 'zc compress_state = "'zc \<times> nat \<times> nat \<times> byte list"

definition compress_round ::
  "('zc, 'zd) flate2 \<Rightarrow> byte list \<Rightarrow> 'zc compress_state
    \<Rightarrow> ('zc \<times> (spdy_error, byte list) result) + 'zc compress_state" where
  "compress_round z block st =
     (let (zc, buflen, total_in, out) = st;
          (zc', consumed, produced, r) = z_compress z zc (drop total_in block) (buflen - length out)
      in case r of
        Inl e \<Rightarrow> Inl (zc', Err (Compression e))
      | Inr status \<Rightarrow>
          (let total_in' = total_in + consumed; out' = out @ produced in
           if status = ZStreamEnd then Inl (zc', Ok out')
           else if total_in' \<ge> length block \<and> produced = [] then Inl (zc', Ok out')
           else Inr (zc', if length out' \<ge> buflen - 64 then buflen * 2 else buflen, total_in', out')))"

definition compress_headers ::
  "('zc, 'zd) flate2 \<Rightarrow> ('zc, 'zd) spdy_codec \<Rightarrow> header list
    \<Rightarrow> (('zc, 'zd) spdy_codec \<times> (spdy_error, byte list) result) option" where
  "compress_headers z c headers =
     (let block = header_block headers in
      case (if dict_set_compress c then Ok (compressor c) else z_compress_dict z (compressor c) SPDY_DICT) of
        Inl e \<Rightarrow> Some (c, Err (Compression e))
      | Inr zc \<Rightarrow>
          map_option (\<lambda>(zc', r). (c\<lparr>compressor := zc', dict_set_compress := True\<rparr>, r))
            (run_loop (compress_round z block) (zc, length block + 512, 0, [])))"

section \<open>Decompression\<close>

text \<open>
  One round of the loop of \<open>decompress_headers\<close>.  Its state is the stream, \<open>dict_set_decompress\<close>,
  \<open>output.len()\<close>, \<open>cur_in\<close>, and the first \<open>cur_out\<close> bytes of \<open>output\<close>.
\<close>

type_synonym 'zd decompress_state = "'zd \<times> bool \<times> nat \<times> nat \<times> byte list"

definition decompress_round ::
  "('zc, 'zd) flate2 \<Rightarrow> byte list \<Rightarrow> 'zd decompress_state
    \<Rightarrow> ('zd \<times> bool \<times> (spdy_error, header list) result) + 'zd decompress_state" where
  "decompress_round z compressed st =
     (let (zd, dict_set, outlen, cur_in, out) = st in
      case (if length out \<ge> outlen - 256 then grow_header_buffer outlen else Ok outlen) of
        Inl e \<Rightarrow> Inl (zd, dict_set, Err e)
      | Inr outlen1 \<Rightarrow>
          (let (zd', consumed, produced, r) =
                 z_decompress z zd (drop cur_in compressed) (outlen1 - length out);
               new_in = cur_in + consumed; out' = out @ produced
           in case r of
                Inr status \<Rightarrow>
                  (case status of
                     ZOk \<Rightarrow>
                       if new_in \<ge> length compressed \<and> produced = []
                       then Inl (zd', dict_set, parse_header_block out')
                       else Inr (zd', dict_set, outlen1, new_in, out')
                   | ZBufError \<Rightarrow>
                       if new_in \<ge> length compressed then Inl (zd', dict_set, parse_header_block out')
                       else (case grow_header_buffer outlen1 of
                               Inl e \<Rightarrow> Inl (zd', dict_set, Err e)
                             | Inr outlen2 \<Rightarrow> Inr (zd', dict_set, outlen2, new_in, out'))
                   | ZStreamEnd \<Rightarrow> Inl (zd', dict_set, parse_header_block out'))
              | Inl e \<Rightarrow>
                  if needs_dictionary e \<and> \<not> dict_set
                  then (case z_decompress_dict z zd' SPDY_DICT of
                          Inl m \<Rightarrow> Inl (zd', dict_set, Err (Compression m))
                        | Inr zd'' \<Rightarrow> Inr (zd'', True, outlen1, new_in, out'))
                  else Inl (zd', dict_set, Err (Compression (zmessage e)))))"

definition decompress_headers ::
  "('zc, 'zd) flate2 \<Rightarrow> ('zc, 'zd) spdy_codec \<Rightarrow> byte list
    \<Rightarrow> (('zc, 'zd) spdy_codec \<times> (spdy_error, header list) result) option" where
  "decompress_headers z c compressed =
     (if compressed = [] then Some (c, Ok [])
      else map_option (\<lambda>(zd, d, r). (c\<lparr>decompressor := zd, dict_set_decompress := d\<rparr>, r))
             (run_loop (decompress_round z compressed)
                (decompressor c, dict_set_decompress c,
                 min (length compressed * 4 + 1024) MAX_HEADER_BLOCK_SIZE, 0, [])))"

section \<open>Encoders\<close>

definition fin_flag :: "bool \<Rightarrow> byte" where
  "fin_flag fin = (if fin then FLAG_FIN else 0)"

definition flags_len :: "bool \<Rightarrow> nat \<Rightarrow> u32" where
  "flags_len fin payload_len = push_bit 24 (ucast (fin_flag fin)) OR word_of_nat payload_len"

definition encode_syn_stream_with_priority ::
  "('zc, 'zd) flate2 \<Rightarrow> ('zc, 'zd) spdy_codec \<Rightarrow> u32 \<Rightarrow> header list \<Rightarrow> bool \<Rightarrow> byte
    \<Rightarrow> (('zc, 'zd) spdy_codec \<times> (spdy_error, byte list) result) option" where
  "encode_syn_stream_with_priority z c stream_id headers fin priority =
     map_option (\<lambda>(c', r). (c', case r of
         Inl e \<Rightarrow> Err e
       | Inr compressed_headers \<Rightarrow>
           Ok (u16_to_be SPDY_VERSION @ u16_to_be SYN_STREAM_TYPE @
               u32_to_be (flags_len fin (10 + length compressed_headers)) @
               u32_to_be stream_id @ u32_to_be 0 @
               [push_bit 5 (priority AND 0x07), 0] @ compressed_headers)))
     (compress_headers z c headers)"

definition encode_syn_stream ::
  "('zc, 'zd) flate2 \<Rightarrow> ('zc, 'zd) spdy_codec \<Rightarrow> u32 \<Rightarrow> header list \<Rightarrow> bool
    \<Rightarrow> (('zc, 'zd) spdy_codec \<times> (spdy_error, byte list) result) option" where
  "encode_syn_stream z c stream_id headers fin =
     encode_syn_stream_with_priority z c stream_id headers fin 0"

definition encode_data :: "u32 \<Rightarrow> byte list \<Rightarrow> bool \<Rightarrow> byte list" where
  "encode_data stream_id payload fin =
     u32_to_be (stream_id AND 0x7FFFFFFF) @ u32_to_be (flags_len fin (length payload)) @ payload"

definition encode_rst_stream :: "u32 \<Rightarrow> u32 \<Rightarrow> byte list" where
  "encode_rst_stream stream_id status =
     u16_to_be SPDY_VERSION @ u16_to_be RST_STREAM_TYPE @ u32_to_be 8 @
     u32_to_be stream_id @ u32_to_be status"

definition encode_ping :: "u32 \<Rightarrow> byte list" where
  "encode_ping pid =
     u16_to_be SPDY_VERSION @ u16_to_be PING_TYPE @ u32_to_be 4 @ u32_to_be pid"

definition encode_window_update :: "u32 \<Rightarrow> u32 \<Rightarrow> byte list" where
  "encode_window_update stream_id delta =
     u16_to_be SPDY_VERSION @ u16_to_be WINDOW_UPDATE_TYPE @ u32_to_be 8 @
     u32_to_be stream_id @ u32_to_be delta"

definition encode_goaway :: "u32 \<Rightarrow> u32 \<Rightarrow> byte list" where
  "encode_goaway last_good status =
     u16_to_be SPDY_VERSION @ u16_to_be GOAWAY_TYPE @ u32_to_be 8 @
     u32_to_be last_good @ u32_to_be status"

definition settings_entry :: "u32 \<times> u32 \<Rightarrow> byte list" where
  "settings_entry e = 0 # drop 1 (u32_to_be (fst e)) @ u32_to_be (snd e)"

definition encode_settings :: "(u32 \<times> u32) list \<Rightarrow> byte list" where
  "encode_settings entries =
     u16_to_be SPDY_VERSION @ u16_to_be SETTINGS_TYPE @
     u32_to_be (word_of_nat (4 + length entries * 8)) @ u32_to_be (word_of_nat (length entries)) @
     concat (map settings_entry entries)"

section \<open>Decoder\<close>

type_synonym settings_acc = "u32 option \<times> u32 option \<times> u32 option"

definition apply_setting :: "u32 \<Rightarrow> u32 \<Rightarrow> settings_acc \<Rightarrow> settings_acc" where
  "apply_setting sid value acc =
     (let (iws, mcs, mfs) = acc in
      if sid = SETTINGS_INITIAL_WINDOW_SIZE then (Some value, mcs, mfs)
      else if sid = SETTINGS_MAX_CONCURRENT_STREAMS then (iws, Some value, mfs)
      else if sid = 5 then (iws, mcs, Some value)
      else (iws, mcs, mfs))"

fun settings_loop :: "nat \<Rightarrow> byte list \<Rightarrow> nat \<Rightarrow> settings_acc \<Rightarrow> settings_acc" where
  "settings_loop n payload offset acc =
     (if n = 0 \<or> offset + 8 > length payload then acc
      else settings_loop (n - 1) payload (offset + 8)
             (apply_setting
                (u32_from_be 0 (payload ! (offset + 1)) (payload ! (offset + 2)) (payload ! (offset + 3)))
                (u32_at payload (offset + 4)) acc))"

declare settings_loop.simps [simp del]

definition decode_settings :: "byte list \<Rightarrow> frame" where
  "decode_settings payload =
     (let (iws, mcs, mfs) =
        (if length payload \<ge> 4 then settings_loop (unat (u32_at payload 0)) payload 4 (None, None, None)
         else (None, None, None))
      in Settings iws mcs mfs)"

definition decode_control_frame ::
  "('zc, 'zd) flate2 \<Rightarrow> ('zc, 'zd) spdy_codec \<Rightarrow> u16 \<Rightarrow> byte \<Rightarrow> byte list
    \<Rightarrow> (('zc, 'zd) spdy_codec \<times> (spdy_error, frame) result) option" where
  "decode_control_frame z c frame_type flags payload =
     (if frame_type = SYN_STREAM_TYPE then
        (if length payload < 10 then Some (c, Err (InvalidFrame ''SYN_STREAM payload too short''))
         else map_option (\<lambda>(c', r). (c', map_sum id
                  (\<lambda>hs. SynStream (u32_at payload 0) hs (flags AND FLAG_FIN \<noteq> 0)) r))
                (decompress_headers z c (drop 10 payload)))
      else if frame_type = SYN_REPLY_TYPE then
        (if length payload < 4 then Some (c, Err (InvalidFrame ''SYN_REPLY payload too short''))
         else map_option (\<lambda>(c', r). (c', map_sum id
                  (\<lambda>hs. SynReply (u32_at payload 0) hs (flags AND FLAG_FIN \<noteq> 0)) r))
                (decompress_headers z c (drop 4 payload)))
      else if frame_type = RST_STREAM_TYPE then
        Some (c, if length payload < 8 then Err (InvalidFrame ''RST_STREAM payload too short'')
                 else Ok (RstStream (u32_at payload 0) (u32_at payload 4)))
      else if frame_type = PING_TYPE then
        Some (c, if length payload < 4 then Err (InvalidFrame ''PING payload too short'')
                 else Ok (Ping (u32_at payload 0)))
      else if frame_type = GOAWAY_TYPE then
        Some (c, if length payload < 8 then Err (InvalidFrame ''GOAWAY payload too short'')
                 else Ok (GoAway (u32_at payload 0) (u32_at payload 4)))
      else if frame_type = SETTINGS_TYPE then Some (c, Ok (decode_settings payload))
      else if frame_type = WINDOW_UPDATE_TYPE then
        Some (c, if length payload < 8 then Err (InvalidFrame ''WINDOW_UPDATE payload too short'')
                 else Ok (WindowUpdate (u32_at payload 0) (u32_at payload 4)))
      else Some (c, Ok Unknown))"

text \<open>The fields of the 8-byte frame header at the front of a buffer.\<close>

definition hdr_is_control :: "byte list \<Rightarrow> bool" where
  "hdr_is_control buf \<longleftrightarrow> u16_from_be (buf ! 0) (buf ! 1) AND 0x8000 \<noteq> 0"

definition hdr_flags :: "byte list \<Rightarrow> byte" where
  "hdr_flags buf = ucast (drop_bit 24 (u32_at buf 4))"

definition hdr_payload_len :: "byte list \<Rightarrow> nat" where
  "hdr_payload_len buf = unat (u32_at buf 4 AND 0x00FFFFFF)"

definition hdr_stream_id :: "byte list \<Rightarrow> u32" where
  "hdr_stream_id buf = u32_at buf 0 AND 0x7FFFFFFF"

definition frame_limit :: "('zc, 'zd) spdy_codec \<Rightarrow> byte list \<Rightarrow> nat" where
  "frame_limit c buf =
     (if hdr_is_control buf then MAX_CONTROL_FRAME_SIZE else unat (codec_max_frame_size c))"

text \<open>
  \<open>decode_frame\<close> returns the codec, the buffer with the consumed bytes removed, and the result.
\<close>

definition decode_frame ::
  "('zc, 'zd) flate2 \<Rightarrow> ('zc, 'zd) spdy_codec \<Rightarrow> byte list
    \<Rightarrow> (('zc, 'zd) spdy_codec \<times> byte list \<times> (spdy_error, frame option) result) option" where
  "decode_frame z c buf =
     (if length buf < 8 then Some (c, buf, Ok None)
      else let payload_len = hdr_payload_len buf; limit = frame_limit c buf in
      if payload_len > limit
      then Some (c, buf, Err (FrameTooLarge (hdr_stream_id buf) payload_len (word_of_nat limit)))
      else let total = 8 + payload_len in
      if length buf < total then Some (c, buf, Ok None)
      else if hdr_is_control buf then
        map_option (\<lambda>(c', r). (c', drop total buf, map_sum id Some r))
          (decode_control_frame z c (u16_from_be (buf ! 2) (buf ! 3)) (hdr_flags buf)
             (take payload_len (drop 8 buf)))
      else
        Some (c, drop total buf,
              Ok (Some (Data (hdr_stream_id buf) (take payload_len (drop 8 buf))
                          (hdr_flags buf AND FLAG_FIN \<noteq> 0)))))"

end
