(* ===== verification/Codec_Roundtrip.thy ===== *)
theory Codec_Roundtrip
  imports Codec
begin

text \<open>
  Correctness of the frame layer of the codec: what the decoder returns on an encoded frame, that it
  consumes exactly that frame, and that its answer does not depend on how the transport cut the
  bytes into chunks.
\<close>

section \<open>Header fields\<close>

lemma u32_at_mid [be_simps, simp]: "n = length xs \<Longrightarrow> u32_at (xs @ u32_to_be w @ ys) n = w"
  using u32_at_append [of n xs "u32_to_be w @ ys" 0] by simp

lemma hdr_is_control_u32 [simp]: "hdr_is_control (u32_to_be w @ bs) \<longleftrightarrow> bit w 31"
proof -
  let ?v = "u16_from_be (ucast (drop_bit 24 w)) (ucast (drop_bit 16 w))"
  have "(?v AND 0x8000 \<noteq> 0) = bit ?v 15"
  proof -
    have "(0x8000 :: u16) = push_bit 15 1" by simp
    then show ?thesis
      by (metis and_exp_eq_0_iff_not_bit push_bit_of_1)
  qed
  also have "bit ?v 15 = bit w 31"
    by (auto simp: u16_from_be_def bit_simps)
  finally show ?thesis by (simp add: hdr_is_control_def u32_to_be_def)
qed

lemma hdr_is_control_version [simp]: "hdr_is_control (u16_to_be SPDY_VERSION @ bs)"
  by (simp add: hdr_is_control_def u16_to_be_def SPDY_VERSION_def u16_from_be_def)

lemma not_bit_31_masked [simp]: "\<not> bit (w AND 0x7FFFFFFF :: u32) 31"
proof -
  have "\<not> bit (0x7FFFFFFF :: u32) 31" by simp
  then show ?thesis by (simp add: bit_and_iff)
qed

lemma hdr_payload_len_at [simp]:
  "length xs = 4 \<Longrightarrow> hdr_payload_len (xs @ u32_to_be w @ ys) = unat (w AND 0x00FFFFFF)"
  by (simp add: hdr_payload_len_def)

lemma hdr_flags_at [simp]:
  "length xs = 4 \<Longrightarrow> hdr_flags (xs @ u32_to_be w @ ys) = ucast (drop_bit 24 w)"
  by (simp add: hdr_flags_def)

lemma hdr_stream_id_at [simp]: "hdr_stream_id (u32_to_be w @ ys) = w AND 0x7FFFFFFF"
  by (simp add: hdr_stream_id_def)

lemma flags_len_payload [simp]: "n < 2 ^ 24 \<Longrightarrow> unat (flags_len fin n AND 0x00FFFFFF) = n"
  by (simp add: flags_len_def flags_len_length)

lemma flags_len_fin [simp]:
  "n < 2 ^ 24 \<Longrightarrow> ucast (drop_bit 24 (flags_len fin n)) = fin_flag fin"
  unfolding flags_len_def by (rule flags_len_flags)

lemma fin_flag_test [simp]: "(fin_flag fin AND FLAG_FIN \<noteq> 0) = fin"
  by (simp add: fin_flag_def FLAG_FIN_def)

lemma hdr_payload_len_bound: "hdr_payload_len buf < 2 ^ 24"
  by (simp add: hdr_payload_len_def unat_and_24_bound [simplified])

section \<open>Buffers that grow at the end\<close>

lemma hdr_append [simp]:
  assumes "8 \<le> length buf"
  shows "hdr_is_control (buf @ tail_bs) = hdr_is_control buf"
    and "hdr_flags (buf @ tail_bs) = hdr_flags buf"
    and "hdr_payload_len (buf @ tail_bs) = hdr_payload_len buf"
    and "hdr_stream_id (buf @ tail_bs) = hdr_stream_id buf"
    and "frame_limit c (buf @ tail_bs) = frame_limit c buf"
proof -
  have nth: "(buf @ tail_bs) ! i = buf ! i" if "i < 8" for i
    using that assms by (simp add: nth_append)
  show "hdr_is_control (buf @ tail_bs) = hdr_is_control buf"
    "hdr_flags (buf @ tail_bs) = hdr_flags buf"
    "hdr_payload_len (buf @ tail_bs) = hdr_payload_len buf"
    "hdr_stream_id (buf @ tail_bs) = hdr_stream_id buf"
    "frame_limit c (buf @ tail_bs) = frame_limit c buf"
    by (simp_all add: hdr_is_control_def hdr_flags_def hdr_payload_len_def hdr_stream_id_def
        frame_limit_def u32_at_def nth)
qed

lemma map_sum_Some_neq [simp]: "map_sum id Some r \<noteq> Ok None"
  by (cases r) auto

lemma decode_frame_None:
  assumes "decode_frame z c buf = Some (c', rest, Ok None)"
  shows "c' = c \<and> rest = buf"
  using assms
  by (auto simp: decode_frame_def Let_def split: if_splits)

lemma decode_frame_Some:
  assumes "decode_frame z c buf = Some (c', rest, Ok (Some f))"
  shows "8 + hdr_payload_len buf \<le> length buf \<and> rest = drop (8 + hdr_payload_len buf) buf
    \<and> hdr_payload_len buf \<le> frame_limit c buf"
  using assms by (auto simp: decode_frame_def Let_def split: if_splits)

lemma decode_frame_shrinks:
  "decode_frame z c buf = Some (c', rest, Ok (Some f)) \<Longrightarrow> length rest + 8 \<le> length buf"
  using decode_frame_Some [of z c buf c' rest f] by auto

text \<open>Bytes that arrive later never change the answer for the frame at the front of the buffer.\<close>

lemma decode_frame_append:
  assumes "decode_frame z c buf = Some (c', rest, r)" and "r \<noteq> Ok None"
  shows "decode_frame z c (buf @ tail_bs) = Some (c', rest @ tail_bs, r)"
proof (cases "length buf < 8")
  case True
  then show ?thesis using assms by (simp add: decode_frame_def)
next
  case False
  then have len: "8 \<le> length buf" by simp
  have nth: "(buf @ tail_bs) ! i = buf ! i" if "i < 8" for i
    using that len by (simp add: nth_append)
  show ?thesis
  proof (cases "hdr_payload_len buf > frame_limit c buf")
    case True
    then show ?thesis using assms len by (auto simp: decode_frame_def Let_def)
  next
    case False
    then have "8 + hdr_payload_len buf \<le> length buf"
      using assms len by (auto simp: decode_frame_def Let_def split: if_splits)
    then show ?thesis
      using assms len False nth by (auto simp: decode_frame_def Let_def)
  qed
qed

section \<open>Round trips\<close>

lemma decode_control_at:
  assumes ft: "length payload = n" "n \<le> MAX_CONTROL_FRAME_SIZE"
    and fl: "unat (w AND 0x00FFFFFF) = n"
  shows "decode_frame z c (u16_to_be SPDY_VERSION @ u16_to_be t @ u32_to_be w @ payload @ rest) =
    map_option (\<lambda>(c', r). (c', rest, map_sum id Some r))
      (decode_control_frame z c t (ucast (drop_bit 24 w)) payload)"
proof -
  let ?buf = "u16_to_be SPDY_VERSION @ u16_to_be t @ u32_to_be w @ payload @ rest"
  have hdr: "hdr_payload_len ?buf = n" "hdr_flags ?buf = ucast (drop_bit 24 w)"
    using hdr_payload_len_at [of "u16_to_be SPDY_VERSION @ u16_to_be t" w "payload @ rest"]
      hdr_flags_at [of "u16_to_be SPDY_VERSION @ u16_to_be t" w "payload @ rest"] fl
    by simp_all
  have ftype: "u16_from_be (?buf ! 2) (?buf ! 3) = t"
    by (simp add: u16_to_be_def)
  show ?thesis
    using ft by (simp add: decode_frame_def Let_def hdr ftype frame_limit_def)
qed

lemma decode_encode_data:
  assumes "length payload < 2 ^ 24" "length payload \<le> unat (codec_max_frame_size c)"
  shows "decode_frame z c (encode_data sid payload fin @ rest)
    = Some (c, rest, Ok (Some (Data (sid AND 0x7FFFFFFF) payload fin)))"
proof -
  let ?w = "flags_len fin (length payload)"
  let ?buf = "u32_to_be (sid AND 0x7FFFFFFF) @ u32_to_be ?w @ payload @ rest"
  have hdr: "hdr_payload_len ?buf = length payload" "hdr_flags ?buf = fin_flag fin"
    "hdr_stream_id ?buf = sid AND 0x7FFFFFFF" "\<not> hdr_is_control ?buf"
    using assms by (simp_all add: and.assoc)
  show ?thesis
    using assms by (simp add: encode_data_def decode_frame_def Let_def hdr frame_limit_def)
qed

lemma unat_and_small [simp]:
  "unat ((8 :: u32) AND 0x00FFFFFF) = 8" "unat ((4 :: u32) AND 0x00FFFFFF) = 4"
  by simp_all

lemma u32_at_second [simp]: "u32_at (u32_to_be a @ u32_to_be b @ bs) 4 = b"
  using u32_at_mid [of 4 "u32_to_be a" b bs] by simp

lemma u32_at_Nil [simp]: "u32_at (u32_to_be a) 0 = a" "u32_at (u32_to_be a @ u32_to_be b) 4 = b"
  using u32_at_to_be [of a "[]"] u32_at_second [of a b "[]"] by simp_all

lemma decode_encode_rst:
  "decode_frame z c (encode_rst_stream sid status @ rest)
    = Some (c, rest, Ok (Some (RstStream sid status)))"
  using decode_control_at [of "u32_to_be sid @ u32_to_be status" 8 8 z c RST_STREAM_TYPE rest]
  by (simp add: encode_rst_stream_def MAX_CONTROL_FRAME_SIZE_def decode_control_frame_def
      frame_type_defs)

lemma decode_encode_ping:
  "decode_frame z c (encode_ping pid @ rest) = Some (c, rest, Ok (Some (Ping pid)))"
  using decode_control_at [of "u32_to_be pid" 4 4 z c PING_TYPE rest]
  by (simp add: encode_ping_def MAX_CONTROL_FRAME_SIZE_def decode_control_frame_def frame_type_defs)

lemma decode_encode_window_update:
  "decode_frame z c (encode_window_update sid delta @ rest)
    = Some (c, rest, Ok (Some (WindowUpdate sid delta)))"
  using decode_control_at [of "u32_to_be sid @ u32_to_be delta" 8 8 z c WINDOW_UPDATE_TYPE rest]
  by (simp add: encode_window_update_def MAX_CONTROL_FRAME_SIZE_def decode_control_frame_def
      frame_type_defs)

lemma decode_encode_goaway:
  "decode_frame z c (encode_goaway lg status @ rest) = Some (c, rest, Ok (Some (GoAway lg status)))"
  using decode_control_at [of "u32_to_be lg @ u32_to_be status" 8 8 z c GOAWAY_TYPE rest]
  by (simp add: encode_goaway_def MAX_CONTROL_FRAME_SIZE_def decode_control_frame_def
      frame_type_defs)

section \<open>SETTINGS\<close>

lemma length_settings_entry [simp]: "length (settings_entry e) = 8"
  by (simp add: settings_entry_def)

lemma u32_from_be_low24 [be_simps]:
  "u32_from_be 0 (ucast (drop_bit 16 w)) (ucast (drop_bit 8 w)) (ucast w) = (w AND 0x00FFFFFF :: u32)"
proof (rule bit_word_eqI)
  fix n assume n: "n < LENGTH(32)"
  then consider "n < 8" | "8 \<le> n" "n < 16" | "16 \<le> n" "n < 24" | "24 \<le> n" "n < 32" by force
  then show "bit (u32_from_be 0 (ucast (drop_bit 16 w)) (ucast (drop_bit 8 w)) (ucast w)) n
      = bit (w AND 0x00FFFFFF :: u32) n"
    using n bit_24_mask [of n] by cases (auto simp: u32_from_be_def bit_simps)
qed

lemma settings_loop_entries:
  "settings_loop (length es) (pre @ concat (map settings_entry es) @ suf) (length pre) acc
    = fold (\<lambda>e. apply_setting (fst e AND 0x00FFFFFF) (snd e)) es acc"
proof (induction es arbitrary: pre acc)
  case Nil
  then show ?case by (simp add: settings_loop.simps)
next
  case (Cons e es)
  let ?payload = "pre @ settings_entry e @ concat (map settings_entry es) @ suf"
  have sid: "u32_from_be 0 (?payload ! (length pre + 1)) (?payload ! (length pre + 2))
      (?payload ! (length pre + 3)) = fst e AND 0x00FFFFFF"
    by (simp add: settings_entry_def u32_to_be_def nth_append u32_from_be_low24)
  have val: "u32_at ?payload (length pre + 4) = snd e"
    using u32_at_mid [of "length pre + 4" "pre @ 0 # drop 1 (u32_to_be (fst e))" "snd e"
        "concat (map settings_entry es) @ suf"]
    by (simp add: settings_entry_def)
  have "settings_loop (length (e # es)) ?payload (length pre) acc
      = settings_loop (length es) ?payload (length (pre @ settings_entry e))
          (apply_setting (fst e AND 0x00FFFFFF) (snd e) acc)"
    by (subst settings_loop.simps, subst sid, subst val) simp
  also have "\<dots> = fold (\<lambda>e. apply_setting (fst e AND 0x00FFFFFF) (snd e)) es
      (apply_setting (fst e AND 0x00FFFFFF) (snd e) acc)"
    using Cons.IH [of "pre @ settings_entry e"] by simp
  finally show ?case by simp
qed

definition settings_frame :: "settings_acc \<Rightarrow> frame" where
  "settings_frame acc = (let (iws, mcs, mfs) = acc in Settings iws mcs mfs)"

lemma length_concat_settings [simp]: "length (concat (map settings_entry es)) = 8 * length es"
  by (induction es) auto

lemma decode_encode_settings:
  assumes "length es \<le> 131071"
  shows "decode_frame z c (encode_settings es @ rest) = Some (c, rest, Ok (Some (settings_frame
    (fold (\<lambda>e. apply_setting (fst e AND 0x00FFFFFF) (snd e)) es (None, None, None)))))"
proof -
  let ?n = "4 + length es * 8"
  let ?payload = "u32_to_be (word_of_nat (length es)) @ concat (map settings_entry es)"
  have small: "?n < 2 ^ 24" using assms by simp
  have "(word_of_nat ?n :: u32) AND 0x00FFFFFF = word_of_nat ?n"
    using flags_len_length [OF small, of 0] by simp
  then have fl: "unat ((word_of_nat ?n :: u32) AND 0x00FFFFFF) = ?n"
    using unat_word_of_nat_u32 [of ?n] small by simp
  have "settings_loop (length es) ?payload 4 (None, None, None)
      = fold (\<lambda>e. apply_setting (fst e AND 0x00FFFFFF) (snd e)) es (None, None, None)"
    using settings_loop_entries [of es "u32_to_be (word_of_nat (length es))" "[]"] by simp
  moreover have "unat (u32_at ?payload 0) = length es"
    using assms by simp
  ultimately have "decode_settings ?payload = settings_frame
      (fold (\<lambda>e. apply_setting (fst e AND 0x00FFFFFF) (snd e)) es (None, None, None))"
    by (simp add: decode_settings_def settings_frame_def)
  moreover have "length ?payload = ?n" by simp
  ultimately show ?thesis
    using decode_control_at [of ?payload ?n "word_of_nat ?n" z c SETTINGS_TYPE rest] assms fl
    by (simp add: encode_settings_def MAX_CONTROL_FRAME_SIZE_def decode_control_frame_def
        frame_type_defs del: of_nat_add of_nat_mult)
qed

section \<open>Header blocks\<close>

definition wf_header :: "header \<Rightarrow> bool" where
  "wf_header h \<longleftrightarrow> valid_utf8 (fst h) \<and> valid_utf8 (snd h)
     \<and> length (fst h) < 2 ^ 32 \<and> length (snd h) < 2 ^ 32"

definition lower_header :: "header \<Rightarrow> header" where
  "lower_header h = (to_ascii_lowercase (fst h), snd h)"

lemma length_header_entry [simp]:
  "length (header_entry h) = 8 + length (fst h) + length (snd h)"
  by (simp add: header_entry_def Let_def)

lemma parse_header_entry:
  assumes "wf_header h"
  shows "parse_header (pre @ header_entry h @ suf) (length pre)
    = Ok (lower_header h, length pre + length (header_entry h))"
proof -
  let ?nm = "to_ascii_lowercase (fst h)" and ?v = "snd h"
  let ?bs = "pre @ u32_to_be (word_of_nat (length ?nm)) @ ?nm @ u32_to_be (word_of_nat (length ?v)) @ ?v @ suf"
  have nl: "u32_at ?bs (length pre) = word_of_nat (length ?nm)" by simp
  have vl: "u32_at ?bs (length pre + 4 + length ?nm) = word_of_nat (length ?v)"
    using u32_at_mid [of "length pre + 4 + length ?nm"
        "pre @ u32_to_be (word_of_nat (length ?nm)) @ ?nm" "word_of_nat (length ?v)" "?v @ suf"]
    by simp
  show ?thesis
    using assms nl vl
    by (simp add: parse_header_def header_entry_def wf_header_def lower_header_def Let_def add.assoc)
qed

lemma parse_headers_entries:
  assumes "list_all wf_header hs"
  shows "parse_headers (length hs) (pre @ concat (map header_entry hs) @ suf) (length pre)
    = Ok (map lower_header hs)"
  using assms
proof (induction hs arbitrary: pre)
  case Nil
  then show ?case by simp
next
  case (Cons h hs)
  have "parse_headers (length hs) ((pre @ header_entry h) @ concat (map header_entry hs) @ suf)
      (length (pre @ header_entry h)) = Ok (map lower_header hs)"
    using Cons by (intro Cons.IH) simp
  then show ?case
    using parse_header_entry [of h pre "concat (map header_entry hs) @ suf"] Cons.prems by simp
qed

lemma length_header_entries: "8 * length hs \<le> length (concat (map header_entry hs))"
  by (induction hs) auto

lemma parse_header_block_roundtrip:
  assumes "list_all wf_header hs" "length hs < 2 ^ 32"
  shows "parse_header_block (header_block hs) = Ok (map lower_header hs)"
proof -
  have "length hs \<le> length (concat (map header_entry hs)) div 8"
    using length_header_entries [of hs] by simp
  then show ?thesis
    using assms parse_headers_entries [OF assms(1), of "u32_to_be (word_of_nat (length hs))" "[]"]
    by (simp add: parse_header_block_def header_block_def Let_def)
qed

end
