(* ===== verification/Codec_Zlib.thy ===== *)
theory Codec_Zlib
  imports Codec_Roundtrip
begin

text \<open>
  The header-block side of the codec: the ceiling on what a compressed block can inflate to, the
  termination of the decompressor loop, and the transfer of header lists between two codecs whose
  zlib streams are in step.  What is assumed of flate2 is stated as predicates over its operations:
  the bounds and the progress guarantee of one call, and that a decompressor in step with a
  compressor gives back what was compressed.
\<close>

section \<open>Parsing is bounded by the block\<close>

lemma parse_headers_length: "parse_headers n bs offset = Ok hs \<Longrightarrow> length hs = n"
  by (induction n arbitrary: offset hs) (auto split: sum.splits prod.splits simp: map_sum_def)

lemma parse_header_block_count:
  "parse_header_block bs = Ok hs \<Longrightarrow> length hs \<le> (length bs - 4) div 8"
  by (auto simp: parse_header_block_def Let_def dest: parse_headers_length split: if_splits)

section \<open>Assumptions on one zlib call\<close>

definition z_bounded :: "('zc, 'zd) flate2 \<Rightarrow> bool" where
  "z_bounded z \<longleftrightarrow> (\<forall>zd inp n zd' k out r. z_decompress z zd inp n = (zd', k, out, r) \<longrightarrow>
     k \<le> length inp \<and> length out \<le> n)"

definition z_progress :: "('zc, 'zd) flate2 \<Rightarrow> bool" where
  "z_progress z \<longleftrightarrow> (\<forall>zd inp n zd' k out. z_decompress z zd inp n = (zd', k, out, Ok ZOk) \<longrightarrow>
     0 < k \<or> out \<noteq> [])"

lemma z_boundedD:
  "z_bounded z \<Longrightarrow> z_decompress z zd inp n = (zd', k, out, r) \<Longrightarrow> k \<le> length inp \<and> length out \<le> n"
  unfolding z_bounded_def by blast

lemma z_progressD:
  "z_progress z \<Longrightarrow> z_decompress z zd inp n = (zd', k, out, Ok ZOk) \<Longrightarrow> 0 < k \<or> out \<noteq> []"
  unfolding z_progress_def by blast

lemma grow_header_buffer_Ok:
  "grow_header_buffer len = Ok len' \<Longrightarrow> len < MAX_HEADER_BLOCK_SIZE \<and> len' = min (2 * len) MAX_HEADER_BLOCK_SIZE"
  by (auto simp: grow_header_buffer_def mult.commute split: if_splits)

text \<open>The buffer after the check at the head of the loop.\<close>

lemma loop_head_buffer:
  assumes "(if length out \<ge> outlen - 256 then grow_header_buffer outlen else Ok outlen) = Ok outlen1"
    and "outlen \<le> MAX_HEADER_BLOCK_SIZE"
  shows "outlen \<le> outlen1 \<and> outlen1 \<le> MAX_HEADER_BLOCK_SIZE"
  using assms by (auto split: if_splits dest!: grow_header_buffer_Ok)

section \<open>The inflation ceiling\<close>

definition bounded_result :: "(spdy_error, header list) result \<Rightarrow> bool" where
  "bounded_result r \<longleftrightarrow> (\<forall>hs. r = Ok hs \<longrightarrow>
     (\<exists>out. length out \<le> MAX_HEADER_BLOCK_SIZE \<and> parse_header_block out = Ok hs))"

lemma bounded_result_Err [simp]: "bounded_result (Err e)"
  by (simp add: bounded_result_def)

lemma bounded_result_parse:
  "length out \<le> MAX_HEADER_BLOCK_SIZE \<Longrightarrow> bounded_result (parse_header_block out)"
  by (auto simp: bounded_result_def)

text \<open>The invariant of the loop: the bytes written fit in the buffer, the buffer under the ceiling.\<close>

fun decompress_inv :: "byte list \<Rightarrow> 'zd decompress_state \<Rightarrow> bool" where
  "decompress_inv compressed (zd, dict_set, outlen, cur_in, out) \<longleftrightarrow>
     length out \<le> outlen \<and> 0 < outlen \<and> outlen \<le> MAX_HEADER_BLOCK_SIZE \<and> cur_in \<le> length compressed"

text \<open>What one round does to a state that satisfies the invariant.\<close>

lemma decompress_round_cases:
  assumes z: "z_bounded z" and inv: "decompress_inv compressed (zd, ds, outlen, cur_in, out)"
  obtains
    (return) zd' d r where "decompress_round z compressed (zd, ds, outlen, cur_in, out) = Inl (zd', d, r)"
      "bounded_result r"
  | (progress) zd' outlen1 k prod where
      "decompress_round z compressed (zd, ds, outlen, cur_in, out) = Inr (zd', ds, outlen1, cur_in + k, out @ prod)"
      "z_decompress z zd (drop cur_in compressed) (outlen1 - length out) = (zd', k, prod, Ok ZOk)"
      "outlen \<le> outlen1" "outlen1 \<le> MAX_HEADER_BLOCK_SIZE" "length (out @ prod) \<le> outlen1"
      "cur_in + k \<le> length compressed"
  | (grown) zd' outlen1 k prod where
      "decompress_round z compressed (zd, ds, outlen, cur_in, out) = Inr (zd', ds, outlen1, cur_in + k, out @ prod)"
      "outlen < outlen1" "outlen1 \<le> MAX_HEADER_BLOCK_SIZE" "length (out @ prod) \<le> outlen1"
      "cur_in + k \<le> length compressed"
  | (dictionary) zd' outlen1 k prod where
      "decompress_round z compressed (zd, ds, outlen, cur_in, out) = Inr (zd', True, outlen1, cur_in + k, out @ prod)"
      "\<not> ds" "outlen \<le> outlen1" "outlen1 \<le> MAX_HEADER_BLOCK_SIZE" "length (out @ prod) \<le> outlen1"
      "cur_in + k \<le> length compressed"
proof (cases "if length out \<ge> outlen - 256 then grow_header_buffer outlen else Ok outlen")
  case (Inl e)
  then show ?thesis using return by (simp add: decompress_round_def Let_def)
next
  case (Inr outlen1)
  have hd: "outlen \<le> outlen1 \<and> outlen1 \<le> MAX_HEADER_BLOCK_SIZE"
    using loop_head_buffer [OF Inr] inv by simp
  obtain zd' k prod r where
    call: "z_decompress z zd (drop cur_in compressed) (outlen1 - length out) = (zd', k, prod, r)"
    by (metis prod_cases4)
  have bounds: "length (out @ prod) \<le> outlen1" "cur_in + k \<le> length compressed"
    using z_boundedD [OF z call] inv hd by auto
  then have small: "bounded_result (parse_header_block (out @ prod))"
    using hd by (intro bounded_result_parse) simp
  note round = decompress_round_def Let_def Inr call
  show ?thesis
  proof (cases r)
    case (Inl e)
    then show ?thesis
      using return [where r = "Err (Compression (zmessage e))"]
        return [where r = "Err (Compression m)" for m] dictionary bounds hd
      by (cases "z_decompress_dict z zd' SPDY_DICT"; cases "needs_dictionary e \<and> \<not> ds")
        (auto simp: round)
  next
    case (Inr status)
    show ?thesis
    proof (cases status)
      case ZOk
      show ?thesis
      proof (cases "cur_in + k \<ge> length compressed \<and> prod = []")
        case True
        then show ?thesis using return small \<open>r = Inr status\<close> ZOk by (simp add: round)
      next
        case False
        then show ?thesis
          using progress bounds hd call \<open>r = Inr status\<close> ZOk by (simp add: round)
      qed
    next
      case ZBufError
      show ?thesis
      proof (cases "cur_in + k \<ge> length compressed")
        case True
        then show ?thesis using return small \<open>r = Inr status\<close> ZBufError by (simp add: round)
      next
        case False
        show ?thesis
        proof (cases "grow_header_buffer outlen1")
          case (Inl e)
          then show ?thesis
            using return [where r = "Err e"] \<open>r = Inr status\<close> ZBufError \<open>\<not> cur_in + k \<ge> length compressed\<close>
            by (simp add: round)
        next
          case (Inr outlen2)
          then have "outlen1 < outlen2 \<and> outlen2 \<le> MAX_HEADER_BLOCK_SIZE"
            using grow_header_buffer_Ok [OF Inr] hd inv by auto
          then show ?thesis
            using grown [of zd' outlen2 k prod] bounds hd \<open>r = Inr status\<close> ZBufError Inr
              \<open>\<not> cur_in + k \<ge> length compressed\<close>
            by (simp add: round)
        qed
      qed
    next
      case ZStreamEnd
      then show ?thesis using return small \<open>r = Inr status\<close> by (simp add: round)
    qed
  qed
qed

definition decompress_init :: "('zc, 'zd) spdy_codec \<Rightarrow> byte list \<Rightarrow> 'zd decompress_state" where
  "decompress_init c compressed =
     (decompressor c, dict_set_decompress c,
      min (length compressed * 4 + 1024) MAX_HEADER_BLOCK_SIZE, 0, [])"

lemma decompress_inv_init: "decompress_inv compressed (decompress_init c compressed)"
  by (simp add: decompress_init_def MAX_HEADER_BLOCK_SIZE_def)

lemma decompress_inv_keep:
  assumes "z_bounded z" "decompress_inv compressed st" "decompress_round z compressed st = Inr st'"
  shows "decompress_inv compressed st'"
proof -
  obtain zd ds outlen cur_in out where st: "st = (zd, ds, outlen, cur_in, out)"
    by (metis prod_cases5)
  show ?thesis
    by (rule decompress_round_cases [OF assms(1) assms(2) [unfolded st]])
      (use assms(2,3) st in auto)
qed

lemma decompress_inv_exit:
  assumes "z_bounded z" "decompress_inv compressed st" "decompress_round z compressed st = Inl res"
  shows "bounded_result (snd (snd res))"
proof -
  obtain zd ds outlen cur_in out where st: "st = (zd, ds, outlen, cur_in, out)"
    by (metis prod_cases5)
  show ?thesis
    by (rule decompress_round_cases [OF assms(1) assms(2) [unfolded st]])
      (use assms(2,3) st in auto)
qed

lemma decompress_headers_ceiling:
  assumes "z_bounded z" and "decompress_headers z c compressed = Some (c', Ok hs)"
  shows "length hs \<le> (MAX_HEADER_BLOCK_SIZE - 4) div 8"
proof (cases "compressed = []")
  case True
  then show ?thesis using assms by (simp add: decompress_headers_def)
next
  case False
  then obtain zd d where ret: "run_loop (decompress_round z compressed) (decompress_init c compressed)
      = Some (zd, d, Ok hs)"
    using assms by (auto simp: decompress_headers_def decompress_init_def)
  have "bounded_result (snd (snd (zd, d, Ok hs)))"
    using run_loop_rule [OF ret, of "decompress_inv compressed" "\<lambda>res. bounded_result (snd (snd res))"]
      decompress_inv_init decompress_inv_keep [OF assms(1)] decompress_inv_exit [OF assms(1)]
    by blast
  then obtain out where "length out \<le> MAX_HEADER_BLOCK_SIZE" "parse_header_block out = Ok hs"
    by (auto simp: bounded_result_def)
  then have "length hs \<le> (length out - 4) div 8" "length out \<le> MAX_HEADER_BLOCK_SIZE"
    by (auto dest: parse_header_block_count)
  then show ?thesis
    by (meson diff_le_mono div_le_mono le_trans)
qed

section \<open>The decompressor loop returns\<close>

text \<open>
  A round that goes on either consumes or produces bytes, or grows the buffer, or sets the
  dictionary, which happens once.
\<close>

fun decompress_rank :: "byte list \<Rightarrow> 'zd decompress_state \<Rightarrow> nat \<times> nat \<times> nat" where
  "decompress_rank compressed (zd, dict_set, outlen, cur_in, out) =
     (if dict_set then 0 else 1,
      (length compressed - cur_in) + (MAX_HEADER_BLOCK_SIZE - length out),
      MAX_HEADER_BLOCK_SIZE - outlen)"

definition decompress_rel :: "byte list \<Rightarrow> ('zd decompress_state \<times> 'zd decompress_state) set" where
  "decompress_rel compressed =
     inv_image (less_than <*lex*> less_than <*lex*> less_than) (decompress_rank compressed)"

lemma wf_decompress_rel: "wf (decompress_rel compressed)"
  unfolding decompress_rel_def by (intro wf_inv_image wf_lex_prod wf_less_than)

lemma decompress_round_decreases:
  assumes z: "z_bounded z" "z_progress z" and inv: "decompress_inv compressed st"
    and step: "decompress_round z compressed st = Inr st'"
  shows "(st', st) \<in> decompress_rel compressed"
proof -
  obtain zd ds outlen cur_in out where st: "st = (zd, ds, outlen, cur_in, out)"
    by (metis prod_cases5)
  show ?thesis
  proof (rule decompress_round_cases [OF z(1) inv [unfolded st]])
    fix zd' outlen1 k prod
    assume "decompress_round z compressed (zd, ds, outlen, cur_in, out)
        = Inr (zd', ds, outlen1, cur_in + k, out @ prod)"
      "z_decompress z zd (drop cur_in compressed) (outlen1 - length out) = (zd', k, prod, Ok ZOk)"
      "outlen1 \<le> MAX_HEADER_BLOCK_SIZE" "length (out @ prod) \<le> outlen1"
      "cur_in + k \<le> length compressed"
    note round = this
    have "0 < k \<or> 0 < length prod"
      using z_progressD [OF z(2) round(2)] by simp
    then have "(length compressed - (cur_in + k)) + (MAX_HEADER_BLOCK_SIZE - length (out @ prod))
        < (length compressed - cur_in) + (MAX_HEADER_BLOCK_SIZE - length out)"
      using round(3-5) by (simp only: length_append) linarith
    moreover have "st' = (zd', ds, outlen1, cur_in + k, out @ prod)"
      using step round(1) by (simp add: st)
    ultimately show ?thesis by (simp add: st decompress_rel_def)
  qed (use step st in \<open>auto simp: decompress_rel_def\<close>)
qed

lemma decompress_headers_returns:
  assumes "z_bounded z" "z_progress z"
  shows "\<exists>c' r. decompress_headers z c compressed = Some (c', r)"
proof -
  have "\<exists>res. run_loop (decompress_round z compressed) (decompress_init c compressed) = Some res"
    by (rule run_loop_returns [where I = "decompress_inv compressed", OF wf_decompress_rel decompress_inv_init])
      (fact decompress_inv_keep [OF assms(1)] decompress_round_decreases [OF assms])+
  then show ?thesis
    by (auto simp: decompress_headers_def decompress_init_def)
qed

lemma decode_frame_returns:
  assumes "z_bounded z" "z_progress z"
  shows "\<exists>c' rest r. decode_frame z c buf = Some (c', rest, r)"
proof -
  have "\<exists>c' r. decode_control_frame z c t fl pl = Some (c', r)" for t fl pl
    using decompress_headers_returns [OF assms, of c "drop 10 pl"]
      decompress_headers_returns [OF assms, of c "drop 4 pl"]
    by (auto simp: decode_control_frame_def)
  then obtain c1 r1 where "decode_control_frame z c (u16_from_be (buf ! 2) (buf ! 3)) (hdr_flags buf)
      (take (hdr_payload_len buf) (drop 8 buf)) = Some (c1, r1)"
    by blast
  then show ?thesis by (simp add: decode_frame_def Let_def)
qed

section \<open>Transfer of header lists\<close>

text \<open>
  \<open>zlib_transfers z R\<close>: in states related by \<open>R\<close>, a compressor that gets a block of at most
  \<open>TRANSFER_BLOCK\<close> bytes and 512 bytes of room beyond its length takes all of it in one sync-flushed
  call, has nothing left to emit, and the decompressor turns exactly those bytes back into the block,
  after which the states are related again.  Nothing is asked of longer blocks: DEFLATE stores what it
  cannot compress, with a few bytes for each stored block, so that the room of \<open>compress_headers\<close> is
  enough for a short block and not for every block.  The room of the decompressor is the one that
  \<open>decompress_headers\<close> leaves, more than 256 bytes beyond the block.
\<close>

definition TRANSFER_BLOCK :: nat where
  "TRANSFER_BLOCK = 768"

definition zlib_moves :: "('zc, 'zd) flate2 \<Rightarrow> ('zc \<Rightarrow> 'zd \<Rightarrow> bool) \<Rightarrow> byte list
    \<Rightarrow> nat \<Rightarrow> 'zc \<Rightarrow> 'zc \<Rightarrow> 'zd \<Rightarrow> byte list \<Rightarrow> bool" where
  "zlib_moves z R block n zc zc' zd' zb \<longleftrightarrow>
     z_compress z zc block n = (zc', length block, zb, Ok ZOk) \<and> zb \<noteq> [] \<and> length zb \<le> n \<and>
     (\<forall>k>0. z_compress z zc' [] k = (zc', 0, [], Ok ZBufError)) \<and>
     (\<forall>k>0. z_decompress z zd' [] k = (zd', 0, [], Ok ZBufError)) \<and> R zc' zd'"

definition zlib_transfers :: "('zc, 'zd) flate2 \<Rightarrow> ('zc \<Rightarrow> 'zd \<Rightarrow> bool) \<Rightarrow> bool" where
  "zlib_transfers z R \<longleftrightarrow> (\<forall>zc zd block n. R zc zd \<longrightarrow> block \<noteq> [] \<longrightarrow>
     length block \<le> TRANSFER_BLOCK \<longrightarrow> length block + 512 \<le> n \<longrightarrow>
     (\<exists>zc' zd' zb. zlib_moves z R block n zc zc' zd' zb \<and>
        (\<forall>m>length block + 256. z_decompress z zd zb m = (zd', length zb, block, Ok ZOk))))"

text \<open>
  \<open>zlib_primes z R zc0 zd0\<close>: a fresh pair.  The compressor takes the dictionary before its first
  block; the decompressor stops after \<open>k\<close> bytes of the stream header, asks for the dictionary, and
  then decodes the rest.
\<close>

definition zlib_primes :: "('zc, 'zd) flate2 \<Rightarrow> ('zc \<Rightarrow> 'zd \<Rightarrow> bool) \<Rightarrow> 'zc \<Rightarrow> 'zd \<Rightarrow> bool" where
  "zlib_primes z R zc0 zd0 \<longleftrightarrow> (\<exists>zc. z_compress_dict z zc0 SPDY_DICT = Ok zc \<and>
     (\<forall>block n. block \<noteq> [] \<longrightarrow> length block \<le> TRANSFER_BLOCK \<longrightarrow> length block + 512 \<le> n \<longrightarrow>
       (\<exists>zc' zd' zb k zd1 zd2 msg. zlib_moves z R block n zc zc' zd' zb \<and> k < length zb \<and>
          (\<forall>m>length block + 256. z_decompress z zd0 zb m = (zd1, k, [], Err (ZError True msg))) \<and>
          z_decompress_dict z zd1 SPDY_DICT = Ok zd2 \<and>
          (\<forall>m>length block + 256. z_decompress z zd2 (drop k zb) m = (zd', length zb - k, block, Ok ZOk)))))"

definition codec_sync :: "('zc, 'zd) flate2 \<Rightarrow> ('zc \<Rightarrow> 'zd \<Rightarrow> bool)
    \<Rightarrow> ('zc, 'zd) spdy_codec \<Rightarrow> ('zc, 'zd) spdy_codec \<Rightarrow> bool" where
  "codec_sync z R c d \<longleftrightarrow>
     (dict_set_compress c \<and> dict_set_decompress d \<and> R (compressor c) (decompressor d)) \<or>
     (\<not> dict_set_compress c \<and> \<not> dict_set_decompress d \<and> zlib_primes z R (compressor c) (decompressor d))"

lemma compress_loop_moves:
  assumes "zlib_moves z R block n zc zc' zd' zb"
  shows "run_loop (compress_round z block) (zc, n, 0, []) = Some (zc', Ok zb)"
proof -
  let ?n = "if length zb \<ge> n - 64 then n * 2 else n"
  have "0 < length zb" "length zb \<le> n" using assms by (simp_all add: zlib_moves_def)
  then have "0 < ?n - length zb" by (simp only: zero_less_diff split: if_split) linarith
  then have "run_loop (compress_round z block) (zc', ?n, length block, zb) = Some (zc', Ok zb)"
    using assms by (intro run_loop_return) (simp add: zlib_moves_def compress_round_def)
  moreover have "compress_round z block (zc, n, 0, []) = Inr (zc', ?n, length block, zb)"
    using assms by (simp add: zlib_moves_def compress_round_def)
  ultimately show ?thesis by (simp add: run_loop.simps [of _ "(zc, n, 0, [])"])
qed

lemma decompress_loop_finish:
  assumes "\<And>k. 0 < k \<Longrightarrow> z_decompress z zd' [] k = (zd', 0, [], Ok ZBufError)"
    and "length block + 256 < outlen" "length zb \<le> cur_in"
  shows "run_loop (decompress_round z zb) (zd', ds, outlen, cur_in, block)
    = Some (zd', ds, parse_header_block block)"
proof -
  have "\<not> outlen - 256 \<le> length block" "length block < outlen" using assms(2) by linarith+
  then show ?thesis
    using assms(1,3) by (intro run_loop_return) (simp add: decompress_round_def Let_def)
qed

lemma decompress_loop_transfer:
  assumes "zlib_moves z R block n zc zc' zd' zb"
    and "z_decompress z zd (drop cur_in zb) outlen = (zd', length zb - cur_in, block, Ok ZOk)"
    and "256 < outlen" "length block + 256 < outlen" "block \<noteq> []" "cur_in \<le> length zb"
  shows "run_loop (decompress_round z zb) (zd, ds, outlen, cur_in, [])
    = Some (zd', ds, parse_header_block block)"
proof -
  have "\<not> outlen - 256 \<le> 0" using assms(3) by linarith
  then have "decompress_round z zb (zd, ds, outlen, cur_in, []) = Inr (zd', ds, outlen, length zb, block)"
    using assms by (simp add: decompress_round_def Let_def)
  then show ?thesis
    using decompress_loop_finish [of z zd' block outlen zb "length zb" ds] assms
    by (simp add: zlib_moves_def)
qed

lemma header_block_nonempty [simp]: "header_block hs \<noteq> []"
  by (simp add: header_block_def u32_to_be_def)

text \<open>One header list crosses from a codec to a codec in step with it.\<close>

lemma headers_transfer:
  assumes z: "zlib_transfers z R" and sync: "codec_sync z R c d"
    and hs: "list_all wf_header hs" "length (header_block hs) \<le> 768"
  shows "\<exists>c' d' zb. compress_headers z c hs = Some (c', Ok zb) \<and>
    decompress_headers z d zb = Some (d', Ok (map lower_header hs)) \<and>
    codec_sync z R c' d' \<and> length zb \<le> 1280 \<and> codec_max_frame_size d' = codec_max_frame_size d"
proof -
  let ?b = "header_block hs" and ?n = "length (header_block hs) + 512"
  have "8 * length hs \<le> 768"
    using hs(2) length_header_entries [of hs] by (simp add: header_block_def)
  then have parse: "parse_header_block ?b = Ok (map lower_header hs)"
    by (intro parse_header_block_roundtrip hs(1)) simp
  have out: "256 < min (length zb * 4 + 1024) MAX_HEADER_BLOCK_SIZE"
    "length ?b + 256 < min (length zb * 4 + 1024) MAX_HEADER_BLOCK_SIZE"
    if "zb \<noteq> []" for zb :: "byte list"
  proof -
    have "1 \<le> length zb" using that by (cases zb) auto
    then show "256 < min (length zb * 4 + 1024) MAX_HEADER_BLOCK_SIZE"
      "length ?b + 256 < min (length zb * 4 + 1024) MAX_HEADER_BLOCK_SIZE"
      using hs(2) by (simp_all add: MAX_HEADER_BLOCK_SIZE_def)
  qed
  from sync consider
    (sync) "dict_set_compress c" "dict_set_decompress d" "R (compressor c) (decompressor d)"
    | (fresh) "\<not> dict_set_compress c" "\<not> dict_set_decompress d"
      "zlib_primes z R (compressor c) (decompressor d)"
    by (auto simp: codec_sync_def)
  then show ?thesis
  proof cases
    case sync
    then obtain zc' zd' zb where mv: "zlib_moves z R ?b ?n (compressor c) zc' zd' zb"
      and dec: "\<forall>m>length ?b + 256. z_decompress z (decompressor d) zb m = (zd', length zb, ?b, Ok ZOk)"
      using z [unfolded zlib_transfers_def, rule_format, of "compressor c" "decompressor d" ?b ?n] hs(2)
      by (auto simp: TRANSFER_BLOCK_def)
    then have ne: "zb \<noteq> []" "length zb \<le> 1280" "R zc' zd'"
      using hs(2) by (auto simp: zlib_moves_def)
    show ?thesis
      using sync compress_loop_moves [OF mv] ne parse out(1) [OF ne(1)] out(2) [OF ne(1)]
        decompress_loop_transfer [OF mv, of "decompressor d" 0 _ True] dec
      by (simp add: compress_headers_def decompress_headers_def codec_sync_def Let_def)
  next
    case fresh
    then obtain zc zc' zd' zb k zd1 zd2 msg where dict: "z_compress_dict z (compressor c) SPDY_DICT = Ok zc"
      and mv: "zlib_moves z R ?b ?n zc zc' zd' zb" and k: "k < length zb"
      and ask: "\<forall>m>length ?b + 256. z_decompress z (decompressor d) zb m = (zd1, k, [], Err (ZError True msg))"
      and set: "z_decompress_dict z zd1 SPDY_DICT = Ok zd2"
      and dec: "\<forall>m>length ?b + 256. z_decompress z zd2 (drop k zb) m = (zd', length zb - k, ?b, Ok ZOk)"
      unfolding zlib_primes_def using hs(2) by (metis TRANSFER_BLOCK_def header_block_nonempty order_refl)
    then have ne: "zb \<noteq> []" "length zb \<le> 1280" "R zc' zd'"
      using hs(2) by (auto simp: zlib_moves_def)
    let ?m = "min (length zb * 4 + 1024) MAX_HEADER_BLOCK_SIZE"
    have "z_decompress z (decompressor d) zb ?m = (zd1, k, [], Err (ZError True msg))"
      using ask out(2) [OF ne(1)] by blast
    moreover have "\<not> ?m - 256 \<le> 0" using out(1) [OF ne(1)] by linarith
    ultimately have "decompress_round z zb (decompressor d, False, ?m, 0, []) = Inr (zd2, True, ?m, k, [])"
      using set by (simp add: decompress_round_def Let_def)
    then have "run_loop (decompress_round z zb) (decompressor d, False, ?m, 0, [])
        = Some (zd', True, parse_header_block ?b)"
      using decompress_loop_transfer [OF mv, of zd2 k ?m True] dec k out(1) [OF ne(1)] out(2) [OF ne(1)]
      by simp
    then show ?thesis
      using fresh dict compress_loop_moves [OF mv] ne parse
      by (simp add: compress_headers_def decompress_headers_def codec_sync_def Let_def)
  qed
qed

lemma syn_stream_transfer:
  assumes "zlib_transfers z R" "codec_sync z R c d" "list_all wf_header hs"
    "length (header_block hs) \<le> 768"
  shows "\<exists>c' d' bytes. encode_syn_stream z c sid hs fin = Some (c', Ok bytes) \<and>
    decode_frame z d (bytes @ rest) = Some (d', rest, Ok (Some (SynStream sid (map lower_header hs) fin))) \<and>
    codec_sync z R c' d' \<and> codec_max_frame_size d' = codec_max_frame_size d"
proof -
  obtain c' d' zb where zb: "compress_headers z c hs = Some (c', Ok zb)"
    and dec: "decompress_headers z d zb = Some (d', Ok (map lower_header hs))"
    and sync: "codec_sync z R c' d'" and len: "length zb \<le> 1280"
    and mfs: "codec_max_frame_size d' = codec_max_frame_size d"
    using headers_transfer [OF assms] by blast
  let ?pl = "u32_to_be sid @ u32_to_be 0 @ [push_bit 5 (0 AND 0x07), 0] @ zb"
  let ?w = "flags_len fin (10 + length zb)"
  let ?bytes = "u16_to_be SPDY_VERSION @ u16_to_be SYN_STREAM_TYPE @ u32_to_be ?w @ ?pl"
  have fl: "unat (?w AND 0x00FFFFFF) = 10 + length zb" "ucast (drop_bit 24 ?w) = fin_flag fin"
    using flags_len_payload [of "10 + length zb" fin] flags_len_fin [of "10 + length zb" fin] len
    by simp_all
  have "decode_frame z d (?bytes @ rest) = Some (d', rest, Ok (Some (SynStream sid (map lower_header hs) fin)))"
    using decode_control_at [of ?pl "10 + length zb" ?w z d SYN_STREAM_TYPE rest] len fl dec
    by (simp add: decode_control_frame_def MAX_CONTROL_FRAME_SIZE_def)
  moreover have "encode_syn_stream z c sid hs fin = Some (c', Ok ?bytes)"
    using zb by (simp add: encode_syn_stream_def encode_syn_stream_with_priority_def)
  ultimately show ?thesis using sync mfs by blast
qed

end
