(* ===== verification/Codec_Properties.thy ===== *)
theory Codec_Properties
  imports Codec_Zlib
begin

text \<open>
  The properties of the codec, each with an input at which its hypotheses hold.  The hypotheses on
  flate2 are shown to be satisfiable by \<open>stored\<close>, a stream that copies its input and asks for the
  dictionary once, as a zlib stream with a preset dictionary does.
\<close>

section \<open>A stream that satisfies the hypotheses\<close>

definition stored_compress :: "bool \<Rightarrow> byte list \<Rightarrow> nat \<Rightarrow> bool \<times> nat \<times> byte list \<times> (string, zstatus) result" where
  "stored_compress zc inp n =
     (if inp = [] \<or> n < length inp then (zc, 0, [], Ok ZBufError) else (zc, length inp, inp, Ok ZOk))"

definition stored_decompress :: "bool \<Rightarrow> byte list \<Rightarrow> nat \<Rightarrow> bool \<times> nat \<times> byte list \<times> (zerror, zstatus) result" where
  "stored_decompress zd inp n =
     (if \<not> zd then (zd, 0, [], Err (ZError True ''need dictionary''))
      else if inp = [] \<or> n < length inp then (zd, 0, [], Ok ZBufError) else (zd, length inp, inp, Ok ZOk))"

definition stored :: "(bool, bool) flate2" where
  "stored = \<lparr>z_compress_new = False, z_decompress_new = False,
     z_compress_dict = (\<lambda>zc d. Ok True), z_compress = stored_compress,
     z_decompress_dict = (\<lambda>zd d. Ok True), z_decompress = stored_decompress\<rparr>"

definition stored_rel :: "bool \<Rightarrow> bool \<Rightarrow> bool" where
  "stored_rel zc zd \<longleftrightarrow> zc \<and> zd"

lemma stored_bounded: "z_bounded stored"
  by (auto simp: z_bounded_def stored_def stored_decompress_def split: if_splits)

lemma stored_progress: "z_progress stored"
  by (auto simp: z_progress_def stored_def stored_decompress_def split: if_splits)

lemma stored_transfers: "zlib_transfers stored stored_rel"
  by (auto simp: zlib_transfers_def zlib_moves_def stored_def stored_compress_def stored_decompress_def
      stored_rel_def)

lemma stored_primes: "zlib_primes stored stored_rel False False"
proof -
  have "zlib_moves stored stored_rel block n True True True block \<and>
      (\<forall>m>length block + 256. z_decompress stored False block m = (False, 0, [], Err (ZError True ''need dictionary''))) \<and>
      z_decompress_dict stored False SPDY_DICT = Ok True \<and>
      (\<forall>m>length block + 256. z_decompress stored True (drop 0 block) m = (True, length block - 0, block, Ok ZOk))"
    if "block \<noteq> []" "length block + 512 \<le> n" for block n
    using that by (auto simp: zlib_moves_def stored_def stored_compress_def stored_decompress_def stored_rel_def)
  moreover have "z_compress_dict stored False SPDY_DICT = Ok True" by (simp add: stored_def)
  ultimately show ?thesis unfolding zlib_primes_def
    by (metis length_greater_0_conv)
qed

lemma stored_sync_new:
  "codec_sync stored stored_rel (with_max_frame_size stored m) (with_max_frame_size stored k)"
  using stored_primes by (simp add: codec_sync_def with_max_frame_size_def) (simp add: stored_def)

section \<open>Properties\<close>

text \<open>
  C1.  A DATA frame decodes to what was encoded: the decoder returns the stream identifier (its 31
  bits), the payload and the FIN flag, leaves its own state alone and consumes exactly the frame.
\<close>

theorem codec_data_roundtrip:
  assumes "length payload < 2 ^ 24" "length payload \<le> unat (codec_max_frame_size c)"
  shows "decode_frame z c (encode_data stream_id payload fin @ rest)
    = Some (c, rest, Ok (Some (Data (stream_id AND 0x7FFFFFFF) payload fin)))"
  by (rule decode_encode_data [OF assms])

theorem codec_data_roundtrip_witness:
  "decode_frame stored (with_max_frame_size stored 1048576) (encode_data 5 [1, 2, 3] True @ [9])
    = Some (with_max_frame_size stored 1048576, [9], Ok (Some (Data 5 [1, 2, 3] True)))"
  using codec_data_roundtrip [of "[1, 2, 3]" "with_max_frame_size stored 1048576" stored 5 True "[9]"]
  by (simp add: with_max_frame_size_def)

text \<open>
  C2.  Control frames decode to what was encoded, and the decoder consumes exactly the frame:
  RST_STREAM, PING, GOAWAY and WINDOW_UPDATE with all 32 bits of each field, and SETTINGS with the last
  value of each setting that the decoder knows, entries in order, the 24-bit identifiers read without their
  flag byte.
\<close>

theorem codec_control_roundtrip:
  "decode_frame z c (encode_rst_stream a b @ rest) = Some (c, rest, Ok (Some (RstStream a b))) \<and>
   decode_frame z c (encode_ping a @ rest) = Some (c, rest, Ok (Some (Ping a))) \<and>
   decode_frame z c (encode_goaway a b @ rest) = Some (c, rest, Ok (Some (GoAway a b))) \<and>
   decode_frame z c (encode_window_update a b @ rest) = Some (c, rest, Ok (Some (WindowUpdate a b))) \<and>
   (length entries \<le> 131071 \<longrightarrow>
     decode_frame z c (encode_settings entries @ rest) = Some (c, rest, Ok (Some (settings_frame
       (fold (\<lambda>e. apply_setting (fst e AND 0x00FFFFFF) (snd e)) entries (None, None, None))))))"
  by (simp add: decode_encode_rst decode_encode_ping decode_encode_goaway decode_encode_window_update
      decode_encode_settings)

theorem codec_control_roundtrip_witness:
  "decode_frame stored (with_max_frame_size stored 1024) (encode_settings [(7, 65536), (4, 100)] @ [])
    = Some (with_max_frame_size stored 1024, [], Ok (Some (Settings (Some 65536) (Some 100) None)))"
  using codec_control_roundtrip [of stored "with_max_frame_size stored 1024" 0 0 "[]" "[(7, 65536), (4, 100)]"]
  by (simp add: settings_frame_def apply_setting_def SETTINGS_INITIAL_WINDOW_SIZE_def
      SETTINGS_MAX_CONCURRENT_STREAMS_def)

text \<open>
  C4.  A SYN_STREAM crosses the wire.  Between an encoder and a decoder whose zlib streams are in
  step, fresh or not, a frame whose header block is at most 768 bytes long decodes to the same
  stream, FIN flag and header list with the names lowercased, and afterwards the two are in step
  again, so this holds for any number of such frames.  Of flate2 it is assumed only that blocks of
  that length cross a pair of streams in step, with the room that the codec gives them.
\<close>

theorem codec_syn_stream_transfer:
  assumes "zlib_transfers z R" "codec_sync z R c d" "list_all wf_header headers"
    "length (header_block headers) \<le> 768"
  shows "\<exists>c' d' bytes. encode_syn_stream z c stream_id headers fin = Some (c', Ok bytes) \<and>
    decode_frame z d (bytes @ rest)
      = Some (d', rest, Ok (Some (SynStream stream_id (map lower_header headers) fin))) \<and>
    codec_sync z R c' d'"
  using syn_stream_transfer [OF assms] by blast

theorem codec_syn_stream_transfer_witness:
  "\<exists>c' d' bytes. encode_syn_stream stored (with_max_frame_size stored 1024) 1 [([0x41], [0x62])] False
      = Some (c', Ok bytes) \<and>
    decode_frame stored (with_max_frame_size stored 1024) (bytes @ [])
      = Some (d', [], Ok (Some (SynStream 1 [([0x61], [0x62])] False))) \<and>
    codec_sync stored stored_rel c' d'"
proof -
  have "valid_utf8 [0x41]" "valid_utf8 [0x62]"
    by (simp_all add: valid_utf8.simps utf8_seq_def byte_get_def)
  then have "list_all wf_header [([0x41], [0x62])]" by (simp add: wf_header_def)
  moreover have "length (header_block [([0x41], [0x62])]) \<le> 768" by (simp add: header_block_def)
  ultimately show ?thesis
    using codec_syn_stream_transfer [OF stored_transfers stored_sync_new [of 1024 1024], of "[([0x41], [0x62])]" 1 False "[]"]
    by (simp add: lower_header_def to_ascii_lowercase_def ascii_lower_def)
qed

text \<open>
  C5.  A decoder that is fed by a peer cannot be kept busy or inflated: with a zlib stream that
  reports at most what it was given and makes progress whenever it says \<open>Ok\<close>, decoding the front of any
  buffer returns, and no header block yields more headers than fit in one mebibyte.
\<close>

theorem codec_decode_total_and_bounded:
  assumes "z_bounded z" "z_progress z"
  shows "(\<exists>c' rest r. decode_frame z c buf = Some (c', rest, r)) \<and>
    (\<exists>c' r. decompress_headers z c compressed = Some (c', r) \<and>
       (case r of Inl e \<Rightarrow> True | Inr headers \<Rightarrow> 8 * length headers + 4 \<le> 1048576 \<or> headers = []))"
proof -
  obtain c' r where d: "decompress_headers z c compressed = Some (c', r)"
    using decompress_headers_returns [OF assms] by blast
  have "8 * length headers + 4 \<le> 1048576 \<or> headers = []" if "r = Ok headers" for headers
    using decompress_headers_ceiling [OF assms(1) d [unfolded that]] by (auto simp: MAX_HEADER_BLOCK_SIZE_def)
  then show ?thesis
    using decode_frame_returns [OF assms] d by (auto split: sum.splits)
qed

theorem codec_decode_total_and_bounded_witness:
  "\<exists>c' rest r. decode_frame stored (with_max_frame_size stored 8) [0x80, 3, 0, 2, 0, 0, 0, 6, 0, 0, 0, 1, 7, 7] = Some (c', rest, r)"
  using codec_decode_total_and_bounded [OF stored_bounded stored_progress] by blast

text \<open>
  Decoding does not depend on how the bytes are cut into messages: bytes that arrive later never
  change the answer for a frame that is already complete, and an incomplete frame is left untouched.
\<close>

lemma codec_decode_chunk_independent:
  assumes "decode_frame z c buf = Some (c', rest, r)"
  shows "if r = Ok None then c' = c \<and> rest = buf
    else decode_frame z c (buf @ later) = Some (c', rest @ later, r)"
  using assms decode_frame_None [of z c buf c' rest] decode_frame_append [of z c buf c' rest r later] by auto

end
