(* ===== verification/Commands.thy ===== *)
theory Commands
  imports Errors
begin

text \<open>
  The vocabulary of the multiplexer's tasks: the protocol and scheduling constants
  (\<^verbatim>\<open>mux/mod.rs\<close>), the configuration (\<^verbatim>\<open>mux/config.rs\<close>), and the messages the tasks exchange
  (\<^verbatim>\<open>mux/commands.rs\<close>).  The sending ends of channels inside a message are names: \<open>chan_id\<close> for a
  stream's data channel, \<open>reply_id\<close> for a oneshot, \<open>win_id\<close> for a shared \<open>Arc<SendWindow>\<close>.
\<close>

type_synonym chan_id = nat
type_synonym reply_id = nat
type_synonym win_id = nat

definition FRAME_WORKERS :: nat where "FRAME_WORKERS = 5"
definition WRITE_BATCH_CAP :: nat where "WRITE_BATCH_CAP = 64"
definition RST_STATUS_CANCEL :: u32 where "RST_STATUS_CANCEL = 5"
definition RST_STATUS_FLOW_CONTROL :: u32 where "RST_STATUS_FLOW_CONTROL = 7"
definition RST_STATUS_INVALID_STREAM :: u32 where "RST_STATUS_INVALID_STREAM = 2"
definition RST_STATUS_REFUSED_STREAM :: u32 where "RST_STATUS_REFUSED_STREAM = 3"
definition GOAWAY_STATUS_OK :: u32 where "GOAWAY_STATUS_OK = 0"
definition MAX_STREAM_ID :: u32 where "MAX_STREAM_ID = 0x7FFFFFFF"

definition from_secs :: "nat \<Rightarrow> duration" where
  "from_secs s = s * 1000000000"

record mux_config =
  pool_size :: nat
  cfg_initial_window_size :: u32
  cfg_max_concurrent_streams :: u32
  operating_max_streams :: u32
  cfg_max_frame_size :: u32
  cmd_buffer_size :: nat
  control_buffer_size :: nat
  reg_buffer_size :: nat
  close_reg_buffer_size :: nat
  worker_queue_size :: nat
  cfg_ping_interval :: duration
  cfg_ping_timeout :: duration
  cfg_write_timeout :: duration
  cfg_idle_timeout :: duration
  window_buffer_size :: nat
  stream_data_buffer :: nat
  stream_error_buffer :: nat

definition mux_config_default :: mux_config where
  "mux_config_default =
     \<lparr>pool_size = 1,
      cfg_initial_window_size = 1024 * 1024,
      cfg_max_concurrent_streams = 100,
      operating_max_streams = 64,
      cfg_max_frame_size = 1024 * 1024,
      cmd_buffer_size = 512,
      control_buffer_size = 256,
      reg_buffer_size = 128,
      close_reg_buffer_size = 64,
      worker_queue_size = 128,
      cfg_ping_interval = from_secs 30,
      cfg_ping_timeout = from_secs 30,
      cfg_write_timeout = from_secs 30,
      cfg_idle_timeout = from_secs 120,
      window_buffer_size = 256,
      stream_data_buffer = 64,
      stream_error_buffer = 8\<rparr>"

datatype mux_command =
    OpenStreamPair (error_id: u32) (data_id: u32) (error_headers: "header list") (data_headers: "header list")
  | SendData u32 "byte list" bool
  | SendRawFrame "byte list"
  | CloseStream u32 u32
  | EncodePing u32
  | SendWsPong "byte list"
  | EncodeWindowUpdate u32 u32
  | CmdGoAway u32

datatype stream_registration =
    RegOpen u32 chan_id reply_id win_id
  | RegClose u32
  | SettingsWindowDelta i64
  | RegGoAway u32 u32

record open_state =
  next_stream_id :: u32

text \<open>The worker that owns a stream: \<open>(stream_id % FRAME_WORKERS as u32) as usize\<close>.\<close>

definition shard :: "u32 \<Rightarrow> nat" where
  "shard stream_id = unat (stream_id mod word_of_nat FRAME_WORKERS)"

lemma shard_unat: "shard sid = unat sid mod 5"
  by (simp add: shard_def FRAME_WORKERS_def unat_mod)

lemma shard_less [simp]: "shard sid < FRAME_WORKERS"
  by (simp add: shard_unat FRAME_WORKERS_def)

end
