(* ===== verification/Window.thy ===== *)
theory Window
  imports Prelude
begin

text \<open>
  The send window of a stream or of the session (\<^verbatim>\<open>crates/spdy-mux/src/mux/window.rs\<close>).

  \<open>remaining\<close> is the \<open>AtomicI64\<close>, a 64-bit word read with \<open>sint\<close>; \<open>i64::MIN\<close> is the poison value of a
  closed stream.  The \<open>AtomicWaker\<close> belongs to the futures crate: the model records the calls made
  on it, in order.  Each atomic access of the source is one function on the record, so a theorem
  about a sequence of them covers every interleaving; \<open>consume\<close>, which loads and then compares and
  exchanges, is also modelled as the loop it is, with an arbitrary value in the cell at each access,
  and proved to act at one instant like the atomic \<open>consume\<close>.
\<close>

datatype waker_call = Wake | Register nat

record send_window =
  remaining :: i64
  waker_calls :: "waker_call list"

definition I64_MIN :: i64 where
  "I64_MIN = push_bit 63 1"

definition sw_new :: "u32 \<Rightarrow> send_window" where
  "sw_new initial = \<lparr>remaining = ucast initial, waker_calls = []\<rparr>"

definition available :: "send_window \<Rightarrow> int" where
  "available w = sint (remaining w)"

definition sw_wake :: "send_window \<Rightarrow> send_window" where
  "sw_wake w = w\<lparr>waker_calls := waker_calls w @ [Wake]\<rparr>"

text \<open>\<open>consume\<close> without interference: one round of the loop, whose exchange then succeeds.\<close>

definition consume :: "nat \<Rightarrow> send_window \<Rightarrow> bool \<times> send_window" where
  "consume n w =
     (if remaining w = I64_MIN then (False, w)
      else (True, w\<lparr>remaining := remaining w - word_of_nat n\<rparr>))"

definition replenish :: "u32 \<Rightarrow> send_window \<Rightarrow> send_window" where
  "replenish delta w = sw_wake (w\<lparr>remaining := remaining w + ucast delta\<rparr>)"

definition apply_delta :: "i64 \<Rightarrow> send_window \<Rightarrow> send_window" where
  "apply_delta delta w =
     (let w' = w\<lparr>remaining := remaining w + delta\<rparr>
      in if 0 < sint delta then sw_wake w' else w')"

definition register_waker :: "nat \<Rightarrow> send_window \<Rightarrow> send_window" where
  "register_waker task w = w\<lparr>waker_calls := waker_calls w @ [Register task]\<rparr>"

definition sw_close :: "send_window \<Rightarrow> send_window" where
  "sw_close w = sw_wake (w\<lparr>remaining := I64_MIN\<rparr>)"

definition is_closed :: "send_window \<Rightarrow> bool" where
  "is_closed w \<longleftrightarrow> remaining w = I64_MIN"

section \<open>The compare-and-exchange loop\<close>

text \<open>
  The \<open>k\<close>-th round of the loop loads the cell and then exchanges; between the two accesses other
  threads may store anything.  \<open>cell k = (cur, seen)\<close> is what the load and the exchange of round \<open>k\<close> find.
  The result is the returned bool, the round that returned, and the value the exchange stored.
\<close>

definition consume_round ::
  "nat \<Rightarrow> (nat \<Rightarrow> i64 \<times> i64) \<Rightarrow> nat \<Rightarrow> (bool \<times> nat \<times> i64 option) + nat" where
  "consume_round n cell k =
     (let (cur, seen) = cell k in
      if cur = I64_MIN then Inl (False, k, None)
      else if seen = cur then Inl (True, k, Some (cur - word_of_nat n))
      else Inr (k + 1))"

definition consume_loop :: "nat \<Rightarrow> (nat \<Rightarrow> i64 \<times> i64) \<Rightarrow> (bool \<times> nat \<times> i64 option) option" where
  "consume_loop n cell = run_loop (consume_round n cell) 0"

section \<open>Laws\<close>

lemma sint_I64_MIN: "sint I64_MIN = - (2 ^ 63)"
  by (simp add: I64_MIN_def)

lemma I64_MIN_iff: "w = I64_MIN \<longleftrightarrow> sint w = - (2 ^ 63)"
  by (metis sint_I64_MIN signed_word_eqI)

lemma is_closed_available: "is_closed w \<longleftrightarrow> available w = - (2 ^ 63)"
  by (simp add: is_closed_def available_def I64_MIN_iff)

lemma i64_range: "- (2 ^ 63) \<le> sint (w :: i64)" "sint (w :: i64) < 2 ^ 63"
  using sint_ge [of w] sint_lt [of w] by simp_all

lemma u32_in_i64: "(0 :: int) \<le> x \<Longrightarrow> x < 2 ^ 32 \<Longrightarrow> - (2 ^ 63) \<le> x \<and> x < 2 ^ 63"
  by simp

lemma i64_plus_u32:
  "(0 :: int) \<le> x \<Longrightarrow> x < 2 ^ 32 \<Longrightarrow> - (2 ^ 63) \<le> y \<Longrightarrow> y < 2 ^ 62 \<Longrightarrow>
    - (2 ^ 63) \<le> y + x \<and> y + x < 2 ^ 63"
  by simp

lemma sint_ucast_u32 [simp]: "sint (ucast (d :: u32) :: i64) = uint d"
proof -
  have d: "0 \<le> uint d" "uint d < 2 ^ 32" using uint_lt2p [of d] by simp_all
  then have "take_bit 64 (uint d) = uint d" by (simp add: take_bit_int_eq_self_iff)
  moreover have "signed_take_bit 63 (uint d) = uint d"
    using u32_in_i64 [OF d] unfolding signed_take_bit_int_eq_self_iff by simp
  ultimately show ?thesis by (simp add: sint_uint unsigned_ucast_eq)
qed

lemma sint_word_of_nat: "n < 2 ^ 63 \<Longrightarrow> sint (word_of_nat n :: i64) = int n"
proof -
  assume n: "n < 2 ^ 63"
  then have "take_bit 64 n = n" by (simp add: take_bit_nat_eq_self_iff)
  moreover have "signed_take_bit 63 (int n) = int n"
    using n by (simp add: signed_take_bit_int_eq_self_iff)
  ultimately show ?thesis by (simp add: sint_uint unsigned_of_nat)
qed

lemma sint_add_exact:
  assumes "- (2 ^ 63) \<le> sint a + sint b" "sint a + sint b < 2 ^ 63"
  shows "sint (a + b :: i64) = sint a + sint b"
  using assms by (simp add: sint_word_ariths signed_take_bit_int_eq_self_iff)

lemma sint_sub_exact:
  assumes "- (2 ^ 63) \<le> sint a - sint b" "sint a - sint b < 2 ^ 63"
  shows "sint (a - b :: i64) = sint a - sint b"
  using assms by (simp add: sint_word_ariths signed_take_bit_int_eq_self_iff)

lemma available_new [simp]: "available (sw_new initial) = uint initial"
  by (simp add: available_def sw_new_def)

lemma available_wake [simp]: "available (sw_wake w) = available w"
  by (simp add: available_def sw_wake_def)

lemma available_register [simp]: "available (register_waker t w) = available w"
  by (simp add: available_def register_waker_def)

lemma is_closed_close [simp]: "is_closed (sw_close w)"
  by (simp add: is_closed_def sw_close_def sw_wake_def)

lemma is_closed_register [simp]: "is_closed (register_waker t w) = is_closed w"
  by (simp add: is_closed_def register_waker_def)

lemma consume_closed [simp]: "is_closed w \<Longrightarrow> consume n w = (False, w)"
  by (simp add: is_closed_def consume_def)

text \<open>Below \<open>2 ^ 62\<close> in absolute value the arithmetic of the window is that of the integers.\<close>

lemma available_consume:
  assumes "\<not> is_closed w" "consume n w = (ok, w')" "- (2 ^ 62) \<le> available w" "n < 2 ^ 62"
  shows "ok" "available w' = available w - int n"
proof -
  have n: "sint (word_of_nat n :: i64) = int n"
    using assms(4) by (intro sint_word_of_nat) simp
  show "ok" using assms(1,2) by (auto simp: is_closed_def consume_def)
  have "w' = w\<lparr>remaining := remaining w - word_of_nat n\<rparr>"
    using assms(1,2) by (auto simp: is_closed_def consume_def)
  then show "available w' = available w - int n"
    using sint_sub_exact [of "remaining w" "word_of_nat n"] n assms(3,4) i64_range [of "remaining w"]
    by (simp add: available_def)
qed

lemma available_replenish:
  assumes "available w < 2 ^ 62"
  shows "available (replenish d w) = available w + uint d"
proof -
  have "0 \<le> uint d" "uint d < 2 ^ 32" using uint_lt2p [of d] by simp_all
  from i64_plus_u32 [OF this i64_range(1) assms [unfolded available_def]]
  have "sint (remaining w + ucast d) = sint (remaining w) + sint (ucast d :: i64)"
    by (intro sint_add_exact) simp_all
  then show ?thesis by (simp add: replenish_def available_def sw_wake_def)
qed

lemma available_apply_delta:
  assumes "\<bar>available w\<bar> < 2 ^ 62" "\<bar>sint d\<bar> < 2 ^ 62"
  shows "available (apply_delta d w) = available w + sint d"
  using sint_add_exact [of "remaining w" d] assms
  by (auto simp: apply_delta_def available_def sw_wake_def Let_def abs_if split: if_splits)

text \<open>
  Whatever the other threads store between its accesses, the loop of \<open>consume\<close> acts at the exchange
  of its last round exactly as the atomic \<open>consume\<close> does on the value that is in the cell there.
\<close>

lemma consume_loop_linearises:
  assumes "consume_loop n cell = Some (ok, k, st)"
  shows "(ok \<longrightarrow> fst (cell k) = snd (cell k) \<and>
            consume n (w\<lparr>remaining := snd (cell k)\<rparr>) = (True, w\<lparr>remaining := the st\<rparr>) \<and> st \<noteq> None) \<and>
         (\<not> ok \<longrightarrow> st = None \<and>
            consume n (w\<lparr>remaining := fst (cell k)\<rparr>) = (False, w\<lparr>remaining := fst (cell k)\<rparr>))"
proof -
  have "case (ok, k, st) of (ok, k, st) \<Rightarrow>
      (ok \<longrightarrow> fst (cell k) = snd (cell k) \<and> fst (cell k) \<noteq> I64_MIN \<and> st = Some (snd (cell k) - word_of_nat n)) \<and>
      (\<not> ok \<longrightarrow> st = None \<and> fst (cell k) = I64_MIN)"
    using assms unfolding consume_loop_def
    by (rule run_loop_rule [where I = "\<lambda>_. True"])
      (auto simp: consume_round_def Let_def split: prod.splits if_splits)
  then show ?thesis by (auto simp: consume_def)
qed

text \<open>It returns as soon as one of its rounds is undisturbed.\<close>

lemma consume_loop_returns:
  assumes "fst (cell k) = snd (cell k)"
  shows "\<exists>r. consume_loop n cell = Some r"
  unfolding consume_loop_def
proof (rule run_loop_returns [where I = "\<lambda>j. j \<le> k" and R = "measure (\<lambda>j. k - j)"])
  fix j j' assume "j \<le> k" "consume_round n cell j = Inr j'"
  then have "j' = j + 1" "fst (cell j) \<noteq> snd (cell j)"
    by (auto simp: consume_round_def Let_def split: prod.splits if_splits)
  with assms \<open>j \<le> k\<close> have "j < k" by (metis le_neq_implies_less)
  then show "j' \<le> k" "(j', j) \<in> measure (\<lambda>j. k - j)"
    using \<open>j' = j + 1\<close> by auto
qed auto

end
