(* ===== verification/Credit.thy ===== *)
theory Credit
  imports Prelude
begin

text \<open>
  Receive-side flow control.  The reader (for the session) and every worker (for each stream) keep
  a 64-bit count of the bytes taken since the last WINDOW_UPDATE and give the peer its credit back
  once the count reaches half the initial window.  The locale states what one such account does on
  one DATA frame: \<open>take_bytes c n ok\<close> gets the count, the payload length and whether the WINDOW_UPDATE
  channel accepts, and returns the new count and the delta that was sent, if one was.  The reader's
  and the worker's handlers are instances.
\<close>

locale recv_credit =
  fixes take_bytes :: "u64 \<Rightarrow> u64 \<Rightarrow> bool \<Rightarrow> u64 \<times> u32 option"
    and threshold :: u32
  assumes take_keep: "take_bytes c n ok = (c', None) \<Longrightarrow> c' = c + n"
    and take_send: "take_bytes c n ok = (c', Some d) \<Longrightarrow> c' = 0 \<and> d = ucast (c + n) \<and> ok"
    and take_below: "take_bytes c n True = (c', None) \<Longrightarrow> c' < ucast threshold"
begin

definition sent_credit :: "u32 option \<Rightarrow> nat" where
  "sent_credit r = (case r of None \<Rightarrow> 0 | Some d \<Rightarrow> unat d)"

lemma unat_ucast_mod: "unat (ucast (c :: u64) :: u32) = unat c mod 2 ^ 32"
  by (simp add: unsigned_ucast_eq take_bit_eq_mod)

lemma unat_plus_cong: "unat (a + b :: u64) mod 2 ^ 32 = (unat a + unat b) mod 2 ^ 32"
proof -
  have "unat (a + b) = (unat a + unat b) mod 2 ^ 64" by (simp add: unat_word_ariths)
  moreover have "(2 :: nat) ^ 32 dvd 2 ^ 64" by (simp add: le_imp_power_dvd)
  ultimately show ?thesis by (simp add: mod_mod_cancel)
qed

text \<open>No credit is lost: modulo the 32 bits of a delta, what is returned and what is kept add up.\<close>

lemma take_mod:
  assumes "take_bytes c n ok = (c', r)"
  shows "(sent_credit r + unat c') mod 2 ^ 32 = (unat c + unat n) mod 2 ^ 32"
  using assms unat_plus_cong [of c n]
  by (cases r) (auto dest!: take_keep take_send simp: sent_credit_def unat_ucast_mod)

text \<open>They add up exactly while the bytes outstanding fit in 32 bits.\<close>

lemma take_exact:
  assumes "take_bytes c n ok = (c', r)" "unat c + unat n < 2 ^ 32"
  shows "sent_credit r + unat c' = unat c + unat n"
proof -
  have "unat (c + n) = unat c + unat n" using assms(2) by (simp add: unat_word_ariths)
  then show ?thesis
    using assms by (cases r) (auto dest!: take_keep take_send simp: sent_credit_def unat_ucast_mod)
qed

text \<open>A channel that accepts never leaves as much as half a window with the account.\<close>

lemma take_prompt:
  assumes "take_bytes c n True = (c', r)" "0 < threshold"
  shows "c' < ucast threshold"
proof (cases r)
  case None
  then show ?thesis using assms take_below by simp
next
  case (Some d)
  then have "c' = 0" using assms take_send by simp
  moreover have "unat (ucast threshold :: u64) = unat threshold"
    using unsigned_less [of threshold, where 'a = nat] by (simp add: unsigned_ucast_eq take_bit_nat_eq_self)
  then have "(0 :: u64) < ucast threshold" using assms(2) by (simp add: word_less_nat_alt)
  ultimately show ?thesis by simp
qed

end

end
