(* ===== verification/Reader.thy ===== *)
theory Reader
  imports Codec_Roundtrip Commands Window Credit
begin

text \<open>
  The reader task (\<^verbatim>\<open>crates/spdy-mux/src/mux/reader.rs\<close>): it decodes SPDY frames from WebSocket
  messages, handles the session-level frames, and routes the others to the worker of their shard.

  The record holds the task's local variables and the shared state it writes
  (\<open>ReaderSharedState\<close>).  Channels answer through \<open>route_io\<close>: for the \<open>n\<close>-th frame routed, whether the
  WINDOW_UPDATE channel accepts, and for each worker whether the queue of that worker to which the
  frame leads accepts: its frame queue for the frames of a stream, its registration queue for
  SETTINGS, its close registration queue for GOAWAY.  What these queues refuse is lost, and only what
  they accept is recorded.  Messages for the control channel are recorded as offered.
\<close>

record reader_config =
  rc_initial_window_size :: u32
  rc_idle_timeout :: duration
  rc_ping_timeout :: duration
  rc_max_frame_size :: u32

record ('zc, 'zd) reader_state =
  rd_codec :: "('zc, 'zd) spdy_codec"
  frame_buf :: "byte list"
  waiting_ping_ready :: "reply_id option"
  session_recv_consumed :: u64
  rd_peer_initial_window :: u32
  rd_peer_max_concurrent :: u32
  rd_goaway_received :: bool
  rd_session_window :: send_window
  rd_max_frame_size :: u32
  rd_routed :: nat

datatype reader_effect =
    RFrame nat frame
  | RControl mux_command
  | RWindow mux_command
  | RReg nat stream_registration
  | RCloseReg nat stream_registration
  | RPingReady reply_id

type_synonym worker_room = "nat \<Rightarrow> bool"

type_synonym route_io = "nat \<Rightarrow> bool \<times> worker_room"

section \<open>Routing\<close>

definition session_credit :: "u32 \<Rightarrow> u64 \<Rightarrow> u64 \<Rightarrow> bool \<Rightarrow> u64 \<times> u32 option" where
  "session_credit iws consumed payload_len window_ok =
     (let consumed' = consumed + payload_len in
      if consumed' \<ge> ucast (iws div 2)
      then (let delta = ucast consumed' in if window_ok then (0, Some delta) else (consumed', None))
      else (consumed', None))"

definition session_update :: "u32 option \<Rightarrow> reader_effect list" where
  "session_update upd = (case upd of None \<Rightarrow> [] | Some delta \<Rightarrow> [RWindow (EncodeWindowUpdate 0 delta)])"

definition to_worker :: "u32 \<Rightarrow> frame \<Rightarrow> worker_room \<Rightarrow> reader_effect list" where
  "to_worker stream_id f worker_ok = (if worker_ok (shard stream_id) then [RFrame (shard stream_id) f] else [])"

definition route_data ::
  "u32 \<Rightarrow> u32 \<Rightarrow> byte list \<Rightarrow> bool \<Rightarrow> bool \<Rightarrow> worker_room \<Rightarrow> ('zc, 'zd) reader_state
    \<Rightarrow> ('zc, 'zd) reader_state \<times> reader_effect list" where
  "route_data iws stream_id payload fin window_ok worker_ok st =
     (let (consumed', upd) =
        (if payload \<noteq> [] then session_credit iws (session_recv_consumed st) (word_of_nat (length payload)) window_ok
         else (session_recv_consumed st, None))
      in (st\<lparr>session_recv_consumed := consumed'\<rparr>,
          session_update upd @ to_worker stream_id (Data stream_id payload fin) worker_ok @
          (if worker_ok (shard stream_id) then [] else [RControl (CloseStream stream_id RST_STATUS_FLOW_CONTROL)])))"

definition route_ping :: "u32 \<Rightarrow> ('zc, 'zd) reader_state \<Rightarrow> ('zc, 'zd) reader_state \<times> reader_effect list" where
  "route_ping pid st =
     (case waiting_ping_ready st of
        Some tx \<Rightarrow> (st\<lparr>waiting_ping_ready := None\<rparr>, [RPingReady tx])
      | None \<Rightarrow> (st, if pid mod 2 = 0 then [RControl (EncodePing pid)] else []))"

text \<open>One \<open>try_send\<close> for each worker, its outcome ignored: the workers whose queue has room get the message.\<close>

definition broadcast ::
  "(nat \<Rightarrow> stream_registration \<Rightarrow> reader_effect) \<Rightarrow> stream_registration \<Rightarrow> worker_room \<Rightarrow> reader_effect list" where
  "broadcast chan reg worker_ok = map (\<lambda>k. chan k reg) (filter worker_ok [0..<FRAME_WORKERS])"

text \<open>The three settings, in the order of the code.\<close>

definition route_window_setting ::
  "u32 option \<Rightarrow> worker_room \<Rightarrow> ('zc, 'zd) reader_state \<Rightarrow> ('zc, 'zd) reader_state \<times> reader_effect list" where
  "route_window_setting v worker_ok st =
     (case v of
        None \<Rightarrow> (st, [])
      | Some new_size \<Rightarrow>
          (let delta = (ucast new_size :: i64) - ucast (rd_peer_initial_window st)
           in (st\<lparr>rd_peer_initial_window := new_size\<rparr>,
               if delta \<noteq> 0 then broadcast RReg (SettingsWindowDelta delta) worker_ok else [])))"

definition route_settings ::
  "u32 option \<Rightarrow> u32 option \<Rightarrow> u32 option \<Rightarrow> worker_room \<Rightarrow> ('zc, 'zd) reader_state
    \<Rightarrow> ('zc, 'zd) reader_state \<times> reader_effect list" where
  "route_settings iws mcs mfs worker_ok st =
     (let (st1, effs) = route_window_setting iws worker_ok st;
          st2 = (case mcs of None \<Rightarrow> st1 | Some m \<Rightarrow> st1\<lparr>rd_peer_max_concurrent := m\<rparr>);
          st3 = (case mfs of None \<Rightarrow> st2
                 | Some m \<Rightarrow> st2\<lparr>rd_max_frame_size := m, rd_codec := set_max_frame_size m (rd_codec st2)\<rparr>)
      in (st3, effs))"

definition route_frame ::
  "reader_config \<Rightarrow> frame \<Rightarrow> bool \<Rightarrow> worker_room \<Rightarrow> ('zc, 'zd) reader_state
    \<Rightarrow> ('zc, 'zd) reader_state \<times> reader_effect list" where
  "route_frame cfg f window_ok worker_ok st =
     (case f of
        Data stream_id payload fin \<Rightarrow>
          route_data (rc_initial_window_size cfg) stream_id payload fin window_ok worker_ok st
      | SynReply stream_id headers fin \<Rightarrow> (st, to_worker stream_id f worker_ok)
      | RstStream stream_id status \<Rightarrow> (st, to_worker stream_id f worker_ok)
      | WindowUpdate stream_id delta \<Rightarrow>
          if stream_id = 0 then (st\<lparr>rd_session_window := replenish delta (rd_session_window st)\<rparr>, [])
          else (st, to_worker stream_id f worker_ok)
      | Ping pid \<Rightarrow> route_ping pid st
      | GoAway last_good status \<Rightarrow>
          (st\<lparr>rd_goaway_received := True\<rparr>, broadcast RCloseReg (RegGoAway last_good status) worker_ok)
      | SynStream stream_id headers fin \<Rightarrow> (st, [RControl (CloseStream stream_id RST_STATUS_REFUSED_STREAM)])
      | Settings iws mcs mfs \<Rightarrow> route_settings iws mcs mfs worker_ok st
      | Unknown \<Rightarrow> (st, []))"

section \<open>The buffer loop\<close>

text \<open>
  One round of \<open>while frame_buf.len() >= 8\<close>.  The loop returns the state, the messages, and where it
  was left: at its condition or at an incomplete frame (\<open>NeedMore\<close>), after clearing an incomplete
  oversized frame (\<open>Cleared\<close>), or at a decoding error (\<open>Broken\<close>, the code's \<open>should_break\<close>).
  \<open>Inl None\<close> says that \<open>decode_frame\<close> itself did not return.
\<close>

datatype drain_exit = NeedMore | Cleared | Broken

type_synonym ('zc, 'zd) drain_out = "('zc, 'zd) reader_state \<times> reader_effect list"

definition skip_oversized :: "byte list \<Rightarrow> byte list option" where
  "skip_oversized buf =
     (let total = 8 + hdr_payload_len buf in if length buf \<ge> total then Some (drop total buf) else None)"

definition drain_round ::
  "('zc, 'zd) flate2 \<Rightarrow> reader_config \<Rightarrow> route_io \<Rightarrow> ('zc, 'zd) drain_out
    \<Rightarrow> (('zc, 'zd) drain_out \<times> drain_exit) option + ('zc, 'zd) drain_out" where
  "drain_round z cfg io out =
     (let (st, effs) = out in
      if length (frame_buf st) < 8 then Inl (Some ((st, effs), NeedMore))
      else case decode_frame z (rd_codec st) (frame_buf st) of
        None \<Rightarrow> Inl None
      | Some (c, buf, r) \<Rightarrow>
          (let st1 = st\<lparr>rd_codec := c, frame_buf := buf\<rparr> in
           case r of
             Inr (Some f) \<Rightarrow>
               (let (window_ok, worker_ok) = io (rd_routed st1);
                    (st2, new) = route_frame cfg f window_ok worker_ok (st1\<lparr>rd_routed := rd_routed st1 + 1\<rparr>)
                in Inr (st2, effs @ new))
           | Inr None \<Rightarrow> Inl (Some ((st1, effs), NeedMore))
           | Inl e \<Rightarrow>
               (case e of
                  FrameTooLarge sid n m \<Rightarrow>
                    (let effs' = effs @ [RControl (CloseStream sid RST_STATUS_FLOW_CONTROL)] in
                     case skip_oversized buf of
                       Some rest \<Rightarrow> Inr (st1\<lparr>frame_buf := rest\<rparr>, effs')
                     | None \<Rightarrow> Inl (Some ((st1\<lparr>frame_buf := []\<rparr>, effs'), Cleared)))
                | _ \<Rightarrow> Inl (Some ((st1, effs), Broken)))))"

definition drain_buffer ::
  "('zc, 'zd) flate2 \<Rightarrow> reader_config \<Rightarrow> route_io \<Rightarrow> ('zc, 'zd) reader_state
    \<Rightarrow> (('zc, 'zd) drain_out \<times> drain_exit) option" where
  "drain_buffer z cfg io st = Option.bind (run_loop (drain_round z cfg io) (st, [])) id"

definition receive_binary ::
  "('zc, 'zd) flate2 \<Rightarrow> reader_config \<Rightarrow> route_io \<Rightarrow> byte list \<Rightarrow> ('zc, 'zd) reader_state
    \<Rightarrow> (('zc, 'zd) drain_out \<times> drain_exit) option" where
  "receive_binary z cfg io payload st = drain_buffer z cfg io (st\<lparr>frame_buf := frame_buf st @ payload\<rparr>)"

section \<open>The task\<close>

datatype ws_message = WsBinary "byte list" | WsPing "byte list" | WsClose

text \<open>The timers of \<open>run_reader\<close>; an \<open>Instant\<close> is a number of nanoseconds.\<close>

record idle_state =
  last_frame_time :: nat
  idle_ping_sent :: bool
  idle_probe_sent_at :: "nat option"

definition idle_new :: "nat \<Rightarrow> idle_state" where
  "idle_new now = \<lparr>last_frame_time = now, idle_ping_sent = False, idle_probe_sent_at = None\<rparr>"

definition idle_reset :: "nat \<Rightarrow> idle_state" where
  "idle_reset now = \<lparr>last_frame_time = now, idle_ping_sent = False, idle_probe_sent_at = None\<rparr>"

definition ping_timed_out :: "reader_config \<Rightarrow> nat \<Rightarrow> idle_state \<Rightarrow> bool" where
  "ping_timed_out cfg now i =
     (case idle_probe_sent_at i of None \<Rightarrow> False | Some sent_at \<Rightarrow> now - sent_at \<ge> rc_ping_timeout cfg)"

text \<open>The branch of the \<open>select!\<close> taken, with the time at which it completes.\<close>

datatype reader_event =
    REvCancelled
  | REvIdle nat
  | REvMessage nat "(string, ws_message) result option"

text \<open>Which branches can complete: \<open>sleep(idle_remaining)\<close> is armed only under its precondition.\<close>

definition event_enabled :: "reader_config \<Rightarrow> nat \<Rightarrow> idle_state \<Rightarrow> reader_event \<Rightarrow> bool" where
  "event_enabled cfg now i ev =
     (case ev of
        REvIdle t \<Rightarrow> \<not> idle_ping_sent i \<and> idle_probe_sent_at i = None \<and>
          t \<ge> now + (rc_idle_timeout cfg - (now - last_frame_time i))
      | REvMessage t m \<Rightarrow> t \<ge> now
      | REvCancelled \<Rightarrow> True)"

type_synonym ('zc, 'zd) reader_out = "('zc, 'zd) reader_state \<times> idle_state \<times> reader_effect list"

text \<open>
  One iteration that starts at time \<open>now\<close>: the new state and whether the loop is left.  \<open>None\<close>: a
  decoder call inside it does not return.
\<close>

definition reader_iteration ::
  "('zc, 'zd) flate2 \<Rightarrow> reader_config \<Rightarrow> route_io \<Rightarrow> nat \<Rightarrow> reader_event \<Rightarrow> ('zc, 'zd) reader_out
    \<Rightarrow> (('zc, 'zd) reader_out \<times> bool) option" where
  "reader_iteration z cfg io now ev out =
     (let (st, i, effs) = out in
      if ping_timed_out cfg now i then Some ((st, i, effs), True)
      else case ev of
        REvCancelled \<Rightarrow> Some ((st, i, effs), True)
      | REvIdle t \<Rightarrow>
          Some ((st, i\<lparr>idle_ping_sent := True, idle_probe_sent_at := Some t\<rparr>,
                 effs @ [RControl (EncodePing 0xFFFFFFFD)]), False)
      | REvMessage t m \<Rightarrow>
          (case m of
             Some (Inr (WsBinary payload)) \<Rightarrow>
               map_option (\<lambda>((st', new), ex). ((st', idle_reset t, effs @ new), ex = Broken))
                 (receive_binary z cfg io payload st)
           | Some (Inr (WsPing p)) \<Rightarrow> Some ((st, idle_reset t, effs @ [RControl (SendWsPong p)]), False)
           | Some (Inr WsClose) \<Rightarrow> Some ((st, i, effs), True)
           | None \<Rightarrow> Some ((st, i, effs), True)
           | Some (Inl e) \<Rightarrow> Some ((st, i, effs), True)))"

definition reader_start ::
  "('zc, 'zd) flate2 \<Rightarrow> reader_config \<Rightarrow> reply_id \<Rightarrow> u32 \<Rightarrow> u32 \<Rightarrow> nat \<Rightarrow> ('zc, 'zd) reader_out" where
  "reader_start z cfg ping_ready peer_window mfs now =
     (\<lparr>rd_codec = with_max_frame_size z (rc_max_frame_size cfg), frame_buf = [],
       waiting_ping_ready = Some ping_ready, session_recv_consumed = 0,
       rd_peer_initial_window = peer_window, rd_peer_max_concurrent = 0, rd_goaway_received = False,
       rd_session_window = sw_new (rc_initial_window_size cfg), rd_max_frame_size = mfs, rd_routed = 0\<rparr>,
      idle_new now, [])"

end
