(* ===== verification/Reader_Laws.thy ===== *)
theory Reader_Laws
  imports Reader Codec_Properties
begin

text \<open>
  What the reader guarantees: its buffer loop ends, the frames it routes do not depend on how the
  byte stream is cut into WebSocket messages, every frame goes to the worker of its shard in order,
  and the session's receive window is accounted for exactly.
\<close>

interpretation rcr: recv_credit "session_credit iws" "iws div 2" for iws
  by unfold_locales (auto simp: session_credit_def Let_def split: if_splits)

section \<open>The buffer loop\<close>

lemma route_frame_buf:
  assumes "route_frame cfg f a b st = (st', effs)"
  shows "frame_buf st' = frame_buf st" "rd_routed st' = rd_routed st"
  using assms
  by (auto simp: route_frame_def route_data_def route_ping_def route_settings_def route_window_setting_def
      Let_def split: frame.splits if_splits option.splits prod.splits)

lemma skip_oversized_length: "skip_oversized buf = Some rest \<Longrightarrow> length rest + 8 \<le> length buf"
  by (auto simp: skip_oversized_def Let_def split: if_splits)

lemma skip_oversized_append:
  "8 \<le> length buf \<Longrightarrow> skip_oversized buf = Some rest \<Longrightarrow> skip_oversized (buf @ later) = Some (rest @ later)"
  by (auto simp: skip_oversized_def Let_def split: if_splits)

lemma decode_frame_Err_buf:
  assumes "decode_frame z c buf = Some (c', rest, Err (FrameTooLarge sid n m))" "8 \<le> length buf"
    "hdr_payload_len buf > frame_limit c buf"
  shows "rest = buf"
  using assms by (simp add: decode_frame_def Let_def)

lemma decode_frame_rest_le:
  assumes "decode_frame z c buf = Some (c', rest, r)"
  shows "length rest \<le> length buf"
  using assms by (auto simp: decode_frame_def Let_def split: if_splits)

lemma drain_round_shrinks:
  assumes "drain_round z cfg io (st, effs) = Inr (st', effs')"
  shows "length (frame_buf st') < length (frame_buf st)"
proof -
  have len: "\<not> length (frame_buf st) < 8"
    using assms by (auto simp: drain_round_def Let_def split: if_splits)
  from assms len obtain c buf r where d: "decode_frame z (rd_codec st) (frame_buf st) = Some (c, buf, r)"
    by (auto simp: drain_round_def Let_def split: option.splits)
  show ?thesis
  proof (cases r)
    case (Inr fo)
    then obtain f where f: "fo = Some f" using assms len d by (cases fo) (auto simp: drain_round_def Let_def)
    have "frame_buf st' = buf"
      using assms len d Inr f
      by (auto simp: drain_round_def Let_def split: prod.splits dest!: route_frame_buf(1))
    then show ?thesis using decode_frame_shrinks [of z "rd_codec st" "frame_buf st" c buf f] d Inr f by simp
  next
    case (Inl e)
    then obtain sid n m rest where "e = FrameTooLarge sid n m" "skip_oversized buf = Some rest" "frame_buf st' = rest"
      using assms len d by (cases e) (auto simp: drain_round_def Let_def split: option.splits)
    then show ?thesis using skip_oversized_length decode_frame_rest_le [OF d] by fastforce
  qed
qed

text \<open>The buffer loop ends whenever the decoder does.\<close>

lemma drain_buffer_returns:
  assumes "z_bounded z" "z_progress z"
  shows "\<exists>out ex. drain_buffer z cfg io st = Some (out, ex)"
proof -
  have "\<exists>r. run_loop (drain_round z cfg io) (st, []) = Some r"
    by (rule run_loop_returns [where I = "\<lambda>_. True" and R = "measure (\<lambda>(st, effs). length (frame_buf st))"])
      (auto dest: drain_round_shrinks)
  then obtain r where r: "run_loop (drain_round z cfg io) (st, []) = Some r" by blast
  have "r \<noteq> None"
    using r
  proof (rule run_loop_rule [where I = "\<lambda>_. True" and Q = "\<lambda>r. r \<noteq> None"])
    fix out r assume "drain_round z cfg io out = Inl r"
    moreover obtain st effs where "out = (st, effs)" by force
    moreover obtain c rest res where "decode_frame z (rd_codec st) (frame_buf st) = Some (c, rest, res)"
      using decode_frame_returns [OF assms] by blast
    ultimately show "r \<noteq> None"
      by (auto simp: drain_round_def Let_def split: if_splits sum.splits option.splits spdy_error.splits prod.splits)
  qed simp_all
  then show ?thesis using r by (auto simp: drain_buffer_def)
qed

lemma drain_cleared:
  assumes "drain_buffer z cfg io st = Some ((st', effs), Cleared)"
  shows "frame_buf st' = []"
proof -
  have "run_loop (drain_round z cfg io) (st, []) = Some (Some ((st', effs), Cleared))"
    using assms by (auto simp: drain_buffer_def bind_eq_Some_conv)
  then have "case Some ((st', effs), Cleared) of Some ((s, e), Cleared) \<Rightarrow> frame_buf s = [] | _ \<Rightarrow> True"
  proof (rule run_loop_rule [where I = "\<lambda>_. True"])
    fix out r assume "drain_round z cfg io out = Inl r"
    moreover obtain s e where "out = (s, e)" by force
    ultimately show "case r of Some ((s, e), Cleared) \<Rightarrow> frame_buf s = [] | _ \<Rightarrow> True"
      by (auto simp: drain_round_def Let_def split: if_splits sum.splits option.splits spdy_error.splits prod.splits)
  qed simp_all
  then show ?thesis by simp
qed

section \<open>Chunk independence\<close>

text \<open>The messages so far are carried along unchanged.\<close>

definition with_log :: "reader_effect list \<Rightarrow> ('zc, 'zd) drain_out \<Rightarrow> ('zc, 'zd) drain_out" where
  "with_log e0 out = (fst out, e0 @ snd out)"

definition with_log_exit :: "reader_effect list \<Rightarrow> (('zc, 'zd) drain_out \<times> drain_exit) option
    \<Rightarrow> (('zc, 'zd) drain_out \<times> drain_exit) option" where
  "with_log_exit e0 = map_option (map_prod (with_log e0) id)"

lemma drain_round_log:
  "drain_round z cfg io (with_log e0 out) = map_sum (with_log_exit e0) (with_log e0) (drain_round z cfg io out)"
proof -
  obtain st effs where out: "out = (st, effs)" by force
  show ?thesis
    unfolding out drain_round_def with_log_def with_log_exit_def
    by (auto simp: Let_def split: option.splits prod.splits sum.splits spdy_error.splits)
qed

lemma drain_loop_log:
  assumes "run_loop (drain_round z cfg io) (st, effs) = Some r"
  shows "run_loop (drain_round z cfg io) (st, e0 @ effs) = Some (with_log_exit e0 r)"
  using run_loop_map [OF assms drain_round_log, of e0] by (simp add: with_log_def)

text \<open>Bytes appended to the buffer stay at its end through a round that goes on.\<close>

definition append_buf :: "byte list \<Rightarrow> ('zc, 'zd) reader_state \<Rightarrow> ('zc, 'zd) reader_state" where
  "append_buf later st = st\<lparr>frame_buf := frame_buf st @ later\<rparr>"

lemma append_buf_sel [simp]:
  "rd_codec (append_buf later st) = rd_codec st" "frame_buf (append_buf later st) = frame_buf st @ later"
  "rd_routed (append_buf later st) = rd_routed st"
  by (simp_all add: append_buf_def)

lemma route_frame_append:
  "route_frame cfg f a b (append_buf later st) =
     (case route_frame cfg f a b st of (st', effs) \<Rightarrow> (append_buf later st', effs))"
  by (auto simp: route_frame_def route_data_def route_ping_def route_settings_def route_window_setting_def
      append_buf_def Let_def split: frame.splits option.splits prod.splits)

lemma drain_round_append:
  assumes "drain_round z cfg io (st, effs) = Inr (st', effs')"
  shows "drain_round z cfg io (append_buf later st, effs) = Inr (append_buf later st', effs')"
proof -
  have len: "8 \<le> length (frame_buf st)"
    using assms by (auto simp: drain_round_def Let_def split: if_splits)
  then obtain c buf r where d: "decode_frame z (rd_codec st) (frame_buf st) = Some (c, buf, r)"
    using assms by (auto simp: drain_round_def Let_def split: option.splits)
  then have "r \<noteq> Ok None" using assms len by (auto simp: drain_round_def Let_def)
  note d' = decode_frame_append [OF d this, of later]
  show ?thesis
  proof (cases r)
    case (Inr fo)
    then obtain f where f: "fo = Some f" using \<open>r \<noteq> Ok None\<close> by (cases fo) auto
    let ?st = "st\<lparr>rd_codec := c, frame_buf := buf, rd_routed := Suc (rd_routed st)\<rparr>"
    have st: "(append_buf later st)\<lparr>rd_codec := c, frame_buf := buf @ later, rd_routed := Suc (rd_routed st)\<rparr>
        = append_buf later ?st"
      by (cases st) (simp add: append_buf_def)
    obtain a b where io: "io (rd_routed st) = (a, b)" by force
    obtain st2 new where rf: "route_frame cfg f a b ?st = (st2, new)" by force
    have "st' = st2" "effs' = effs @ new" using assms len d Inr f io rf by (simp_all add: drain_round_def)
    moreover have "drain_round z cfg io (append_buf later st, effs) = Inr (append_buf later st2, effs @ new)"
      using len d' Inr f io st route_frame_append [of cfg f a b later ?st] rf by (simp add: drain_round_def)
    ultimately show ?thesis by simp
  next
    case (Inl e)
    then obtain sid n m rest where e: "e = FrameTooLarge sid n m" "skip_oversized buf = Some rest"
      "st' = st\<lparr>rd_codec := c, frame_buf := rest\<rparr>" "effs' = effs @ [RControl (CloseStream sid RST_STATUS_FLOW_CONTROL)]"
      using assms len d by (cases e) (auto simp: drain_round_def Let_def split: option.splits)
    have "8 \<le> length buf" using e(2) skip_oversized_length by fastforce
    then show ?thesis
      using e len d d' Inl skip_oversized_append [OF _ e(2)] by (simp add: drain_round_def append_buf_def)
  qed
qed

text \<open>A loop that stopped for want of bytes goes on from where it stopped.\<close>

lemma drain_stop_append:
  assumes "drain_round z cfg io (st, effs) = Inl (Some ((st1, effs1), NeedMore))"
  shows "st1 = st" "effs1 = effs"
  using assms decode_frame_None [of z "rd_codec st" "frame_buf st"]
  by (auto simp: drain_round_def Let_def split: if_splits option.splits prod.splits sum.splits spdy_error.splits)

lemma drain_loop_append:
  assumes "run_loop (drain_round z cfg io) (st, effs) = Some (Some ((st1, effs1), NeedMore))"
  shows "run_loop (drain_round z cfg io) (append_buf later st, effs)
    = run_loop (drain_round z cfg io) (append_buf later st1, effs1)"
proof -
  have "r = Some ((st1, effs1), NeedMore) \<longrightarrow> run_loop (drain_round z cfg io) (append_buf later (fst out), snd out)
      = run_loop (drain_round z cfg io) (append_buf later st1, effs1)"
    if "run_loop (drain_round z cfg io) out = Some r" for out r
    using that
  proof (induction rule: run_loop_induct)
    case (return out r)
    then show ?case using drain_stop_append [of z cfg io "fst out" "snd out" st1 effs1] by auto
  next
    case (continue out out' r)
    then show ?case
      using drain_round_append [of z cfg io "fst out" "snd out" "fst out'" "snd out'" later] by simp
  qed
  from this [OF assms] show ?thesis by simp
qed

lemma receive_binary_split:
  assumes "receive_binary z cfg io p1 st = Some ((st1, effs1), NeedMore)"
  shows "receive_binary z cfg io (p1 @ p2) st = with_log_exit effs1 (receive_binary z cfg io p2 st1)
    \<or> receive_binary z cfg io p2 st1 = None"
proof -
  have r1: "run_loop (drain_round z cfg io) (append_buf p1 st, []) = Some (Some ((st1, effs1), NeedMore))"
    using assms by (auto simp: receive_binary_def drain_buffer_def append_buf_def bind_eq_Some_conv)
  have eq: "run_loop (drain_round z cfg io) (append_buf (p1 @ p2) st, [])
      = run_loop (drain_round z cfg io) (append_buf p2 st1, effs1)"
    using drain_loop_append [OF r1, of p2] by (simp add: append_buf_def)
  show ?thesis
  proof (cases "run_loop (drain_round z cfg io) (append_buf p2 st1, [])")
    case None
    then show ?thesis by (simp add: receive_binary_def drain_buffer_def append_buf_def)
  next
    case (Some r)
    from drain_loop_log [OF this, of effs1] eq Some show ?thesis
      by (simp add: receive_binary_def drain_buffer_def append_buf_def)
  qed
qed

text \<open>A sequence of WebSocket messages, up to the first that does not end at an incomplete frame.\<close>

primrec receive_all ::
  "('zc, 'zd) flate2 \<Rightarrow> reader_config \<Rightarrow> route_io \<Rightarrow> byte list list \<Rightarrow> ('zc, 'zd) reader_state
    \<Rightarrow> (('zc, 'zd) drain_out \<times> drain_exit) option" where
  "receive_all z cfg io [] st = Some ((st, []), NeedMore)"
| "receive_all z cfg io (p # ps) st =
     (case receive_binary z cfg io p st of
        Some ((st1, effs1), NeedMore) \<Rightarrow> with_log_exit effs1 (receive_all z cfg io ps st1)
      | r \<Rightarrow> r)"

lemma with_log_exit_Some:
  "with_log_exit e0 r = Some ((st, effs), ex) \<longleftrightarrow> (\<exists>effs1. r = Some ((st, effs1), ex) \<and> effs = e0 @ effs1)"
  by (cases r) (auto simp: with_log_exit_def with_log_def)

lemma receive_all_concat:
  assumes "receive_all z cfg io (p # ps) st = Some ((st', effs'), NeedMore)"
  shows "receive_binary z cfg io (concat (p # ps)) st = Some ((st', effs'), NeedMore)"
  using assms
proof (induction ps arbitrary: p st effs')
  case Nil
  then show ?case by (auto simp: with_log_exit_Some split: option.splits prod.splits drain_exit.splits)
next
  case (Cons q ps)
  then obtain st1 effs1 effs2 where p: "receive_binary z cfg io p st = Some ((st1, effs1), NeedMore)"
    and rest: "receive_all z cfg io (q # ps) st1 = Some ((st', effs2), NeedMore)" and e: "effs' = effs1 @ effs2"
    by (auto simp: with_log_exit_Some split: option.splits prod.splits drain_exit.splits)
  from Cons.IH [OF rest] have "receive_binary z cfg io (concat (q # ps)) st1 = Some ((st', effs2), NeedMore)" .
  then show ?case using receive_binary_split [OF p, of "concat (q # ps)"] e
    by (simp add: with_log_exit_def with_log_def)
qed

text \<open>
  All the messages, the way \<open>run_reader\<close> goes on: after a message whose oversized tail was cleared the next one
  starts with an empty buffer, after a decoding error none is read.  The exits of the messages that were
  read are listed in order.
\<close>

primrec receive_messages ::
  "('zc, 'zd) flate2 \<Rightarrow> reader_config \<Rightarrow> route_io \<Rightarrow> byte list list \<Rightarrow> ('zc, 'zd) reader_state
    \<Rightarrow> (('zc, 'zd) drain_out \<times> drain_exit list) option" where
  "receive_messages z cfg io [] st = Some ((st, []), [])"
| "receive_messages z cfg io (p # ps) st =
     (case receive_binary z cfg io p st of
        None \<Rightarrow> None
      | Some ((st1, effs1), ex) \<Rightarrow>
          if ex = Broken then Some ((st1, effs1), [ex])
          else map_option (\<lambda>((st2, effs2), exs). ((st2, effs1 @ effs2), ex # exs)) (receive_messages z cfg io ps st1))"

lemma receive_messages_returns:
  assumes "z_bounded z" "z_progress z"
  shows "\<exists>st' effs exs. receive_messages z cfg io msgs st = Some ((st', effs), exs)"
proof (induction msgs arbitrary: st)
  case (Cons p ps)
  obtain st1 effs1 ex where p: "receive_binary z cfg io p st = Some ((st1, effs1), ex)"
    using drain_buffer_returns [OF assms] unfolding receive_binary_def by (metis prod.collapse)
  obtain st2 effs2 exs where "receive_messages z cfg io ps st1 = Some ((st2, effs2), exs)"
    using Cons.IH by blast
  with p show ?case by simp
qed simp

lemma receive_binary_cleared:
  "receive_binary z cfg io p st = Some ((st', effs), Cleared) \<Longrightarrow> frame_buf st' = []"
  unfolding receive_binary_def by (rule drain_cleared)

text \<open>A decoding error is met at the same frame whatever bytes follow it.\<close>

lemma drain_broken_append:
  assumes "drain_round z cfg io (st, effs) = Inl (Some ((st1, effs1), Broken))"
  shows "drain_round z cfg io (append_buf later st, effs) = Inl (Some ((append_buf later st1, effs1), Broken))"
proof -
  have len: "8 \<le> length (frame_buf st)"
    using assms by (auto simp: drain_round_def Let_def split: if_splits)
  then obtain c buf r where d: "decode_frame z (rd_codec st) (frame_buf st) = Some (c, buf, r)"
    using assms by (auto simp: drain_round_def Let_def split: option.splits)
  have "r \<noteq> Ok None" using assms len d by (auto simp: drain_round_def Let_def)
  note d' = decode_frame_append [OF d this, of later]
  obtain e where r: "r = Inl e"
    using assms len d by (auto simp: drain_round_def Let_def split: sum.splits option.splits prod.splits)
  show ?thesis
    using assms len d d' r
    by (cases e) (auto simp: drain_round_def append_buf_def Let_def split: option.splits)
qed

lemma drain_loop_broken:
  assumes "run_loop (drain_round z cfg io) (st, effs) = Some (Some ((st1, effs1), Broken))"
  shows "run_loop (drain_round z cfg io) (append_buf later st, effs) = Some (Some ((append_buf later st1, effs1), Broken))"
proof -
  have "r = Some ((st1, effs1), Broken) \<longrightarrow> run_loop (drain_round z cfg io) (append_buf later (fst out), snd out)
      = Some (Some ((append_buf later st1, effs1), Broken))"
    if "run_loop (drain_round z cfg io) out = Some r" for out r
    using that
  proof (induction rule: run_loop_induct)
    case (return out r)
    then show ?case using drain_broken_append [of z cfg io "fst out" "snd out" st1 effs1 later] by auto
  next
    case (continue out out' r)
    then show ?case
      using drain_round_append [of z cfg io "fst out" "snd out" "fst out'" "snd out'" later] by simp
  qed
  from this [OF assms] show ?thesis by simp
qed

lemma receive_binary_broken:
  assumes "receive_binary z cfg io p1 st = Some ((st1, effs1), Broken)"
  shows "receive_binary z cfg io (p1 @ p2) st = Some ((append_buf p2 st1, effs1), Broken)"
proof -
  have "run_loop (drain_round z cfg io) (append_buf p1 st, []) = Some (Some ((st1, effs1), Broken))"
    using assms by (auto simp: receive_binary_def drain_buffer_def append_buf_def bind_eq_Some_conv)
  from drain_loop_broken [OF this, of p2] show ?thesis
    by (simp add: receive_binary_def drain_buffer_def append_buf_def)
qed

lemma receive_messages_concat:
  assumes "receive_messages z cfg io (p # ps) st = Some ((st', effs), exs)" "Cleared \<notin> set exs"
  shows "\<exists>unread. receive_binary z cfg io (concat (p # ps)) st = Some ((append_buf unread st', effs), last exs) \<and>
    (last exs = NeedMore \<longrightarrow> unread = [])"
  using assms
proof (induction ps arbitrary: p st effs exs)
  case Nil
  then show ?case
    by (intro exI [of _ "[]"]) (auto simp: append_buf_def split: option.splits prod.splits if_splits)
next
  case (Cons q ps)
  obtain st1 effs1 ex where p: "receive_binary z cfg io p st = Some ((st1, effs1), ex)"
    using Cons.prems(1) by (auto split: option.splits)
  show ?case
  proof (cases "ex = Broken")
    case True
    then have e: "st' = st1" "effs = effs1" "exs = [Broken]" using Cons.prems(1) p by simp_all
    then show ?thesis
      using receive_binary_broken [of z cfg io p st st1 effs1 "concat (q # ps)"] p True by auto
  next
    case False
    obtain effs2 exs2 where rest: "receive_messages z cfg io (q # ps) st1 = Some ((st', effs2), exs2)"
      and e: "effs = effs1 @ effs2" "exs = ex # exs2"
      using Cons.prems(1) p False by (auto simp del: receive_messages.simps simp: receive_messages.simps(2) [of z cfg io p])
    have ex: "ex = NeedMore" using False Cons.prems(2) e(2) by (cases ex) auto
    have "exs2 \<noteq> []" using rest by (auto split: option.splits if_splits)
    then have l: "last exs = last exs2" using e(2) by simp
    from Cons.IH [OF rest] Cons.prems(2) e(2) obtain unread where
      u: "receive_binary z cfg io (concat (q # ps)) st1 = Some ((append_buf unread st', effs2), last exs2)"
      "last exs2 = NeedMore \<longrightarrow> unread = []" by auto
    show ?thesis
      using receive_binary_split [of z cfg io p st st1 effs1 "concat (q # ps)"] p ex u l e(1)
      by (auto simp: with_log_exit_def with_log_def)
  qed
qed

section \<open>Routing\<close>

text \<open>Frames that go to a worker, and the stream they belong to.\<close>

fun stream_keyed :: "frame \<Rightarrow> u32 option" where
  "stream_keyed (Data sid p fin) = Some sid"
| "stream_keyed (SynReply sid hs fin) = Some sid"
| "stream_keyed (RstStream sid st) = Some sid"
| "stream_keyed (WindowUpdate sid d) = (if sid = 0 then None else Some sid)"
| "stream_keyed _ = None"

primrec route_all ::
  "reader_config \<Rightarrow> (frame \<times> bool \<times> worker_room) list \<Rightarrow> ('zc, 'zd) reader_state \<Rightarrow> ('zc, 'zd) reader_state \<times> reader_effect list" where
  "route_all cfg [] st = (st, [])"
| "route_all cfg (x # xs) st =
     (let (f, window_ok, worker_ok) = x;
          (st1, effs1) = route_frame cfg f window_ok worker_ok st;
          (st2, effs2) = route_all cfg xs st1
      in (st2, effs1 @ effs2))"

definition worker_queue :: "nat \<Rightarrow> reader_effect list \<Rightarrow> frame list" where
  "worker_queue k effs = concat (map (\<lambda>e. case e of RFrame j f \<Rightarrow> if j = k then [f] else [] | _ \<Rightarrow> []) effs)"

lemma worker_queue_simps [simp]:
  "worker_queue k [] = []" "worker_queue k (xs @ ys) = worker_queue k xs @ worker_queue k ys"
  "worker_queue k (RFrame j f # xs) = (if j = k then [f] else []) @ worker_queue k xs"
  "worker_queue k (RControl c # xs) = worker_queue k xs" "worker_queue k (RWindow c # xs) = worker_queue k xs"
  "worker_queue k (RPingReady r # xs) = worker_queue k xs"
  "worker_queue k (RReg j reg # xs) = worker_queue k xs" "worker_queue k (RCloseReg j reg # xs) = worker_queue k xs"
  by (simp_all add: worker_queue_def)

lemma worker_queue_broadcast [simp]:
  "worker_queue k (broadcast RReg reg ok) = []" "worker_queue k (broadcast RCloseReg reg ok) = []"
  "worker_queue k (session_update upd) = []"
  by (simp_all add: broadcast_def worker_queue_def) (cases upd; simp add: session_update_def)

lemma route_frame_queue:
  assumes "route_frame cfg f window_ok worker_ok st = (st', effs)"
  shows "worker_queue k effs =
    (case stream_keyed f of Some sid \<Rightarrow> if worker_ok k \<and> shard sid = k then [f] else [] | None \<Rightarrow> [])"
  using assms
  by (cases f) (auto simp: route_frame_def route_data_def route_ping_def route_settings_def to_worker_def
      route_window_setting_def Let_def split: if_splits option.splits prod.splits)

definition for_worker :: "nat \<Rightarrow> frame \<times> bool \<times> worker_room \<Rightarrow> bool" where
  "for_worker k x \<longleftrightarrow> (case x of (f, window_ok, worker_ok) \<Rightarrow>
     worker_ok k \<and> (case stream_keyed f of Some sid \<Rightarrow> shard sid = k | None \<Rightarrow> False))"

lemma route_all_queue:
  assumes "route_all cfg xs st = (st', effs)"
  shows "worker_queue k effs = map fst (filter (for_worker k) xs)"
  using assms
  by (induction xs arbitrary: st effs)
    (auto simp: for_worker_def Let_def dest!: route_frame_queue [of cfg _ _ _ _ _ _ k] split: prod.splits option.splits)

section \<open>The session's account\<close>

fun payload_bytes :: "frame \<Rightarrow> nat" where
  "payload_bytes (Data sid p fin) = length p"
| "payload_bytes _ = 0"

definition session_bytes :: "(frame \<times> bool \<times> worker_room) list \<Rightarrow> nat" where
  "session_bytes xs = sum_list (map (\<lambda>x. payload_bytes (fst x)) xs)"

definition session_returned :: "reader_effect list \<Rightarrow> nat" where
  "session_returned effs =
     sum_list (map (\<lambda>e. case e of RWindow (EncodeWindowUpdate s d) \<Rightarrow> if s = 0 then unat d else 0 | _ \<Rightarrow> 0) effs)"

lemma session_returned_simps [simp]:
  "session_returned [] = 0" "session_returned (xs @ ys) = session_returned xs + session_returned ys"
  "session_returned (RFrame j f # xs) = session_returned xs" "session_returned (RControl c # xs) = session_returned xs"
  "session_returned (RPingReady r # xs) = session_returned xs"
  "session_returned (session_update upd) = rcr.sent_credit upd"
  "session_returned (broadcast RReg reg ok) = 0" "session_returned (broadcast RCloseReg reg ok) = 0"
  by (simp_all add: session_returned_def session_update_def rcr.sent_credit_def broadcast_def split: option.splits)

lemma route_frame_account:
  assumes r: "route_frame cfg f window_ok worker_ok st = (st', effs)"
    and small: "unat (session_recv_consumed st) + payload_bytes f < 2 ^ 32"
  shows "session_returned effs + unat (session_recv_consumed st') = unat (session_recv_consumed st) + payload_bytes f"
proof (cases f)
  case (Data sid payload fin)
  show ?thesis
  proof (cases "payload = []")
    case True
    then show ?thesis using r Data by (auto simp: route_frame_def route_data_def to_worker_def rcr.sent_credit_def)
  next
    case False
    have n: "unat (word_of_nat (length payload) :: u64) = length payload"
      using small Data by (simp add: unat_of_nat take_bit_nat_eq_self)
    obtain c' upd where sc: "session_credit (rc_initial_window_size cfg) (session_recv_consumed st)
        (word_of_nat (length payload)) window_ok = (c', upd)" by force
    from rcr.take_exact [OF sc] small Data n
    have "rcr.sent_credit upd + unat c' = unat (session_recv_consumed st) + length payload" by simp
    then show ?thesis using r Data False sc by (auto simp: route_frame_def route_data_def to_worker_def)
  qed
qed (use r in \<open>auto simp: route_frame_def route_ping_def route_settings_def route_window_setting_def
      to_worker_def Let_def split: if_splits option.splits prod.splits\<close>)

lemma route_all_append:
  "route_all cfg (xs @ ys) st =
     (let (st1, e1) = route_all cfg xs st; (st2, e2) = route_all cfg ys st1 in (st2, e1 @ e2))"
  by (induction xs arbitrary: st) (simp_all add: Let_def split: prod.splits)

text \<open>The peer's side: what it has sent never exceeds the session window it was given.\<close>

definition session_within :: "reader_config \<Rightarrow> (frame \<times> bool \<times> worker_room) list \<Rightarrow> ('zc, 'zd) reader_state \<Rightarrow> bool" where
  "session_within cfg xs st \<longleftrightarrow> (\<forall>k<length xs.
     session_bytes (take (Suc k) xs)
       \<le> session_returned (snd (route_all cfg (take k xs) st)) + unat (rc_initial_window_size cfg))"

lemma route_all_account:
  assumes "session_recv_consumed st = 0" "route_all cfg xs st = (st', effs)" "session_within cfg xs st"
  shows "session_returned effs + unat (session_recv_consumed st') = session_bytes xs"
  using assms(2,3)
proof (induction xs arbitrary: st' effs rule: rev_induct)
  case Nil
  then show ?case using assms(1) by (auto simp: session_bytes_def)
next
  case (snoc x xs)
  obtain st1 e1 where r1: "route_all cfg xs st = (st1, e1)" by force
  obtain f a b where x: "x = (f, a, b)" by (metis prod_cases3)
  obtain e2 where r2: "route_frame cfg f a b st1 = (st', e2)" "effs = e1 @ e2"
    using snoc.prems(1) r1 x by (auto simp: route_all_append Let_def split: prod.splits)
  have "session_within cfg xs st"
    unfolding session_within_def
  proof (intro allI impI)
    fix k assume "k < length xs"
    then show "session_bytes (take (Suc k) xs)
        \<le> session_returned (snd (route_all cfg (take k xs) st)) + unat (rc_initial_window_size cfg)"
      using snoc.prems(2) [unfolded session_within_def, rule_format, of k] by simp
  qed
  then have IH: "session_returned e1 + unat (session_recv_consumed st1) = session_bytes xs"
    using snoc.IH [OF r1] by blast
  have "session_bytes xs + payload_bytes f \<le> session_returned e1 + unat (rc_initial_window_size cfg)"
    using snoc.prems(2) [unfolded session_within_def, rule_format, of "length xs"] r1 x
    by (simp add: session_bytes_def)
  moreover have "unat (rc_initial_window_size cfg) < 2 ^ 32"
    using unsigned_less [of "rc_initial_window_size cfg", where 'a = nat] by simp
  ultimately have "unat (session_recv_consumed st1) + payload_bytes f < 2 ^ 32" using IH by linarith
  from route_frame_account [OF r2(1) this] IH show ?case
    using r2(2) x by (simp add: session_bytes_def)
qed

section \<open>Timers\<close>

text \<open>
  Runs of \<open>run_reader\<close>'s loop from time \<open>t0\<close>.  \<open>now\<close> is the time at which the last event completed; the next
  iteration starts less than \<open>lag\<close> after it, and takes an enabled branch.
\<close>

definition event_time :: "nat \<Rightarrow> reader_event \<Rightarrow> nat" where
  "event_time t ev = (case ev of REvCancelled \<Rightarrow> t | REvIdle t' \<Rightarrow> t' | REvMessage t' m \<Rightarrow> t')"

inductive reader_run :: "('zc, 'zd) flate2 \<Rightarrow> reader_config \<Rightarrow> route_io \<Rightarrow> nat \<Rightarrow> ('zc, 'zd) reader_out \<Rightarrow> nat \<Rightarrow> nat
    \<Rightarrow> ('zc, 'zd) reader_out \<Rightarrow> bool" for z cfg io lag out0 t0 where
  start: "reader_run z cfg io lag out0 t0 t0 out0"
| iterate: "reader_run z cfg io lag out0 t0 now out \<Longrightarrow> now \<le> t \<Longrightarrow> t < now + lag \<Longrightarrow>
    event_enabled cfg t (fst (snd out)) ev \<Longrightarrow> reader_iteration z cfg io t ev out = Some (out', False) \<Longrightarrow>
    reader_run z cfg io lag out0 t0 (event_time t ev) out'"

text \<open>An outstanding probe was sent by the last event.\<close>

definition probe_fresh :: "nat \<Rightarrow> idle_state \<Rightarrow> bool" where
  "probe_fresh now i \<longleftrightarrow> (idle_ping_sent i \<longleftrightarrow> idle_probe_sent_at i \<noteq> None) \<and>
     (idle_probe_sent_at i = None \<or> idle_probe_sent_at i = Some now)"

lemma reader_iteration_probe:
  assumes "reader_iteration z cfg io t ev out = Some (out', False)" "event_enabled cfg t (fst (snd out)) ev"
    "probe_fresh now (fst (snd out))"
  shows "probe_fresh (event_time t ev) (fst (snd out'))"
  using assms
  by (auto simp: reader_iteration_def probe_fresh_def idle_reset_def event_enabled_def event_time_def Let_def
      split: if_splits reader_event.splits option.splits sum.splits ws_message.splits prod.splits)

lemma reader_run_probe:
  assumes "reader_run z cfg io lag out0 t0 now out" "probe_fresh t0 (fst (snd out0))"
  shows "probe_fresh now (fst (snd out))"
  using assms by (induction rule: reader_run.induct) (auto intro: reader_iteration_probe)

lemma reader_iteration_exit:
  assumes "reader_iteration z cfg io t ev (st, i, effs) = Some (out', True)" "\<not> ping_timed_out cfg t i"
  shows "ev = REvCancelled \<or> (\<exists>t' m. ev = REvMessage t' m \<and> (m = None \<or> m = Some (Ok WsClose) \<or> (\<exists>e. m = Some (Err e)) \<or>
    (\<exists>p out. m = Some (Ok (WsBinary p)) \<and> receive_binary z cfg io p st = Some (out, Broken))))"
  using assms
  by (auto simp: reader_iteration_def split: reader_event.splits option.splits sum.splits ws_message.splits)

section \<open>An example\<close>

definition example_config :: reader_config where
  "example_config = \<lparr>rc_initial_window_size = 4, rc_idle_timeout = 120, rc_ping_timeout = 30, rc_max_frame_size = 1024\<rparr>"

definition example_state :: "(bool, bool) reader_state" where
  "example_state = fst (reader_start stored example_config 0 4 1024 0)"

lemma run_drain_short:
  "length (frame_buf st) < 8 \<Longrightarrow> run_loop (drain_round z cfg io) (st, effs) = Some (Some ((st, effs), NeedMore))"
  by (simp add: drain_round_def)

lemma example_half: "receive_binary stored example_config io (take 4 (encode_ping 2)) example_state
    = Some ((example_state\<lparr>frame_buf := take 4 (encode_ping 2)\<rparr>, []), NeedMore)"
  using run_drain_short [of "example_state\<lparr>frame_buf := take 4 (encode_ping 2)\<rparr>" stored example_config io "[]"]
  by (simp add: receive_binary_def drain_buffer_def example_state_def reader_start_def)

lemma example_rest: "receive_binary stored example_config io (drop 4 (encode_ping 2))
      (example_state\<lparr>frame_buf := take 4 (encode_ping 2)\<rparr>)
    = Some ((example_state\<lparr>waiting_ping_ready := None, rd_routed := 1\<rparr>, [RPingReady 0]), NeedMore)"
proof -
  let ?st = "example_state\<lparr>frame_buf := encode_ping 2\<rparr>"
  have "length (encode_ping 2) = 12" by (simp add: encode_ping_def)
  then have "drain_round stored example_config io (?st, [])
      = Inr (example_state\<lparr>waiting_ping_ready := None, rd_routed := 1\<rparr>, [RPingReady 0])"
    using decode_encode_ping [of stored "rd_codec example_state" 2 "[]"]
    by (simp add: drain_round_def Let_def route_frame_def route_ping_def example_state_def reader_start_def split: prod.splits)
  moreover have "run_loop (drain_round stored example_config io) (example_state\<lparr>waiting_ping_ready := None, rd_routed := 1\<rparr>, [RPingReady 0])
      = Some (Some ((example_state\<lparr>waiting_ping_ready := None, rd_routed := 1\<rparr>, [RPingReady 0]), NeedMore))"
    by (rule run_drain_short) (simp add: example_state_def reader_start_def)
  ultimately show ?thesis
    by (simp add: receive_binary_def drain_buffer_def)
qed

section \<open>Properties\<close>

text \<open>
  C13.  The reader is indifferent to WebSocket message boundaries, oversized frames apart, and no message
  keeps it busy for ever.  With a zlib stream that reports its progress truthfully, every sequence of
  messages is processed in finitely many rounds, whatever bytes it holds.  If no message of it ends in the
  middle of a frame that the decoder rejects as too large (\<open>Cleared\<close>), then receiving the same bytes
  as a single message routes the same frames, in the same order, and stops in the same way: for want
  of bytes, in the same state, or at the same undecodable frame, with the bytes behind it still unread.
  A message that does end so empties the buffer, and the next one is decoded from its first byte.
\<close>

theorem reader_chunk_independent:
  assumes "z_bounded z" "z_progress z"
  shows "(\<exists>st' effs exs. receive_messages z cfg io msgs st = Some ((st', effs), exs)) \<and>
    (receive_messages z cfg io (p # ps) st = Some ((st', effs), exs) \<and> Cleared \<notin> set exs \<longrightarrow>
      (\<exists>unread. receive_binary z cfg io (concat (p # ps)) st
          = Some ((st'\<lparr>frame_buf := frame_buf st' @ unread\<rparr>, effs), last exs) \<and>
        (last exs = NeedMore \<longrightarrow> unread = []))) \<and>
    (receive_binary z cfg io p st = Some ((st', effs), Cleared) \<longrightarrow> frame_buf st' = [])"
  using receive_messages_returns [OF assms] receive_messages_concat [of z cfg io p ps st st' effs exs]
    receive_binary_cleared [of z cfg io p st st' effs]
  unfolding append_buf_def by blast

theorem reader_chunk_independent_witness:
  "receive_binary stored example_config (\<lambda>_. (True, \<lambda>_. True)) (concat [take 4 (encode_ping 2), drop 4 (encode_ping 2)]) example_state
    = Some ((example_state\<lparr>waiting_ping_ready := None, rd_routed := 1\<rparr>, [RPingReady 0]), NeedMore)"
proof -
  let ?st' = "example_state\<lparr>waiting_ping_ready := None, rd_routed := 1\<rparr>" and ?io = "\<lambda>_. (True, \<lambda>_. True)"
  have "receive_messages stored example_config ?io [take 4 (encode_ping 2), drop 4 (encode_ping 2)] example_state
      = Some ((?st', [RPingReady 0]), [NeedMore, NeedMore])"
    by (simp add: example_half example_rest)
  with reader_chunk_independent [OF stored_bounded stored_progress, where p = "take 4 (encode_ping 2)"
      and ps = "[drop 4 (encode_ping 2)]" and st' = ?st' and exs = "[NeedMore, NeedMore]" and io = ?io
      and cfg = example_config and st = example_state and effs = "[RPingReady 0]"]
  show ?thesis by auto
qed

text \<open>
  The exception is real: a DATA frame that is too large, whose payload looks like a PING frame, is
  skipped when it arrives in one message; cut after its header, its payload is taken for a PING.
\<close>

lemma oversized_bytes:
  "encode_data 1 (encode_ping 2) False = [0, 0, 0, 1, 0, 0, 0, 12] @ encode_ping 2" "length (encode_ping 2) = 12"
  by (simp_all add: encode_data_def encode_ping_def u32_to_be_def flags_len_def fin_flag_def)

lemma oversized_header:
  assumes "codec_max_frame_size c = 4"
  shows "decode_frame z c ([0, 0, 0, 1, 0, 0, 0, 12] @ rest) =
      Some (c, [0, 0, 0, 1, 0, 0, 0, 12] @ rest, Err (FrameTooLarge 1 12 4))"
    and "hdr_payload_len ([0, 0, 0, 1, 0, 0, 0, 12] @ rest) = 12"
  using assms by (simp_all add: decode_frame_def hdr_payload_len_def hdr_stream_id_def frame_limit_def hdr_is_control_def
      u32_at_def u32_from_be_def u16_from_be_def)

lemma oversized_cut_matters:
  defines "b \<equiv> encode_data 1 (encode_ping 2) False"
    and "st \<equiv> example_state\<lparr>rd_codec := with_max_frame_size stored 4\<rparr>"
  shows "map_option (snd \<circ> fst) (receive_binary stored example_config io b st)
      = Some [RControl (CloseStream 1 RST_STATUS_FLOW_CONTROL)]"
    and "map_option (snd \<circ> fst) (receive_messages stored example_config io [take 8 b, drop 8 b] st)
      = Some [RControl (CloseStream 1 RST_STATUS_FLOW_CONTROL), RPingReady 0]"
proof -
  let ?h = "[0, 0, 0, 1, 0, 0, 0, 12] :: byte list" and ?p = "encode_ping 2"
  let ?close = "RControl (CloseStream 1 RST_STATUS_FLOW_CONTROL)"
  have c: "codec_max_frame_size (rd_codec st) = 4" and buf: "frame_buf st = []"
    by (simp_all add: st_def example_state_def reader_start_def with_max_frame_size_def)
  note hdr = oversized_header [OF c]
  have "drain_round stored example_config io (st\<lparr>frame_buf := ?h @ ?p\<rparr>, []) = Inr (st, [?close])"
    using hdr(1) [of stored ?p] hdr(2) [of ?p] buf oversized_bytes(2)
    by (cases st) (simp add: drain_round_def skip_oversized_def)
  then show "map_option (snd \<circ> fst) (receive_binary stored example_config io b st) = Some [?close]"
    using buf by (simp add: b_def oversized_bytes receive_binary_def drain_buffer_def run_drain_short)
  have "drain_round stored example_config io (st\<lparr>frame_buf := ?h\<rparr>, []) = Inl (Some ((st, [?close]), Cleared))"
    using hdr(1) [of stored "[]"] hdr(2) [of "[]"] buf by (cases st) (simp add: drain_round_def skip_oversized_def)
  then have h: "receive_binary stored example_config io ?h st = Some ((st, [?close]), Cleared)"
    using buf by (simp add: receive_binary_def drain_buffer_def)
  have "drain_round stored example_config io (st\<lparr>frame_buf := ?p\<rparr>, [])
      = Inr (st\<lparr>waiting_ping_ready := None, rd_routed := 1\<rparr>, [RPingReady 0])"
    using decode_encode_ping [of stored "rd_codec st" 2 "[]"] oversized_bytes(2)
    by (simp add: drain_round_def Let_def route_frame_def route_ping_def st_def example_state_def reader_start_def
        split: prod.splits)
  then have "receive_binary stored example_config io ?p st
      = Some ((st\<lparr>waiting_ping_ready := None, rd_routed := 1\<rparr>, [RPingReady 0]), NeedMore)"
    using buf by (simp add: receive_binary_def drain_buffer_def run_drain_short)
  with h show "map_option (snd \<circ> fst) (receive_messages stored example_config io [take 8 b, drop 8 b] st)
      = Some [?close, RPingReady 0]"
    by (simp add: b_def oversized_bytes(1))
qed

text \<open>
  C15.  Each worker's queue receives exactly the frames of its shard that it had room for, in the
  order in which they arrived; no frame reaches another worker, and session-level frames reach none.
\<close>

theorem reader_routes_in_order:
  assumes "route_all cfg xs st = (st', effs)"
  shows "worker_queue k effs = map fst (filter (for_worker k) xs)"
  by (rule route_all_queue [OF assms])

lemma route_example:
  "route_all example_config [(Data 6 [1, 2, 3] False, True, \<lambda>_. True), (Ping 2, True, \<lambda>_. True), (Data 1 [4] True, False, \<lambda>_. True)]
     example_state
   = (example_state\<lparr>session_recv_consumed := 1, waiting_ping_ready := None\<rparr>,
      [RWindow (EncodeWindowUpdate 0 3), RFrame 1 (Data 6 [1, 2, 3] False), RPingReady 0, RFrame 1 (Data 1 [4] True)])"
  by (simp add: route_frame_def route_data_def route_ping_def session_credit_def session_update_def to_worker_def
      shard_unat example_config_def example_state_def reader_start_def)

theorem reader_routes_in_order_witness:
  "worker_queue 1 [RWindow (EncodeWindowUpdate 0 3), RFrame 1 (Data 6 [1, 2, 3] False), RPingReady 0, RFrame 1 (Data 1 [4] True)]
    = [Data 6 [1, 2, 3] False, Data 1 [4] True]"
  using reader_routes_in_order [OF route_example, of 1] by (simp add: for_worker_def shard_unat)

text \<open>
  C16.  Session flow control is exact.  Whichever WINDOW_UPDATEs the writer's channel refuses, as long
  as the peer respects the session window, the DATA bytes received are the credit returned on
  stream 0 plus the count \<open>session_recv_consumed\<close>: none is lost, the drift that would stall the peer.
\<close>

theorem reader_session_credit_exact:
  assumes "session_recv_consumed st = 0" "route_all cfg xs st = (st', effs)" "session_within cfg xs st"
  shows "session_returned effs + unat (session_recv_consumed st') = session_bytes xs"
  by (rule route_all_account [OF assms])

lemma route_example_prefix:
  "route_all example_config [(Data 6 [1, 2, 3] False, True, \<lambda>_. True)] example_state
   = (example_state\<lparr>session_recv_consumed := 0\<rparr>, [RWindow (EncodeWindowUpdate 0 3), RFrame 1 (Data 6 [1, 2, 3] False)])"
  by (simp add: route_frame_def route_data_def session_credit_def session_update_def to_worker_def
      shard_unat example_config_def example_state_def reader_start_def)

theorem reader_session_credit_exact_witness:
  "session_returned [RWindow (EncodeWindowUpdate 0 3), RFrame 1 (Data 6 [1, 2, 3] False)] + 0
    = session_bytes [(Data 6 [1, 2, 3] False, True, \<lambda>_. True)]"
proof -
  have "session_within example_config [(Data 6 [1, 2, 3] False, True, \<lambda>_. True)] example_state"
    by (simp add: session_within_def session_bytes_def example_config_def)
  moreover have "session_recv_consumed example_state = 0" by (simp add: example_state_def reader_start_def)
  ultimately show ?thesis using reader_session_credit_exact [OF _ route_example_prefix] by simp
qed

text \<open>
  C17.  The ping timeout never fires.  Whatever messages and timers the reader has seen, as long as it
  comes back to the head of its loop within \<open>ping_timeout\<close> of the event it handled, the check for an
  expired probe fails each time it is made: a probe PING is outstanding only in the iteration that
  follows its own timer, since then no timer is armed and every message that does not end the loop
  clears it, a binary message as well as a ping.  So the loop is left only by cancellation, by the end or
  an error of the WebSocket, or by a frame that cannot be decoded: a peer that falls silent after the
  probe is never given up.
\<close>

theorem reader_ping_timeout_never_fires:
  assumes "reader_run z cfg io (rc_ping_timeout cfg) (reader_start z cfg ready w m t0) t0 now (st, i, effs)"
    and "now \<le> t" "t < now + rc_ping_timeout cfg"
  shows "\<not> ping_timed_out cfg t i \<and> (idle_probe_sent_at i = None \<or> idle_probe_sent_at i = Some now) \<and>
    (event_enabled cfg t i ev \<and> reader_iteration z cfg io t ev (st, i, effs) = Some (out', True) \<longrightarrow>
      ev = REvCancelled \<or> (\<exists>t' m. ev = REvMessage t' m \<and> (m = None \<or> m = Some (Ok WsClose) \<or> (\<exists>e. m = Some (Err e)) \<or>
        (\<exists>p out. m = Some (Ok (WsBinary p)) \<and> receive_binary z cfg io p st = Some (out, Broken)))))"
proof -
  have inv: "probe_fresh now i"
    using reader_run_probe [OF assms(1)] by (simp add: reader_start_def probe_fresh_def idle_new_def)
  then have no: "\<not> ping_timed_out cfg t i"
    using assms(2,3) by (auto simp: ping_timed_out_def probe_fresh_def split: option.splits)
  then show ?thesis
    using inv by (auto simp: probe_fresh_def dest: reader_iteration_exit)
qed

theorem reader_ping_timeout_never_fires_witness:
  "\<exists>out. reader_run stored example_config (\<lambda>_. (True, \<lambda>_. True)) 30 (reader_start stored example_config 0 4 1024 0) 0 120 out \<and>
    idle_probe_sent_at (fst (snd out)) = Some 120 \<and> \<not> ping_timed_out example_config 149 (fst (snd out))"
proof -
  let ?s = "reader_start stored example_config 0 4 1024 0"
  let ?out = "(fst ?s, \<lparr>last_frame_time = 0, idle_ping_sent = True, idle_probe_sent_at = Some 120\<rparr>,
      [RControl (EncodePing 0xFFFFFFFD)])"
  have "reader_run stored example_config (\<lambda>_. (True, \<lambda>_. True)) (rc_ping_timeout example_config) ?s 0
      (event_time 0 (REvIdle 120)) ?out"
    by (rule reader_run.iterate [where now = 0, OF reader_run.start])
      (simp_all add: event_enabled_def reader_iteration_def ping_timed_out_def reader_start_def idle_new_def
        example_config_def)
  then have r: "reader_run stored example_config (\<lambda>_. (True, \<lambda>_. True)) (rc_ping_timeout example_config) ?s 0 120 ?out"
    by (simp add: event_time_def)
  with reader_ping_timeout_never_fires [OF r, of 149]
  have "\<not> ping_timed_out example_config 149 (fst (snd ?out))" by (simp add: example_config_def)
  with r show ?thesis by (intro exI [of _ ?out]) (simp add: example_config_def)
qed

end
