(* ===== verification/Worker.thy ===== *)
theory Worker
  imports Codec Commands Window Credit
begin

text \<open>
  The frame workers (\<^verbatim>\<open>crates/spdy-mux/src/mux/worker.rs\<close>).  A worker owns the streams of its shard.
  \<open>HashMap\<close>s are association lists with distinct keys: the code only looks up, inserts, removes and
  iterates in an unspecified order.  The send windows are shared with the streams' writers, so they
  live in a store \<open>win_id \<Rightarrow> send_window\<close>, and a stream holds the name of its window.

  A handler gets the outcomes of the two \<open>try_send\<close>s it inspects (on the stream's data channel and
  on the WINDOW_UPDATE channel) and returns the messages handed over: payloads accepted by a data
  channel, commands offered to the control channel (the code ignores that outcome), WINDOW_UPDATEs
  accepted by the window channel, and replies.
\<close>

record stream_state =
  data_tx :: "chan_id option"
  st_window :: win_id
  consumed_since_update :: u64

record worker =
  streams :: "(u32 \<times> stream_state) list"
  pending_replies :: "(u32 \<times> reply_id) list"

type_synonym windows = "win_id \<Rightarrow> send_window"

datatype worker_effect =
    Deliver u32 chan_id "byte list"
  | ToControl mux_command
  | ToWindow mux_command
  | Reply reply_id "(spdy_error, unit) result"

type_synonym worker_out = "worker \<times> windows \<times> worker_effect list"

definition worker_new :: worker where
  "worker_new = \<lparr>streams = [], pending_replies = []\<rparr>"

definition close_window :: "win_id \<Rightarrow> windows \<Rightarrow> windows" where
  "close_window win wins = wins(win := sw_close (wins win))"

section \<open>Frames\<close>

text \<open>The account of delivered bytes: new count, and the delta accepted by the window channel.\<close>

definition stream_credit :: "u32 \<Rightarrow> u64 \<Rightarrow> u64 \<Rightarrow> bool \<Rightarrow> u64 \<times> u32 option" where
  "stream_credit iws consumed payload_len window_ok =
     (let consumed' = consumed + payload_len in
      if consumed' \<ge> ucast (iws div 2)
      then (if window_ok then (0, Some (ucast consumed')) else (consumed', None))
      else (consumed', None))"

definition update_effect :: "u32 \<Rightarrow> u32 option \<Rightarrow> worker_effect list" where
  "update_effect stream_id upd =
     (case upd of None \<Rightarrow> [] | Some delta \<Rightarrow> [ToWindow (EncodeWindowUpdate stream_id delta)])"

text \<open>A non-empty DATA payload; the last component says that the handler returns early.\<close>

definition dispatch_payload ::
  "u32 \<Rightarrow> u32 \<Rightarrow> byte list \<Rightarrow> send_result \<Rightarrow> bool \<Rightarrow> worker \<Rightarrow> worker \<times> worker_effect list \<times> bool" where
  "dispatch_payload iws stream_id payload sent window_ok w =
     (case map_of (streams w) stream_id of
        None \<Rightarrow> (w, [ToControl (CloseStream stream_id RST_STATUS_INVALID_STREAM)], False)
      | Some st \<Rightarrow>
          (case data_tx st of
             None \<Rightarrow> (w, [], False)
           | Some ch \<Rightarrow>
               (case sent of
                  SendOk \<Rightarrow>
                    (let (consumed', upd) = stream_credit iws (consumed_since_update st)
                                              (word_of_nat (length payload)) window_ok
                     in (w\<lparr>streams := AList.update stream_id (st\<lparr>consumed_since_update := consumed'\<rparr>) (streams w)\<rparr>,
                         Deliver stream_id ch payload # update_effect stream_id upd, False))
                | SendFull \<Rightarrow> (w, [], False)
                | SendClosed \<Rightarrow>
                    (w\<lparr>streams := AList.delete stream_id (streams w)\<rparr>,
                     [ToControl (CloseStream stream_id RST_STATUS_FLOW_CONTROL)], True))))"

definition half_close :: "u32 \<Rightarrow> worker \<Rightarrow> worker" where
  "half_close stream_id w =
     (case map_of (streams w) stream_id of
        None \<Rightarrow> w
      | Some st \<Rightarrow> w\<lparr>streams := AList.update stream_id (st\<lparr>data_tx := None\<rparr>) (streams w)\<rparr>)"

text \<open>\<open>streams.remove\<close> followed by \<open>send_window.close()\<close> on the removed entry.\<close>

definition remove_and_close :: "u32 \<Rightarrow> worker \<times> windows \<Rightarrow> worker \<times> windows" where
  "remove_and_close stream_id ww =
     (let (w, wins) = ww in
      case map_of (streams w) stream_id of
        None \<Rightarrow> (w, wins)
      | Some st \<Rightarrow> (w\<lparr>streams := AList.delete stream_id (streams w)\<rparr>, close_window (st_window st) wins))"

text \<open>\<open>pending_replies.remove\<close> followed by \<open>send\<close> on the removed oneshot.\<close>

definition take_reply ::
  "u32 \<Rightarrow> (spdy_error, unit) result \<Rightarrow> worker \<Rightarrow> worker \<times> worker_effect list" where
  "take_reply stream_id r w =
     (case map_of (pending_replies w) stream_id of
        None \<Rightarrow> (w, [])
      | Some rid \<Rightarrow> (w\<lparr>pending_replies := AList.delete stream_id (pending_replies w)\<rparr>, [Reply rid r]))"

definition dispatch_data ::
  "u32 \<Rightarrow> u32 \<Rightarrow> byte list \<Rightarrow> bool \<Rightarrow> send_result \<Rightarrow> bool \<Rightarrow> worker \<Rightarrow> worker \<times> worker_effect list" where
  "dispatch_data iws stream_id payload fin sent window_ok w =
     (let (w1, effs, returned) =
        (if payload \<noteq> [] then dispatch_payload iws stream_id payload sent window_ok w
         else (w, [], False))
      in (if returned then w1 else if fin then half_close stream_id w1 else w1, effs))"

definition dispatch_syn_reply :: "u32 \<Rightarrow> bool \<Rightarrow> worker \<Rightarrow> worker \<times> worker_effect list" where
  "dispatch_syn_reply stream_id fin w =
     (let (w1, effs) =
        (case map_of (pending_replies w) stream_id of
           Some rid \<Rightarrow> take_reply stream_id (Ok ()) w
         | None \<Rightarrow>
             (w, if map_of (streams w) stream_id = None
                 then [ToControl (CloseStream stream_id RST_STATUS_INVALID_STREAM)] else []))
      in (if fin then half_close stream_id w1 else w1, effs))"

definition dispatch_rst_stream :: "u32 \<Rightarrow> u32 \<Rightarrow> worker \<Rightarrow> windows \<Rightarrow> worker_out" where
  "dispatch_rst_stream stream_id status w wins =
     (let (w1, wins1) = remove_and_close stream_id (w, wins);
          (w2, effs) = take_reply stream_id (Err (StreamReset stream_id status)) w1
      in (w2, wins1, effs))"

definition dispatch_frame_in_worker ::
  "u32 \<Rightarrow> frame \<Rightarrow> send_result \<Rightarrow> bool \<Rightarrow> worker \<Rightarrow> windows \<Rightarrow> worker_out" where
  "dispatch_frame_in_worker iws frame sent window_ok w wins =
     (case frame of
        Data stream_id payload fin \<Rightarrow>
          (let (w', effs) = dispatch_data iws stream_id payload fin sent window_ok w
           in (w', wins, effs))
      | SynReply stream_id headers fin \<Rightarrow>
          (let (w', effs) = dispatch_syn_reply stream_id fin w in (w', wins, effs))
      | RstStream stream_id status \<Rightarrow> dispatch_rst_stream stream_id status w wins
      | WindowUpdate stream_id delta \<Rightarrow>
          (case map_of (streams w) stream_id of
             Some st \<Rightarrow> (w, wins(st_window st := replenish delta (wins (st_window st))), [])
           | None \<Rightarrow> (w, wins, []))
      | _ \<Rightarrow> (w, wins, []))"

section \<open>Registrations\<close>

definition goaway_stream :: "u32 \<Rightarrow> u32 \<Rightarrow> u32 \<Rightarrow> worker_out \<Rightarrow> worker_out" where
  "goaway_stream last_good status sid out =
     (let (w, wins, effs) = out;
          (w1, wins1) = remove_and_close sid (w, wins);
          (w2, reply) = take_reply sid (Err (ErrGoAway last_good status)) w1
      in (w2, wins1, effs @ reply @ [ToControl (CloseStream sid RST_STATUS_CANCEL)]))"

definition bad_ids :: "u32 \<Rightarrow> worker \<Rightarrow> u32 list" where
  "bad_ids last_good w = filter (\<lambda>sid. sid > last_good) (map fst (streams w))"

definition delta_all :: "i64 \<Rightarrow> worker \<Rightarrow> windows \<Rightarrow> windows" where
  "delta_all delta w wins =
     fold (\<lambda>st ws. ws(st_window st := apply_delta delta (ws (st_window st)))) (map snd (streams w)) wins"

definition apply_registration :: "stream_registration \<Rightarrow> worker \<Rightarrow> windows \<Rightarrow> worker_out" where
  "apply_registration reg w wins =
     (case reg of
        RegOpen stream_id ch rid win \<Rightarrow>
          (w\<lparr>streams := AList.update stream_id
                \<lparr>data_tx = Some ch, st_window = win, consumed_since_update = 0\<rparr> (streams w),
             pending_replies := AList.update stream_id rid (pending_replies w)\<rparr>, wins, [])
      | RegClose stream_id \<Rightarrow>
          (let (w1, wins1) = remove_and_close stream_id (w, wins)
           in (w1\<lparr>pending_replies := AList.delete stream_id (pending_replies w1)\<rparr>, wins1, []))
      | SettingsWindowDelta delta \<Rightarrow> (w, delta_all delta w wins, [])
      | RegGoAway last_good status \<Rightarrow>
          fold (goaway_stream last_good status) (bad_ids last_good w) (w, wins, []))"

section \<open>The task\<close>

datatype worker_input =
    InReg stream_registration
  | InFrame frame send_result bool

definition worker_step :: "u32 \<Rightarrow> worker_input \<Rightarrow> worker_out \<Rightarrow> worker_out" where
  "worker_step iws inp out =
     (let (w, wins, effs) = out;
          (w', wins', new) =
            (case inp of
               InReg reg \<Rightarrow> apply_registration reg w wins
             | InFrame f sent window_ok \<Rightarrow> dispatch_frame_in_worker iws f sent window_ok w wins)
      in (w', wins', effs @ new))"

definition worker_run :: "u32 \<Rightarrow> worker_input list \<Rightarrow> worker_out \<Rightarrow> worker_out" where
  "worker_run iws inps out = fold (worker_step iws) inps out"

text \<open>
  One round of the loop of \<open>run_frame_worker\<close>: the registrations its two \<open>try_recv\<close> loops drain, and
  the branch of the \<open>select!\<close> that is taken.  A \<open>None\<close> message is a closed channel.
\<close>

datatype worker_select =
    WCancelled
  | WCloseReg "stream_registration option"
  | WReg "stream_registration option"
  | WFrame "(frame \<times> send_result \<times> bool) option"

record worker_round =
  drained_close :: "stream_registration list"
  drained_reg :: "stream_registration list"
  selected :: worker_select

text \<open>The inputs that a round handles, and whether it then breaks out of the loop.\<close>

definition select_input :: "worker_select \<Rightarrow> worker_input option" where
  "select_input s =
     (case s of
        WCancelled \<Rightarrow> None
      | WCloseReg r \<Rightarrow> map_option InReg r
      | WReg r \<Rightarrow> map_option InReg r
      | WFrame f \<Rightarrow> map_option (\<lambda>(f, sent, window_ok). InFrame f sent window_ok) f)"

definition round_inputs :: "worker_round \<Rightarrow> worker_input list" where
  "round_inputs r =
     map InReg (drained_close r) @ map InReg (drained_reg r) @
     (case select_input (selected r) of None \<Rightarrow> [] | Some i \<Rightarrow> [i])"

definition round_breaks :: "worker_round \<Rightarrow> bool" where
  "round_breaks r \<longleftrightarrow> select_input (selected r) = None"

definition worker_shutdown :: "worker_out \<Rightarrow> worker_out" where
  "worker_shutdown out =
     (let (w, wins, effs) = out
      in (worker_new,
          fold (\<lambda>st ws. close_window (st_window st) ws) (map snd (streams w)) wins,
          effs @ map (\<lambda>(sid, rid). Reply rid (Err MuxClosed)) (pending_replies w)))"

text \<open>\<open>Inl\<close>: the task has ended; \<open>Inr\<close>: it is still running after these rounds.\<close>

primrec run_frame_worker :: "u32 \<Rightarrow> worker_round list \<Rightarrow> worker_out \<Rightarrow> worker_out + worker_out" where
  "run_frame_worker iws [] out = Inr out"
| "run_frame_worker iws (r # rs) out =
     (let out' = worker_run iws (round_inputs r) out
      in if round_breaks r then Inl (worker_shutdown out') else run_frame_worker iws rs out')"

end
