(* ===== verification/Worker_Laws.thy ===== *)
theory Worker_Laws
  imports Worker
begin

text \<open>
  What the frame workers guarantee: the account of each stream's delivered bytes is exact, a
  worker touches only the windows of streams it owns, a window that is closed with its stream stays
  closed, every pending reply is answered at most once, and at the end of the task every window is
  closed and every pending reply answered.
\<close>

interpretation sc: recv_credit "stream_credit iws" "iws div 2" for iws
  by unfold_locales (auto simp: stream_credit_def Let_def split: if_splits)

section \<open>Lookup\<close>

lemma map_of_update [simp]: "map_of (AList.update k v xs) = (map_of xs)(k \<mapsto> v)"
  by (rule update_conv')

lemma map_of_delete [simp]: "map_of (AList.delete k xs) = (map_of xs)(k := None)"
  by (rule delete_conv')

lemma distinct_keys [simp]:
  "distinct (map fst xs) \<Longrightarrow> distinct (map fst (AList.update k v xs))"
  "distinct (map fst xs) \<Longrightarrow> distinct (map fst (AList.delete k xs))"
  by (rule distinct_update, assumption) (rule distinct_delete, assumption)

definition stream_of :: "worker \<Rightarrow> u32 \<Rightarrow> stream_state option" where
  "stream_of w = map_of (streams w)"

definition reply_of :: "worker \<Rightarrow> u32 \<Rightarrow> reply_id option" where
  "reply_of w = map_of (pending_replies w)"

lemma stream_of_new [simp]: "stream_of worker_new = Map.empty" "reply_of worker_new = Map.empty"
  by (simp_all add: stream_of_def reply_of_def worker_new_def)

text \<open>The windows of the registered streams.\<close>

definition win_refs :: "worker \<Rightarrow> win_id set" where
  "win_refs w = st_window ` ran (stream_of w)"

lemma win_refsI: "stream_of w sid = Some st \<Longrightarrow> st_window st \<in> win_refs w"
  by (auto simp: win_refs_def intro: ranI)

lemma win_refsE:
  assumes "win \<in> win_refs w"
  obtains sid st where "stream_of w sid = Some st" "win = st_window st"
  using assms by (auto simp: win_refs_def ran_def)

section \<open>Each operation on the two maps\<close>

lemma remove_and_close_props:
  assumes "remove_and_close sid (w, wins) = (w', wins')"
  shows "stream_of w' = (stream_of w)(sid := None)" "pending_replies w' = pending_replies w"
    "wins' = (case stream_of w sid of None \<Rightarrow> wins | Some st \<Rightarrow> close_window (st_window st) wins)"
    "distinct (map fst (streams w)) \<Longrightarrow> distinct (map fst (streams w'))"
  using assms
  by (auto simp: remove_and_close_def stream_of_def fun_eq_iff split: option.splits)

lemma take_reply_props:
  assumes "take_reply sid r w = (w', effs)"
  shows "streams w' = streams w" "reply_of w' = (reply_of w)(sid := None)"
    "effs = (case reply_of w sid of None \<Rightarrow> [] | Some rid \<Rightarrow> [Reply rid r])"
    "distinct (map fst (pending_replies w)) \<Longrightarrow> distinct (map fst (pending_replies w'))"
  using assms by (auto simp: take_reply_def reply_of_def fun_eq_iff split: option.splits)

lemma half_close_props:
  "stream_of (half_close sid w) = (stream_of w)(sid := map_option (\<lambda>st. st\<lparr>data_tx := None\<rparr>) (stream_of w sid))"
  "pending_replies (half_close sid w) = pending_replies w"
  "distinct (map fst (streams w)) \<Longrightarrow> distinct (map fst (streams (half_close sid w)))"
  by (auto simp: half_close_def stream_of_def fun_eq_iff split: option.splits)

text \<open>What one delivered payload does to the stream it belongs to.\<close>

inductive payload_step :: "u32 \<Rightarrow> u32 \<Rightarrow> byte list \<Rightarrow> stream_state option \<Rightarrow> stream_state option
    \<Rightarrow> worker_effect list \<Rightarrow> bool" for iws sid payload where
  accepted: "data_tx st = Some ch \<Longrightarrow>
      stream_credit iws (consumed_since_update st) (word_of_nat (length payload)) ok = (c', upd) \<Longrightarrow>
      payload_step iws sid payload (Some st) (Some (st\<lparr>consumed_since_update := c'\<rparr>))
        (Deliver sid ch payload # update_effect sid upd)"
| ignored: "payload_step iws sid payload (Some st) (Some st) []"
| receiver_gone: "payload_step iws sid payload (Some st) None
    [ToControl (CloseStream sid RST_STATUS_FLOW_CONTROL)]"
| unknown: "payload_step iws sid payload None None
    [ToControl (CloseStream sid RST_STATUS_INVALID_STREAM)]"

lemma dispatch_payload_props:
  assumes "dispatch_payload iws sid payload sent ok w = (w', effs, ret)"
  shows "\<exists>st'. stream_of w' = (stream_of w)(sid := st') \<and>
           payload_step iws sid payload (stream_of w sid) st' effs"
    "pending_replies w' = pending_replies w"
    "distinct (map fst (streams w)) \<Longrightarrow> distinct (map fst (streams w'))"
proof -
  note D = assms [unfolded dispatch_payload_def]
  show "\<exists>st'. stream_of w' = (stream_of w)(sid := st') \<and>
           payload_step iws sid payload (stream_of w sid) st' effs"
  proof (cases "map_of (streams w) sid")
    case None
    then show ?thesis using D
      by (intro exI [of _ None]) (auto simp: stream_of_def fun_eq_iff intro: payload_step.intros)
  next
    case (Some st)
    note S = Some
    show ?thesis
    proof (cases "\<exists>ch. data_tx st = Some ch \<and> sent \<noteq> SendFull")
      case False
      then have "w' = w" "effs = []" using D S
        by (auto split: option.splits send_result.splits)
      then show ?thesis using S
        by (intro exI [of _ "Some st"]) (auto simp: stream_of_def fun_eq_iff intro: payload_step.intros)
    next
      case True
      then obtain ch where ch: "data_tx st = Some ch" "sent \<noteq> SendFull" by blast
      show ?thesis
      proof (cases sent)
        case SendOk
        then show ?thesis using D S ch
          by (auto simp: stream_of_def split: prod.splits intro!: payload_step.accepted)
      next
        case SendClosed
        then show ?thesis using D S ch
          by (intro exI [of _ None]) (auto simp: stream_of_def intro: payload_step.intros)
      qed (use ch in simp)
    qed
  qed
  show "pending_replies w' = pending_replies w"
    "distinct (map fst (streams w)) \<Longrightarrow> distinct (map fst (streams w'))"
    using D by (auto split: option.splits send_result.splits prod.splits)
qed

lemma dispatch_data_props:
  assumes "dispatch_data iws sid payload fin sent ok w = (w', effs)"
  shows "\<exists>st1 st'. payload_step iws sid payload (stream_of w sid) st1 effs \<and>
             (st' = st1 \<or> st' = map_option (\<lambda>st. st\<lparr>data_tx := None\<rparr>) st1) \<and>
             stream_of w' = (stream_of w)(sid := st')
         \<or> effs = [] \<and> (st' = stream_of w sid \<or> st' = map_option (\<lambda>st. st\<lparr>data_tx := None\<rparr>) (stream_of w sid)) \<and>
             stream_of w' = (stream_of w)(sid := st')"
    "pending_replies w' = pending_replies w"
    "distinct (map fst (streams w)) \<Longrightarrow> distinct (map fst (streams w'))"
proof -
  obtain w1 effs1 ret where p: "(if payload \<noteq> [] then dispatch_payload iws sid payload sent ok w
      else (w, [], False)) = (w1, effs1, ret)" by (metis prod_cases3)
  have e: "effs = effs1" and w': "w' = (if ret then w1 else if fin then half_close sid w1 else w1)"
    using assms p by (auto simp: dispatch_data_def)
  have w1: "pending_replies w1 = pending_replies w"
    "distinct (map fst (streams w)) \<Longrightarrow> distinct (map fst (streams w1))"
    using p dispatch_payload_props(2,3) by (auto split: if_splits)
  show "pending_replies w' = pending_replies w"
    "distinct (map fst (streams w)) \<Longrightarrow> distinct (map fst (streams w'))"
    using w1 w' half_close_props(2,3) by auto
  have hc: "stream_of w' = stream_of w1 \<or>
      stream_of w' = (stream_of w1)(sid := map_option (\<lambda>st. st\<lparr>data_tx := None\<rparr>) (stream_of w1 sid))"
    using w' half_close_props(1) by auto
  show "\<exists>st1 st'. payload_step iws sid payload (stream_of w sid) st1 effs \<and>
             (st' = st1 \<or> st' = map_option (\<lambda>st. st\<lparr>data_tx := None\<rparr>) st1) \<and>
             stream_of w' = (stream_of w)(sid := st')
         \<or> effs = [] \<and> (st' = stream_of w sid \<or> st' = map_option (\<lambda>st. st\<lparr>data_tx := None\<rparr>) (stream_of w sid)) \<and>
             stream_of w' = (stream_of w)(sid := st')"
  proof (cases "payload = []")
    case True
    then have "w1 = w" "effs = []" using p e by auto
    then show ?thesis using hc by (metis fun_upd_triv)
  next
    case False
    then obtain st1 where st1: "stream_of w1 = (stream_of w)(sid := st1)"
      "payload_step iws sid payload (stream_of w sid) st1 effs"
      using dispatch_payload_props(1) p e by (metis (no_types, lifting))
    then show ?thesis using hc by (metis fun_upd_same fun_upd_upd)
  qed
qed

lemma dispatch_syn_reply_props:
  assumes "dispatch_syn_reply sid fin w = (w', effs)"
  shows "\<exists>w1. streams w1 = streams w \<and> reply_of w1 = (reply_of w)(sid := None) \<and>
      (distinct (map fst (pending_replies w)) \<longrightarrow> distinct (map fst (pending_replies w1))) \<and>
      w' = (if fin then half_close sid w1 else w1)"
    "effs = (case reply_of w sid of Some rid \<Rightarrow> [Reply rid (Ok ())]
       | None \<Rightarrow> if stream_of w sid = None then [ToControl (CloseStream sid RST_STATUS_INVALID_STREAM)] else [])"
proof -
  obtain w1 effs1 where tr: "take_reply sid (Ok ()) w = (w1, effs1)" by force
  note P = take_reply_props [OF tr]
  show "\<exists>w1. streams w1 = streams w \<and> reply_of w1 = (reply_of w)(sid := None) \<and>
      (distinct (map fst (pending_replies w)) \<longrightarrow> distinct (map fst (pending_replies w1))) \<and>
      w' = (if fin then half_close sid w1 else w1)"
    "effs = (case reply_of w sid of Some rid \<Rightarrow> [Reply rid (Ok ())]
       | None \<Rightarrow> if stream_of w sid = None then [ToControl (CloseStream sid RST_STATUS_INVALID_STREAM)] else [])"
    using assms P tr
    by (auto simp: dispatch_syn_reply_def reply_of_def stream_of_def fun_eq_iff split: option.splits)
qed

text \<open>GOAWAY removes the listed streams and their pending replies, and closes their windows only.\<close>

lemma goaway_stream_props:
  assumes "goaway_stream lg status sid (w, wins, effs) = (w', wins', effs')"
  shows "stream_of w' = (stream_of w)(sid := None)" "reply_of w' = (reply_of w)(sid := None)"
    "wins' = (case stream_of w sid of None \<Rightarrow> wins | Some st \<Rightarrow> close_window (st_window st) wins)"
    "effs' = effs @ (case reply_of w sid of None \<Rightarrow> [] | Some rid \<Rightarrow> [Reply rid (Err (ErrGoAway lg status))])
       @ [ToControl (CloseStream sid RST_STATUS_CANCEL)]"
    "distinct (map fst (streams w)) \<Longrightarrow> distinct (map fst (streams w'))"
    "distinct (map fst (pending_replies w)) \<Longrightarrow> distinct (map fst (pending_replies w'))"
proof -
  obtain w1 wins1 where rc: "remove_and_close sid (w, wins) = (w1, wins1)" by force
  obtain w2 reply where tr: "take_reply sid (Err (ErrGoAway lg status)) w1 = (w2, reply)" by force
  have eq: "w' = w2" "wins' = wins1" "effs' = effs @ reply @ [ToControl (CloseStream sid RST_STATUS_CANCEL)]"
    using assms rc tr by (auto simp: goaway_stream_def)
  note P = remove_and_close_props [OF rc] take_reply_props [OF tr]
  have r: "reply_of w1 = reply_of w" using P(2) by (simp add: reply_of_def)
  show "stream_of w' = (stream_of w)(sid := None)" "reply_of w' = (reply_of w)(sid := None)"
    "wins' = (case stream_of w sid of None \<Rightarrow> wins | Some st \<Rightarrow> close_window (st_window st) wins)"
    "effs' = effs @ (case reply_of w sid of None \<Rightarrow> [] | Some rid \<Rightarrow> [Reply rid (Err (ErrGoAway lg status))])
       @ [ToControl (CloseStream sid RST_STATUS_CANCEL)]"
    "distinct (map fst (streams w)) \<Longrightarrow> distinct (map fst (streams w'))"
    "distinct (map fst (pending_replies w)) \<Longrightarrow> distinct (map fst (pending_replies w'))"
    using P r eq by (simp_all add: stream_of_def split: option.splits)
qed

lemma goaway_fold_props:
  assumes "fold (goaway_stream lg status) ids (w, wins, effs) = (w', wins', effs')"
  shows "stream_of w' = (\<lambda>sid. if sid \<in> set ids then None else stream_of w sid) \<and>
    reply_of w' = (\<lambda>sid. if sid \<in> set ids then None else reply_of w sid) \<and>
    (distinct (map fst (streams w)) \<longrightarrow> distinct (map fst (streams w'))) \<and>
    (distinct (map fst (pending_replies w)) \<longrightarrow> distinct (map fst (pending_replies w')))"
  using assms
proof (induction ids arbitrary: w wins effs)
  case (Cons sid ids)
  obtain w1 wins1 effs1 where s: "goaway_stream lg status sid (w, wins, effs) = (w1, wins1, effs1)"
    by (metis prod_cases3)
  have "fold (goaway_stream lg status) ids (w1, wins1, effs1) = (w', wins', effs')"
    using Cons.prems s by simp
  from Cons.IH [OF this] goaway_stream_props(1,2,5,6) [OF s] show ?case by (auto simp: fun_eq_iff)
qed (simp add: fun_eq_iff)

definition owned_by :: "worker \<Rightarrow> u32 set \<Rightarrow> win_id \<Rightarrow> bool" where
  "owned_by w ids win \<longleftrightarrow> (\<exists>sid\<in>ids. \<exists>st. stream_of w sid = Some st \<and> st_window st = win)"

lemma goaway_fold_windows:
  assumes "fold (goaway_stream lg status) ids (w, wins, effs) = (w', wins', effs')"
  shows "if owned_by w (set ids) win then is_closed (wins' win) else wins' win = wins win"
  using assms
proof (induction ids arbitrary: w wins effs)
  case (Cons sid ids)
  obtain w1 wins1 effs1 where s: "goaway_stream lg status sid (w, wins, effs) = (w1, wins1, effs1)"
    by (metis prod_cases3)
  have "fold (goaway_stream lg status) ids (w1, wins1, effs1) = (w', wins', effs')"
    using Cons.prems s by simp
  note IH = Cons.IH [OF this] and P = goaway_stream_props(1,3) [OF s]
  have own: "owned_by w (set (sid # ids)) win \<longleftrightarrow> owned_by w {sid} win \<or> owned_by w1 (set ids) win"
    using P(1) by (auto simp: owned_by_def)
  have "if owned_by w {sid} win then is_closed (wins1 win) else wins1 win = wins win"
    using P(2) by (auto simp: owned_by_def close_window_def split: option.splits)
  then show ?case using IH own by (auto split: if_splits)
qed (simp add: owned_by_def)

text \<open>The messages of a GOAWAY: a reply and an RST_STREAM per stream, no data and no credit.\<close>

lemma goaway_fold_effects:
  assumes "fold (goaway_stream lg status) ids (w, wins, effs) = (w', wins', effs')"
  shows "\<exists>new. effs' = effs @ new \<and>
    set new \<subseteq> (\<lambda>rid. Reply rid (Err (ErrGoAway lg status))) ` ran (reply_of w)
      \<union> (\<lambda>sid. ToControl (CloseStream sid RST_STATUS_CANCEL)) ` set ids \<and>
    (\<lambda>sid. ToControl (CloseStream sid RST_STATUS_CANCEL)) ` set ids \<subseteq> set new"
  using assms
proof (induction ids arbitrary: w wins effs)
  case (Cons sid ids)
  obtain w1 wins1 effs1 where s: "goaway_stream lg status sid (w, wins, effs) = (w1, wins1, effs1)"
    by (metis prod_cases3)
  have "fold (goaway_stream lg status) ids (w1, wins1, effs1) = (w', wins', effs')"
    using Cons.prems s by simp
  from Cons.IH [OF this] obtain new where new: "effs' = effs1 @ new"
    "set new \<subseteq> (\<lambda>rid. Reply rid (Err (ErrGoAway lg status))) ` ran (reply_of w1)
      \<union> (\<lambda>sid. ToControl (CloseStream sid RST_STATUS_CANCEL)) ` set ids"
    "(\<lambda>sid. ToControl (CloseStream sid RST_STATUS_CANCEL)) ` set ids \<subseteq> set new" by blast
  note P = goaway_stream_props(2,4) [OF s]
  have "ran (reply_of w1) \<subseteq> ran (reply_of w)" using P(1) by (auto simp: ran_def)
  then have "set new \<subseteq> (\<lambda>rid. Reply rid (Err (ErrGoAway lg status))) ` ran (reply_of w)
      \<union> (\<lambda>sid. ToControl (CloseStream sid RST_STATUS_CANCEL)) ` set ids"
    using new(2) by blast
  then show ?case using new(1,3) P(2)
    by (intro exI [of _ "(case reply_of w sid of None \<Rightarrow> [] | Some rid \<Rightarrow> [Reply rid (Err (ErrGoAway lg status))])
       @ ToControl (CloseStream sid RST_STATUS_CANCEL) # new"])
      (auto split: option.splits intro!: imageI ranI)
qed simp

lemma in_bad_ids: "sid \<in> set (bad_ids lg w) \<longleftrightarrow> stream_of w sid \<noteq> None \<and> sid > lg"
  by (auto simp: bad_ids_def stream_of_def map_of_eq_None_iff)

section \<open>One input\<close>

lemma worker_stepE:
  assumes "worker_step iws inp (w, wins, effs) = (w', wins', effs')"
  obtains (reg) reg new where "inp = InReg reg" "apply_registration reg w wins = (w', wins', new)"
    "effs' = effs @ new"
  | (frame) f sent ok new where "inp = InFrame f sent ok"
    "dispatch_frame_in_worker iws f sent ok w wins = (w', wins', new)" "effs' = effs @ new"
  using assms by (cases inp) (auto simp: worker_step_def split: prod.splits)

text \<open>A stream that is registered after a step was registered before with the same window, or is opened by it.\<close>

lemma payload_step_window:
  "payload_step iws sid payload st0 (Some st') effs \<Longrightarrow> \<exists>st. st0 = Some st \<and> st_window st' = st_window st"
  by (cases rule: payload_step.cases) auto

lemma dispatch_streams:
  assumes "dispatch_frame_in_worker iws f sent ok w wins = (w', wins', effs)" "stream_of w' sid = Some st'"
  shows "\<exists>st. stream_of w sid = Some st \<and> st_window st' = st_window st"
proof (cases f)
  case (Data s payload fin)
  then obtain effs1 where "dispatch_data iws s payload fin sent ok w = (w', effs1)"
    using assms(1) by (auto simp: dispatch_frame_in_worker_def split: prod.splits)
  from dispatch_data_props(1) [OF this] assms(2) show ?thesis
    by (auto split: if_splits dest!: payload_step_window)
next
  case (SynReply s hs fin)
  then obtain effs1 where "dispatch_syn_reply s fin w = (w', effs1)"
    using assms(1) by (auto simp: dispatch_frame_in_worker_def split: prod.splits)
  from dispatch_syn_reply_props(1) [OF this]
  obtain w1 where "streams w1 = streams w" "w' = w1 \<or> w' = half_close s w1" by metis
  then show ?thesis
    using assms(2) half_close_props(1) [of s w1] by (auto simp: stream_of_def split: if_splits)
next
  case (RstStream s status)
  obtain w1 wins1 where rc: "remove_and_close s (w, wins) = (w1, wins1)" by force
  obtain w2 reply where tr: "take_reply s (Err (StreamReset s status)) w1 = (w2, reply)" by force
  have "w' = w2" using assms(1) RstStream rc tr
    by (auto simp: dispatch_frame_in_worker_def dispatch_rst_stream_def)
  then show ?thesis
    using assms(2) remove_and_close_props(1) [OF rc] take_reply_props(1) [OF tr]
    by (auto simp: stream_of_def split: if_splits)
qed (use assms in \<open>auto simp: dispatch_frame_in_worker_def split: option.splits\<close>)

lemma registration_streams:
  assumes "apply_registration reg w wins = (w', wins', effs)" "stream_of w' sid = Some st'"
  shows "(\<exists>st. stream_of w sid = Some st \<and> st_window st' = st_window st) \<or>
    (\<exists>ch rid. reg = RegOpen sid ch rid (st_window st'))"
proof (cases reg)
  case (RegOpen s ch rid win)
  then show ?thesis using assms by (auto simp: apply_registration_def stream_of_def split: if_splits)
next
  case (RegClose s)
  obtain w1 wins1 where rc: "remove_and_close s (w, wins) = (w1, wins1)" by force
  then have "stream_of w' = stream_of w1"
    using assms(1) RegClose by (auto simp: apply_registration_def stream_of_def)
  then show ?thesis using assms(2) remove_and_close_props(1) [OF rc] by (auto split: if_splits)
next
  case (RegGoAway lg status)
  then have "fold (goaway_stream lg status) (bad_ids lg w) (w, wins, []) = (w', wins', effs)"
    using assms(1) by (simp add: apply_registration_def)
  from goaway_fold_props [OF this] show ?thesis using assms(2) by (auto split: if_splits)
qed (use assms in \<open>auto simp: apply_registration_def\<close>)

lemma step_streams:
  assumes "worker_step iws inp (w, wins, effs) = (w', wins', effs')" "stream_of w' sid = Some st'"
  shows "(\<exists>st. stream_of w sid = Some st \<and> st_window st' = st_window st) \<or>
    (\<exists>ch rid. inp = InReg (RegOpen sid ch rid (st_window st')))"
  using assms(1)
  by (cases rule: worker_stepE)
    (use assms(2) dispatch_streams registration_streams in \<open>metis (no_types)\<close>)+

text \<open>A step leaves every window alone that belongs to no registered stream.\<close>

lemma fold_windows_other:
  "win \<notin> st_window ` set sts \<Longrightarrow> fold (\<lambda>st ws. ws(st_window st := g (ws (st_window st)))) sts wins win = wins win"
  by (induction sts arbitrary: wins) auto

lemma win_refs_list:
  "distinct (map fst (streams w)) \<Longrightarrow> win_refs w = st_window ` set (map snd (streams w))"
  by (simp add: win_refs_def stream_of_def ran_distinct)

lemma dispatch_windows:
  assumes "dispatch_frame_in_worker iws f sent ok w wins = (w', wins', effs)" "win \<notin> win_refs w"
  shows "wins' win = wins win"
proof (cases f)
  case (RstStream s status)
  obtain w1 wins1 where rc: "remove_and_close s (w, wins) = (w1, wins1)" by force
  then have "wins' = wins1" using assms(1) RstStream
    by (auto simp: dispatch_frame_in_worker_def dispatch_rst_stream_def split: prod.splits)
  then show ?thesis using remove_and_close_props(3) [OF rc] assms(2) win_refsI [of w s]
    by (auto simp: close_window_def split: option.splits)
next
  case (WindowUpdate s d)
  then show ?thesis using assms win_refsI [of w s]
    by (auto simp: dispatch_frame_in_worker_def stream_of_def split: option.splits)
qed (use assms in \<open>auto simp: dispatch_frame_in_worker_def split: prod.splits\<close>)

lemma registration_windows:
  assumes "apply_registration reg w wins = (w', wins', effs)" "win \<notin> win_refs w" "distinct (map fst (streams w))"
  shows "wins' win = wins win"
proof (cases reg)
  case (RegClose s)
  obtain w1 wins1 where rc: "remove_and_close s (w, wins) = (w1, wins1)" by force
  then have "wins' = wins1" using assms(1) RegClose by (auto simp: apply_registration_def)
  then show ?thesis using remove_and_close_props(3) [OF rc] assms(2) win_refsI [of w s]
    by (auto simp: close_window_def split: option.splits)
next
  case (SettingsWindowDelta d)
  then show ?thesis
    using assms win_refs_list [of w] fold_windows_other [of win "map snd (streams w)" "apply_delta d" wins]
    by (auto simp: apply_registration_def delta_all_def)
next
  case (RegGoAway lg status)
  then have "fold (goaway_stream lg status) (bad_ids lg w) (w, wins, []) = (w', wins', effs)"
    using assms(1) by (simp add: apply_registration_def)
  moreover have "\<not> owned_by w (set (bad_ids lg w)) win"
    using assms(2) win_refsI [of w] by (auto simp: owned_by_def)
  ultimately show ?thesis using goaway_fold_windows [of lg status "bad_ids lg w" w wins] by metis
qed (use assms in \<open>auto simp: apply_registration_def\<close>)

lemma step_windows:
  assumes "worker_step iws inp (w, wins, effs) = (w', wins', effs')" "win \<notin> win_refs w"
    "distinct (map fst (streams w))"
  shows "wins' win = wins win"
  using assms(1)
  by (cases rule: worker_stepE)
    (use assms(2,3) dispatch_windows registration_windows in \<open>metis (no_types)\<close>)+

section \<open>The invariant\<close>

definition inj_windows :: "worker \<Rightarrow> bool" where
  "inj_windows w \<longleftrightarrow> (\<forall>s t st tt. stream_of w s = Some st \<longrightarrow> stream_of w t = Some tt \<longrightarrow>
     st_window st = st_window tt \<longrightarrow> s = t)"

definition worker_inv :: "worker \<Rightarrow> bool" where
  "worker_inv w \<longleftrightarrow> distinct (map fst (streams w)) \<and> distinct (map fst (pending_replies w)) \<and> inj_windows w"

lemma worker_inv_new [simp]: "worker_inv worker_new"
  by (simp add: worker_inv_def inj_windows_def) (simp add: worker_new_def)

definition opened_wins :: "worker_input list \<Rightarrow> win_id list" where
  "opened_wins inps =
     concat (map (\<lambda>i. case i of InReg (RegOpen sid ch rid win) \<Rightarrow> [win] | _ \<Rightarrow> []) inps)"

lemma opened_wins_simps [simp]:
  "opened_wins [] = []" "opened_wins (xs @ ys) = opened_wins xs @ opened_wins ys"
  by (simp_all add: opened_wins_def)

lemma opened_wins_Cons: "opened_wins (i # xs) = opened_wins [i] @ opened_wins xs"
  by (simp add: opened_wins_def)

lemma step_refs:
  assumes "worker_step iws inp (w, wins, effs) = (w', wins', effs')"
  shows "win_refs w' \<subseteq> win_refs w \<union> set (opened_wins [inp])"
proof
  fix win assume "win \<in> win_refs w'"
  then obtain sid st' where "stream_of w' sid = Some st'" "win = st_window st'" by (rule win_refsE)
  with step_streams [OF assms this(1)] show "win \<in> win_refs w \<union> set (opened_wins [inp])"
    by (auto simp: opened_wins_def dest: win_refsI)
qed

lemma step_inj_windows:
  assumes step: "worker_step iws inp (w, wins, effs) = (w', wins', effs')" and inj: "inj_windows w"
    and fresh: "set (opened_wins [inp]) \<inter> win_refs w = {}"
  shows "inj_windows w'"
  unfolding inj_windows_def
proof (intro allI impI)
  fix s t st tt
  assume st: "stream_of w' s = Some st" "stream_of w' t = Some tt" "st_window st = st_window tt"
  have notin: "\<not> (stream_of w x = Some z \<and> st_window z = win)" if "inp = InReg (RegOpen y ch rid win)"
    for x y z ch rid win
    using fresh that win_refsI [of w x z] by (auto simp: opened_wins_def)
  from step_streams [OF step st(1)] show "s = t"
  proof
    assume "\<exists>st0. stream_of w s = Some st0 \<and> st_window st = st_window st0"
    then show ?thesis using step_streams [OF step st(2)] st(3) inj notin
      unfolding inj_windows_def by metis
  next
    assume "\<exists>ch rid. inp = InReg (RegOpen s ch rid (st_window st))"
    then obtain ch rid where i: "inp = InReg (RegOpen s ch rid (st_window st))" by blast
    then show ?thesis using step_streams [OF step st(2)] st(3) notin [OF i, of t]
      by (metis stream_registration.inject(1) worker_input.inject(1))
  qed
qed

lemma step_distinct:
  assumes "worker_step iws inp (w, wins, effs) = (w', wins', effs')"
    "distinct (map fst (streams w))" "distinct (map fst (pending_replies w))"
  shows "distinct (map fst (streams w')) \<and> distinct (map fst (pending_replies w'))"
  using assms(1)
proof (cases rule: worker_stepE)
  case (reg reg new)
  show ?thesis
  proof (cases reg)
    case (RegClose s)
    obtain w1 wins1 where rc: "remove_and_close s (w, wins) = (w1, wins1)" by force
    then show ?thesis using reg(2) RegClose assms remove_and_close_props(2,4) [OF rc]
      by (auto simp: apply_registration_def)
  next
    case (RegGoAway lg status)
    then have "fold (goaway_stream lg status) (bad_ids lg w) (w, wins, []) = (w', wins', new)"
      using reg(2) by (simp add: apply_registration_def)
    from goaway_fold_props [OF this] show ?thesis using assms by blast
  qed (use reg assms in \<open>auto simp: apply_registration_def\<close>)
next
  case (frame f sent ok new)
  show ?thesis
  proof (cases f)
    case (Data s payload fin)
    then obtain e where "dispatch_data iws s payload fin sent ok w = (w', e)"
      using frame(2) by (auto simp: dispatch_frame_in_worker_def split: prod.splits)
    from dispatch_data_props(2,3) [OF this] assms show ?thesis by simp
  next
    case (SynReply s hs fin)
    then obtain e where "dispatch_syn_reply s fin w = (w', e)"
      using frame(2) by (auto simp: dispatch_frame_in_worker_def split: prod.splits)
    from dispatch_syn_reply_props(1) [OF this] assms show ?thesis
      by (metis half_close_props(2,3))
  next
    case (RstStream s status)
    obtain w1 wins1 where rc: "remove_and_close s (w, wins) = (w1, wins1)" by force
    obtain w2 reply where tr: "take_reply s (Err (StreamReset s status)) w1 = (w2, reply)" by force
    have "w' = w2" using frame(2) RstStream rc tr
      by (auto simp: dispatch_frame_in_worker_def dispatch_rst_stream_def)
    then show ?thesis
      using assms remove_and_close_props(2,4) [OF rc] take_reply_props(1,4) [OF tr] by simp
  qed (use frame assms in \<open>auto simp: dispatch_frame_in_worker_def split: option.splits\<close>)
qed

lemma step_inv:
  assumes "worker_step iws inp (w, wins, effs) = (w', wins', effs')" "worker_inv w"
    "set (opened_wins [inp]) \<inter> win_refs w = {}"
  shows "worker_inv w'"
  using assms step_inj_windows step_distinct unfolding worker_inv_def by blast

section \<open>Runs\<close>

lemma worker_run_Nil [simp]: "worker_run iws [] out = out"
  by (simp add: worker_run_def)

lemma worker_run_Cons: "worker_run iws (i # rest) out = worker_run iws rest (worker_step iws i out)"
  by (simp add: worker_run_def)

lemma worker_run_append: "worker_run iws (xs @ ys) out = worker_run iws ys (worker_run iws xs out)"
  by (simp add: worker_run_def)

text \<open>The windows that a run opens are new and distinct, as every \<open>SendWindow\<close> is a new allocation.\<close>

definition fresh_windows :: "worker \<Rightarrow> worker_input list \<Rightarrow> bool" where
  "fresh_windows w inps \<longleftrightarrow> distinct (opened_wins inps) \<and> (\<forall>win\<in>set (opened_wins inps). win \<notin> win_refs w)"

lemma fresh_windows_Cons:
  assumes "fresh_windows w (i # rest)" "worker_step iws i (w, wins, effs) = (w', wins', effs')"
  shows "set (opened_wins [i]) \<inter> win_refs w = {}" "fresh_windows w' rest"
proof -
  show "set (opened_wins [i]) \<inter> win_refs w = {}"
    using assms(1) by (auto simp: fresh_windows_def opened_wins_Cons [of i rest])
  show "fresh_windows w' rest"
    using assms(1) step_refs [OF assms(2)] unfolding fresh_windows_def
    by (auto simp: opened_wins_Cons [of i rest])
qed

lemma run_inv:
  assumes "worker_run iws inps (w, wins, effs) = (w', wins', effs')" "worker_inv w" "fresh_windows w inps"
  shows "worker_inv w'"
  using assms
proof (induction inps arbitrary: w wins effs)
  case (Cons i rest)
  obtain w1 wins1 effs1 where s: "worker_step iws i (w, wins, effs) = (w1, wins1, effs1)"
    by (metis prod_cases3)
  show ?case
    using Cons.IH [of w1 wins1 effs1] Cons.prems s step_inv [OF s] fresh_windows_Cons [OF _ s]
    by (simp add: worker_run_Cons)
qed simp

text \<open>A window that belongs to no stream and is not registered again is never touched again.\<close>

lemma run_window_untouched:
  assumes "worker_run iws inps (w, wins, effs) = (w', wins', effs')"
    "distinct (map fst (streams w))" "distinct (map fst (pending_replies w))"
    "win \<notin> win_refs w" "win \<notin> set (opened_wins inps)"
  shows "wins' win = wins win"
  using assms
proof (induction inps arbitrary: w wins effs)
  case (Cons i rest)
  obtain w1 wins1 effs1 where s: "worker_step iws i (w, wins, effs) = (w1, wins1, effs1)"
    by (metis prod_cases3)
  have "win \<notin> win_refs w1"
    using step_refs [OF s] Cons.prems(4,5) by (auto simp: opened_wins_Cons [of i rest])
  then have "wins' win = wins1 win"
    using Cons.IH [of w1 wins1 effs1] Cons.prems s step_distinct [OF s]
    by (simp add: worker_run_Cons opened_wins_Cons [of i rest])
  also have "\<dots> = wins win" by (rule step_windows [OF s Cons.prems(4,2)])
  finally show ?case .
qed simp

lemma run_refs:
  assumes "worker_run iws inps (w, wins, effs) = (w', wins', effs')" "win \<notin> win_refs w" "win \<notin> set (opened_wins inps)"
  shows "win \<notin> win_refs w'"
  using assms
proof (induction inps arbitrary: w wins effs)
  case (Cons i rest)
  obtain w1 wins1 effs1 where s: "worker_step iws i (w, wins, effs) = (w1, wins1, effs1)"
    by (metis prod_cases3)
  then show ?case
    using Cons.IH [of w1 wins1 effs1] Cons.prems step_refs [OF s]
    by (auto simp: worker_run_Cons opened_wins_Cons [of i rest])
qed simp

section \<open>The account of a stream\<close>

definition delivered :: "u32 \<Rightarrow> worker_effect list \<Rightarrow> nat" where
  "delivered sid effs =
     sum_list (map (\<lambda>e. case e of Deliver s ch p \<Rightarrow> if s = sid then length p else 0 | _ \<Rightarrow> 0) effs)"

definition returned :: "u32 \<Rightarrow> worker_effect list \<Rightarrow> nat" where
  "returned sid effs =
     sum_list (map (\<lambda>e. case e of ToWindow (EncodeWindowUpdate s d) \<Rightarrow> if s = sid then unat d else 0 | _ \<Rightarrow> 0) effs)"

lemma delivered_simps [simp]:
  "delivered sid [] = 0" "delivered sid (xs @ ys) = delivered sid xs + delivered sid ys"
  "delivered sid (Deliver s ch p # xs) = (if s = sid then length p else 0) + delivered sid xs"
  "delivered sid (ToControl c # xs) = delivered sid xs" "delivered sid (ToWindow c # xs) = delivered sid xs"
  "delivered sid (Reply rid r # xs) = delivered sid xs"
  by (simp_all add: delivered_def)

lemma returned_simps [simp]:
  "returned sid [] = 0" "returned sid (xs @ ys) = returned sid xs + returned sid ys"
  "returned sid (Deliver s ch p # xs) = returned sid xs" "returned sid (ToControl c # xs) = returned sid xs"
  "returned sid (ToWindow (EncodeWindowUpdate s d) # xs) = (if s = sid then unat d else 0) + returned sid xs"
  "returned sid (Reply rid r # xs) = returned sid xs"
  by (simp_all add: returned_def)

lemma update_effect_account [simp]:
  "delivered sid (update_effect s upd) = 0"
  "returned sid (update_effect s upd) = (if s = sid then sc.sent_credit upd else 0)"
  by (cases upd; simp add: update_effect_def sc.sent_credit_def)+

lemma no_account:
  "\<forall>e\<in>set effs. (\<exists>c. e = ToControl c) \<or> (\<exists>rid r. e = Reply rid r) \<Longrightarrow> delivered sid effs = 0 \<and> returned sid effs = 0"
  by (induction effs) auto

text \<open>One payload: what is delivered is returned or kept.\<close>

lemma payload_step_account:
  assumes "payload_step iws sid payload (Some st) (Some st') effs"
    "unat (consumed_since_update st) + delivered sid effs < 2 ^ 32"
  shows "returned sid effs + unat (consumed_since_update st')
    = unat (consumed_since_update st) + delivered sid effs"
  using assms(1)
proof (cases rule: payload_step.cases)
  case (accepted ch ok c' upd)
  have "length payload < 2 ^ 32" using assms(2) accepted by simp
  then have n: "unat (word_of_nat (length payload) :: u64) = length payload"
    by (simp add: unat_of_nat take_bit_nat_eq_self)
  then show ?thesis
    using accepted sc.take_exact [OF accepted(4)] assms(2) by simp
qed simp

lemma payload_step_other: "payload_step iws s payload st st' effs \<Longrightarrow> s \<noteq> sid \<Longrightarrow> delivered sid effs = 0 \<and> returned sid effs = 0"
  by (cases rule: payload_step.cases) auto

lemma dispatch_account:
  assumes d: "dispatch_frame_in_worker iws f sent ok w wins = (w', wins', new)"
    and st: "stream_of w sid = Some st" "stream_of w' sid = Some st'"
    and small: "unat (consumed_since_update st) + delivered sid new < 2 ^ 32"
  shows "returned sid new + unat (consumed_since_update st')
    = unat (consumed_since_update st) + delivered sid new"
proof (cases f)
  case (Data s payload fin)
  then have "dispatch_data iws s payload fin sent ok w = (w', new)"
    using d by (auto simp: dispatch_frame_in_worker_def split: prod.splits)
  from dispatch_data_props(1) [OF this] obtain st1 st2 where
    eq: "stream_of w' = (stream_of w)(s := st2)" and
    alt: "payload_step iws s payload (stream_of w s) st1 new \<and>
        (st2 = st1 \<or> st2 = map_option (\<lambda>st. st\<lparr>data_tx := None\<rparr>) st1) \<or>
      new = [] \<and> (st2 = stream_of w s \<or> st2 = map_option (\<lambda>st. st\<lparr>data_tx := None\<rparr>) (stream_of w s))"
    by blast
  show ?thesis
  proof (cases "s = sid")
    case True
    then have st2: "st2 = Some st'" using eq st(2) by simp
    from alt show ?thesis
    proof (elim disjE conjE)
      assume "payload_step iws s payload (stream_of w s) st1 new" "st2 = st1"
      then show ?thesis using payload_step_account [OF _ small, of iws payload st'] True st(1) st2 by simp
    next
      assume p: "payload_step iws s payload (stream_of w s) st1 new"
        and "st2 = map_option (\<lambda>st. st\<lparr>data_tx := None\<rparr>) st1"
      then obtain z where "st1 = Some z" "st' = z\<lparr>data_tx := None\<rparr>" using st2 by (cases st1) auto
      then show ?thesis using payload_step_account [OF _ small, of iws payload z] p True st(1) by simp
    qed (use st st2 True in auto)
  next
    case False
    then have "stream_of w' sid = stream_of w sid" using eq by simp
    moreover have "delivered sid new = 0 \<and> returned sid new = 0"
      using alt payload_step_other False by auto
    ultimately show ?thesis using st by simp
  qed
next
  case (SynReply s hs fin)
  then have sr: "dispatch_syn_reply s fin w = (w', new)"
    using d by (auto simp: dispatch_frame_in_worker_def split: prod.splits)
  obtain w1 where "streams w1 = streams w" "w' = w1 \<or> w' = half_close s w1"
    using dispatch_syn_reply_props(1) [OF sr] by metis
  then have "consumed_since_update st' = consumed_since_update st"
    using st half_close_props(1) [of s w1] by (auto simp: stream_of_def split: if_splits)
  moreover have "delivered sid new = 0 \<and> returned sid new = 0"
    using dispatch_syn_reply_props(2) [OF sr] by (auto split: option.splits)
  ultimately show ?thesis by simp
next
  case (RstStream s status)
  obtain w1 wins1 where rc: "remove_and_close s (w, wins) = (w1, wins1)" by force
  obtain w2 reply where tr: "take_reply s (Err (StreamReset s status)) w1 = (w2, reply)" by force
  have "w' = w2" "new = reply" using d RstStream rc tr
    by (auto simp: dispatch_frame_in_worker_def dispatch_rst_stream_def)
  then show ?thesis
    using st remove_and_close_props(1) [OF rc] take_reply_props(1,3) [OF tr]
    by (auto simp: stream_of_def split: if_splits option.splits)
qed (use d st in \<open>auto simp: dispatch_frame_in_worker_def split: option.splits\<close>)

definition opens :: "u32 \<Rightarrow> worker_input \<Rightarrow> bool" where
  "opens sid inp \<longleftrightarrow> (case inp of InReg (RegOpen s ch rid win) \<Rightarrow> s = sid | _ \<Rightarrow> False)"

lemma registration_account:
  assumes r: "apply_registration reg w wins = (w', wins', new)"
    and st: "stream_of w sid = Some st" "stream_of w' sid = Some st'"
    and no: "\<not> opens sid (InReg reg)"
  shows "consumed_since_update st' = consumed_since_update st \<and> delivered sid new = 0 \<and> returned sid new = 0"
proof (cases reg)
  case (RegClose s)
  obtain w1 wins1 where rc: "remove_and_close s (w, wins) = (w1, wins1)" by force
  then show ?thesis using r RegClose st remove_and_close_props(1) [OF rc]
    by (auto simp: apply_registration_def stream_of_def split: if_splits)
next
  case (RegGoAway lg status)
  then have f: "fold (goaway_stream lg status) (bad_ids lg w) (w, wins, []) = (w', wins', new)"
    using r by (simp add: apply_registration_def)
  from goaway_fold_effects [OF f] have "delivered sid new = 0 \<and> returned sid new = 0"
    by (intro no_account) (simp, blast)
  with goaway_fold_props [OF f] show ?thesis using st by (auto split: if_splits)
qed (use assms in \<open>auto simp: apply_registration_def stream_of_def opens_def split: if_splits\<close>)

lemma step_account:
  assumes step: "worker_step iws inp (w, wins, effs) = (w', wins', effs')"
    and st: "stream_of w sid = Some st" "stream_of w' sid = Some st'"
    and no: "\<not> opens sid inp"
    and exact: "returned sid effs + unat (consumed_since_update st) = delivered sid effs"
    and peer: "delivered sid effs' < returned sid effs + 2 ^ 32"
  shows "returned sid effs' + unat (consumed_since_update st') = delivered sid effs'"
  using step
proof (cases rule: worker_stepE)
  case (reg reg new)
  then show ?thesis using registration_account [OF reg(2) st] no exact by simp
next
  case (frame f sent ok new)
  then have "unat (consumed_since_update st) + delivered sid new < 2 ^ 32" using peer exact by simp
  from dispatch_account [OF frame(2) st this] show ?thesis using frame(3) exact by simp
qed

text \<open>A stream that is not registered stays so until it is opened.\<close>

lemma step_unregistered:
  assumes "worker_step iws inp (w, wins, effs) = (w', wins', effs')" "stream_of w sid = None" "\<not> opens sid inp"
  shows "stream_of w' sid = None"
  using step_streams [OF assms(1), of sid] assms(2,3) by (cases "stream_of w' sid") (auto simp: opens_def)

text \<open>
  The log of a run, and the peer's side of flow control: what it has sent on the stream never
  exceeds the window it was given, the initial one and the credit returned so far.
\<close>

definition run_log :: "u32 \<Rightarrow> worker_input list \<Rightarrow> worker_out \<Rightarrow> worker_effect list" where
  "run_log iws inps out = snd (snd (worker_run iws inps out))"

definition peer_within :: "u32 \<Rightarrow> u32 \<Rightarrow> worker_input list \<Rightarrow> worker_out \<Rightarrow> bool" where
  "peer_within iws sid inps out \<longleftrightarrow> (\<forall>k<length inps.
     delivered sid (run_log iws (take (Suc k) inps) out) \<le> returned sid (run_log iws (take k inps) out) + unat iws)"

lemma run_account:
  assumes "stream_of w sid = Some st" "consumed_since_update st = 0" "delivered sid effs = 0" "returned sid effs = 0"
    and run: "worker_run iws inps (w, wins, effs) = (w', wins', effs')"
    and no: "list_all (\<lambda>i. \<not> opens sid i) inps" and st': "stream_of w' sid = Some st'"
    and peer: "peer_within iws sid inps (w, wins, effs)"
  shows "returned sid effs' + unat (consumed_since_update st') = delivered sid effs'"
  using run no st' peer
proof (induction inps arbitrary: w' wins' effs' st' rule: rev_induct)
  case Nil
  then show ?case using assms(1-4) by simp
next
  case (snoc i inps)
  obtain w1 wins1 effs1 where r: "worker_run iws inps (w, wins, effs) = (w1, wins1, effs1)"
    by (metis prod_cases3)
  then have s: "worker_step iws i (w1, wins1, effs1) = (w', wins', effs')"
    using snoc.prems(1) by (simp add: worker_run_append worker_run_Cons)
  have no: "\<not> opens sid i" using snoc.prems(2) by simp
  then obtain st1 where st1: "stream_of w1 sid = Some st1"
    using step_unregistered [OF s] snoc.prems(3) by fastforce
  have p: "peer_within iws sid inps (w, wins, effs)"
    unfolding peer_within_def
  proof (intro allI impI)
    fix k assume "k < length inps"
    then show "delivered sid (run_log iws (take (Suc k) inps) (w, wins, effs))
        \<le> returned sid (run_log iws (take k inps) (w, wins, effs)) + unat iws"
      using snoc.prems(4) [unfolded peer_within_def, rule_format, of k] by simp
  qed
  have "delivered sid effs' \<le> returned sid effs1 + unat iws"
    using snoc.prems(4) [unfolded peer_within_def, rule_format, of "length inps"] r snoc.prems(1)
    by (simp add: run_log_def)
  moreover have "unat iws < 2 ^ 32" using unsigned_less [of iws, where 'a = nat] by simp
  ultimately have "delivered sid effs' < returned sid effs1 + 2 ^ 32" by linarith
  then show ?case
    using snoc.IH [OF r _ st1 p] snoc.prems(2) step_account [OF s st1 snoc.prems(3) no] by simp
qed

section \<open>Shutdown\<close>

lemma fold_close_closed:
  "is_closed (wins win) \<or> win \<in> st_window ` set sts \<Longrightarrow>
    is_closed (fold (\<lambda>st ws. close_window (st_window st) ws) sts wins win)"
  by (induction sts arbitrary: wins) (auto simp: close_window_def)

lemma fold_close_other:
  "win \<notin> st_window ` set sts \<Longrightarrow> fold (\<lambda>st ws. close_window (st_window st) ws) sts wins win = wins win"
  by (induction sts arbitrary: wins) (auto simp: close_window_def)

lemma shutdown_props:
  assumes "worker_shutdown (w, wins, effs) = (w', wins', effs')" "distinct (map fst (streams w))"
  shows "w' = worker_new" "\<And>win. win \<in> win_refs w \<Longrightarrow> is_closed (wins' win)"
    "\<And>sid rid. reply_of w sid = Some rid \<Longrightarrow> Reply rid (Err MuxClosed) \<in> set effs'"
    "\<And>win. win \<notin> win_refs w \<Longrightarrow> wins' win = wins win"
  using assms fold_close_closed [of wins _ "map snd (streams w)"] fold_close_other [of _ "map snd (streams w)" wins]
  by (force simp: worker_shutdown_def win_refs_list reply_of_def dest: map_of_SomeD)+

text \<open>
  The fate of a registered window in one step: it stays registered, or it is closed, unless the
  worker abandons it.  It does so with the window of a stream whose receiver is gone when DATA for it
  arrives: the entry is removed and the window is not closed.
\<close>

definition abandons :: "worker \<Rightarrow> worker_input \<Rightarrow> win_id option" where
  "abandons w inp =
     (case inp of
        InFrame (Data s payload fin) SendClosed ok \<Rightarrow>
          (case map_of (streams w) s of
             Some st \<Rightarrow> if payload = [] \<or> data_tx st = None then None else Some (st_window st)
           | None \<Rightarrow> None)
      | _ \<Rightarrow> None)"

text \<open>The windows that a run abandons, in order.\<close>

primrec abandoned :: "u32 \<Rightarrow> worker_input list \<Rightarrow> worker_out \<Rightarrow> win_id list" where
  "abandoned iws [] out = []"
| "abandoned iws (i # rest) out =
     (case abandons (fst out) i of None \<Rightarrow> [] | Some win \<Rightarrow> [win]) @ abandoned iws rest (worker_step iws i out)"

lemma abandoned_iff:
  "win \<in> set (abandoned iws inps out) \<longleftrightarrow> (\<exists>before i after. inps = before @ i # after \<and>
     abandons (fst (worker_run iws before out)) i = Some win)"
proof (induction inps arbitrary: out)
  case (Cons j rest)
  show ?case
  proof
    assume "win \<in> set (abandoned iws (j # rest) out)"
    then consider "abandons (fst out) j = Some win" | "win \<in> set (abandoned iws rest (worker_step iws j out))"
      by (auto split: option.splits)
    then show "\<exists>before i after. j # rest = before @ i # after \<and>
        abandons (fst (worker_run iws before out)) i = Some win"
    proof cases
      case 1
      then show ?thesis by (intro exI [of _ "[]"]) (simp add: worker_run_def)
    next
      case 2
      then obtain before i after where "rest = before @ i # after"
        "abandons (fst (worker_run iws before (worker_step iws j out))) i = Some win"
        using Cons.IH by blast
      then show ?thesis by (intro exI [of _ "j # before"]) (simp add: worker_run_Cons)
    qed
  next
    assume "\<exists>before i after. j # rest = before @ i # after \<and>
        abandons (fst (worker_run iws before out)) i = Some win"
    then obtain before i after where b: "j # rest = before @ i # after"
      "abandons (fst (worker_run iws before out)) i = Some win" by blast
    then show "win \<in> set (abandoned iws (j # rest) out)"
      using Cons.IH [of "worker_step iws j out"]
      by (cases before) (auto simp: worker_run_def)
  qed
qed simp

lemma dispatch_payload_kept:
  assumes "dispatch_payload iws s payload sent ok w = (w', effs, ret)"
    "sent = SendClosed \<Longrightarrow> s = sid \<Longrightarrow> data_tx st = None" "stream_of w sid = Some st"
  shows "\<exists>st'. stream_of w' sid = Some st' \<and> st_window st' = st_window st"
  using assms
  by (auto simp: dispatch_payload_def stream_of_def split: option.splits send_result.splits prod.splits)

lemma dispatch_data_kept:
  assumes "dispatch_data iws s payload fin sent ok w = (w', effs)"
    "sent = SendClosed \<Longrightarrow> payload \<noteq> [] \<Longrightarrow> s = sid \<Longrightarrow> data_tx st = None" "stream_of w sid = Some st"
  shows "\<exists>st'. stream_of w' sid = Some st' \<and> st_window st' = st_window st"
proof -
  obtain w1 effs1 ret where p: "(if payload \<noteq> [] then dispatch_payload iws s payload sent ok w
      else (w, [], False)) = (w1, effs1, ret)" by (metis prod_cases3)
  then obtain st1 where "stream_of w1 sid = Some st1" "st_window st1 = st_window st"
    using dispatch_payload_kept [of iws s payload sent ok w w1 effs1 ret sid st] assms(2,3)
    by (auto split: if_splits)
  then show ?thesis
    using assms(1) p half_close_props(1) [of s w1] by (auto simp: dispatch_data_def)
qed

lemma dispatch_fate:
  assumes d: "dispatch_frame_in_worker iws f sent ok w wins = (w', wins', new)"
    and st: "stream_of w sid = Some st" and gone: "abandons w (InFrame f sent ok) \<noteq> Some (st_window st)"
  shows "st_window st \<in> win_refs w' \<or> is_closed (wins' (st_window st))"
proof (cases f)
  case (Data s payload fin)
  then have "dispatch_data iws s payload fin sent ok w = (w', new)"
    "data_tx st = None" if "sent = SendClosed" "payload \<noteq> []" "s = sid"
    using d gone st that by (auto simp: dispatch_frame_in_worker_def abandons_def stream_of_def split: prod.splits if_splits)
  moreover have "dispatch_data iws s payload fin sent ok w = (w', new)"
    using d Data by (auto simp: dispatch_frame_in_worker_def split: prod.splits)
  ultimately show ?thesis using dispatch_data_kept [of iws s payload fin sent ok w w' new sid st] st by (metis win_refsI)
next
  case (SynReply s hs fin)
  then have "dispatch_syn_reply s fin w = (w', new)"
    using d by (auto simp: dispatch_frame_in_worker_def split: prod.splits)
  from dispatch_syn_reply_props(1) [OF this] obtain w1 where
    w1: "streams w1 = streams w" "w' = (if fin then half_close s w1 else w1)" by blast
  then have "\<exists>st'. stream_of w' sid = Some st' \<and> st_window st' = st_window st"
    using st half_close_props(1) [of s w1] by (auto simp: stream_of_def)
  then show ?thesis by (metis win_refsI)
next
  case (RstStream s status)
  obtain w1 wins1 where rc: "remove_and_close s (w, wins) = (w1, wins1)" by force
  obtain w2 reply where tr: "take_reply s (Err (StreamReset s status)) w1 = (w2, reply)" by force
  have eq: "w' = w2" "wins' = wins1" using d RstStream rc tr
    by (auto simp: dispatch_frame_in_worker_def dispatch_rst_stream_def)
  show ?thesis
  proof (cases "s = sid")
    case True
    then show ?thesis using eq st remove_and_close_props(3) [OF rc] by (simp add: close_window_def)
  next
    case False
    then have "stream_of w' sid = Some st"
      using eq st remove_and_close_props(1) [OF rc] take_reply_props(1) [OF tr] by (simp add: stream_of_def)
    then show ?thesis by (metis win_refsI)
  qed
qed (use d st win_refsI [OF st] in \<open>auto simp: dispatch_frame_in_worker_def split: option.splits\<close>)

lemma registration_fate:
  assumes r: "apply_registration reg w wins = (w', wins', new)"
    and st: "stream_of w sid = Some st" and no: "\<not> opens sid (InReg reg)"
  shows "st_window st \<in> win_refs w' \<or> is_closed (wins' (st_window st))"
proof (cases reg)
  case (RegOpen s ch rid win)
  then have "stream_of w' sid = Some st"
    using assms by (auto simp: apply_registration_def stream_of_def opens_def)
  then show ?thesis by (metis win_refsI)
next
  case (RegClose s)
  obtain w1 wins1 where rc: "remove_and_close s (w, wins) = (w1, wins1)" by force
  then have "stream_of w' = stream_of w1" "wins' = wins1"
    using r RegClose by (auto simp: apply_registration_def stream_of_def)
  then show ?thesis
    using remove_and_close_props(1,3) [OF rc] st win_refsI [of w' sid st]
    by (cases "s = sid") (auto simp: close_window_def)
next
  case (RegGoAway lg status)
  then have f: "fold (goaway_stream lg status) (bad_ids lg w) (w, wins, []) = (w', wins', new)"
    using r by (simp add: apply_registration_def)
  show ?thesis
  proof (cases "sid \<in> set (bad_ids lg w)")
    case True
    then have "owned_by w (set (bad_ids lg w)) (st_window st)" using st by (auto simp: owned_by_def)
    then show ?thesis using goaway_fold_windows [OF f, of "st_window st"] by simp
  next
    case False
    then have "stream_of w' sid = Some st" using goaway_fold_props [OF f] st by simp
    then show ?thesis by (metis win_refsI)
  qed
qed (use r win_refsI [OF st] in \<open>auto simp: apply_registration_def\<close>)

lemma step_fate:
  assumes "worker_step iws inp (w, wins, effs) = (w', wins', effs')" "win \<in> win_refs w"
    "abandons w inp \<noteq> Some win" "\<And>sid. opens sid inp \<Longrightarrow> stream_of w sid = None"
  shows "win \<in> win_refs w' \<or> is_closed (wins' win)"
proof -
  obtain sid st where st: "stream_of w sid = Some st" "win = st_window st"
    using assms(2) by (rule win_refsE)
  then have no: "\<not> opens sid inp" using assms(4) by force
  from assms(1) show ?thesis
  proof (cases rule: worker_stepE)
    case (reg reg new)
    then show ?thesis using registration_fate [OF reg(2) st(1)] no st(2) by simp
  next
    case (frame f sent ok new)
    then show ?thesis using dispatch_fate [OF frame(2) st(1)] assms(3) st(2) by simp
  qed
qed

text \<open>The identifiers that a run opens are new and distinct, as the handle allocates them.\<close>

definition opened_ids :: "worker_input list \<Rightarrow> u32 list" where
  "opened_ids inps =
     concat (map (\<lambda>i. case i of InReg (RegOpen sid ch rid win) \<Rightarrow> [sid] | _ \<Rightarrow> []) inps)"

lemma opened_ids_simps [simp]:
  "opened_ids [] = []" "opened_ids (xs @ ys) = opened_ids xs @ opened_ids ys"
  by (simp_all add: opened_ids_def)

lemma opened_ids_Cons: "opened_ids (i # xs) = opened_ids [i] @ opened_ids xs"
  by (simp add: opened_ids_def)

lemma in_opened_ids: "sid \<in> set (opened_ids [i]) \<longleftrightarrow> opens sid i"
  by (auto simp: opened_ids_def opens_def split: worker_input.splits stream_registration.splits)

definition fresh_ids :: "worker \<Rightarrow> worker_input list \<Rightarrow> bool" where
  "fresh_ids w inps \<longleftrightarrow> distinct (opened_ids inps) \<and> (\<forall>sid\<in>set (opened_ids inps). stream_of w sid = None)"

lemma fresh_ids_Cons:
  assumes "fresh_ids w (i # rest)" "worker_step iws i (w, wins, effs) = (w', wins', effs')"
  shows "opens sid i \<Longrightarrow> stream_of w sid = None" "fresh_ids w' rest"
proof -
  show "opens sid i \<Longrightarrow> stream_of w sid = None"
    using assms(1) by (auto simp: fresh_ids_def opened_ids_Cons [of i rest] in_opened_ids)
  show "fresh_ids w' rest"
    unfolding fresh_ids_def
  proof (intro conjI ballI)
    show "distinct (opened_ids rest)"
      using assms(1) by (simp add: fresh_ids_def opened_ids_Cons [of i rest])
    fix sid assume "sid \<in> set (opened_ids rest)"
    moreover from this have "\<not> opens sid i"
      using assms(1) by (auto simp: fresh_ids_def opened_ids_Cons [of i rest] simp flip: in_opened_ids)
    ultimately show "stream_of w' sid = None"
      using assms(1) step_unregistered [OF assms(2)]
      by (simp add: fresh_ids_def opened_ids_Cons [of i rest])
  qed
qed

lemma run_fate:
  assumes "worker_run iws inps (w, wins, effs) = (w', wins', effs')" "worker_inv w"
    "fresh_windows w inps" "fresh_ids w inps" "win \<notin> set (abandoned iws inps (w, wins, effs))"
    "win \<in> win_refs w \<or> win \<in> set (opened_wins inps) \<or> is_closed (wins win)"
  shows "win \<in> win_refs w' \<or> is_closed (wins' win)"
  using assms
proof (induction inps arbitrary: w wins effs)
  case (Cons i rest)
  obtain w1 wins1 effs1 where s: "worker_step iws i (w, wins, effs) = (w1, wins1, effs1)"
    by (metis prod_cases3)
  note fw = fresh_windows_Cons [OF Cons.prems(3) s] and fi = fresh_ids_Cons [OF Cons.prems(4) s]
  have inv1: "worker_inv w1" by (rule step_inv [OF s Cons.prems(2) fw(1)])
  have "win \<in> win_refs w1 \<or> win \<in> set (opened_wins rest) \<or> is_closed (wins1 win)"
  proof -
    consider (ref) "win \<in> win_refs w" | (new) "win \<in> set (opened_wins [i])"
      | (later) "win \<in> set (opened_wins rest)" | (closed) "win \<notin> win_refs w" "is_closed (wins win)"
      using Cons.prems(6) by (auto simp: opened_wins_Cons [of i rest])
    then show ?thesis
    proof cases
      case ref
      then show ?thesis using step_fate [OF s ref _ fi(1)] Cons.prems(5) by auto
    next
      case new
      then obtain sid ch rid where "i = InReg (RegOpen sid ch rid win)"
        by (auto simp: opened_wins_def split: worker_input.splits stream_registration.splits)
      then have "stream_of w1 sid = Some \<lparr>data_tx = Some ch, st_window = win, consumed_since_update = 0\<rparr>"
        using s by (auto simp: worker_step_def apply_registration_def stream_of_def)
      from win_refsI [OF this] show ?thesis by simp
    next
      case closed
      then show ?thesis
        using step_windows [OF s closed(1)] Cons.prems(2) by (simp add: worker_inv_def)
    qed simp
  qed
  then show ?case
    using Cons.IH [of w1 wins1 effs1] Cons.prems s inv1 fw(2) fi(2) by (simp add: worker_run_Cons)
qed auto

text \<open>The inputs of the rounds up to the one that ends the task.\<close>

primrec rounds_inputs :: "worker_round list \<Rightarrow> worker_input list" where
  "rounds_inputs [] = []"
| "rounds_inputs (r # rs) = round_inputs r @ (if round_breaks r then [] else rounds_inputs rs)"

lemma run_frame_worker_ends:
  assumes "run_frame_worker iws rounds out = Inl out'"
  shows "out' = worker_shutdown (worker_run iws (rounds_inputs rounds) out)"
  using assms
  by (induction rounds arbitrary: out) (auto simp: Let_def worker_run_append split: if_splits)

section \<open>Properties\<close>

text \<open>
  C7.  Per-stream flow control is exact.  From the registration of a stream on, whatever else the
  worker handles and whichever \<open>try_send\<close>s fail, as long as the peer respects the window the bytes
  delivered to the stream's channel are the credit returned to the peer in WINDOW_UPDATEs plus the
  count \<open>consumed_since_update\<close> that the worker still holds.
\<close>

theorem worker_stream_credit_exact:
  assumes "worker_run iws inps (worker_step iws (InReg (RegOpen sid ch rid win)) (w, wins, [])) = (w', wins', effs')"
    and "list_all (\<lambda>i. \<not> opens sid i) inps" and "map_of (streams w') sid = Some st'"
    and "peer_within iws sid inps (worker_step iws (InReg (RegOpen sid ch rid win)) (w, wins, []))"
  shows "returned sid effs' + unat (consumed_since_update st') = delivered sid effs'"
proof -
  obtain w1 where s: "worker_step iws (InReg (RegOpen sid ch rid win)) (w, wins, []) = (w1, wins, [])"
    "stream_of w1 sid = Some \<lparr>data_tx = Some ch, st_window = win, consumed_since_update = 0\<rparr>"
    by (simp add: worker_step_def apply_registration_def stream_of_def)
  then show ?thesis
    using run_account [OF s(2) _ _ _ _ assms(2) _ , of "[]" iws wins w' wins' effs' st'] assms(1,3,4)
    by (simp add: stream_of_def)
qed

text \<open>A stream with a window of four bytes gets three of them, and the worker returns the credit.\<close>

lemma credit_example:
  "worker_run 4 [InFrame (Data 1 [7, 8, 9] False) SendOk True]
     (worker_step 4 (InReg (RegOpen 1 0 0 0)) (worker_new, \<lambda>_. sw_new 4, [])) =
   (\<lparr>streams = [(1, \<lparr>data_tx = Some 0, st_window = 0, consumed_since_update = 0\<rparr>)], pending_replies = [(1, 0)]\<rparr>,
    \<lambda>_. sw_new 4, [Deliver 1 0 [7, 8, 9], ToWindow (EncodeWindowUpdate 1 3)])"
  by (simp add: worker_run_def worker_step_def apply_registration_def worker_new_def dispatch_frame_in_worker_def
      dispatch_data_def dispatch_payload_def stream_credit_def update_effect_def)

theorem worker_stream_credit_exact_witness:
  "returned 1 [Deliver 1 0 [7, 8, 9], ToWindow (EncodeWindowUpdate 1 3)] + 0
    = delivered 1 [Deliver 1 0 [7, 8, 9], ToWindow (EncodeWindowUpdate 1 3)]"
  using worker_stream_credit_exact [OF credit_example]
  by (simp add: opens_def peer_within_def run_log_def credit_example)

text \<open>
  C8.  Poisoning is final.  When a registered stream is reset by the peer, closed by the client, or
  cut off by a GOAWAY, its send window is closed at once, and it is still closed after any further
  frames and registrations the worker handles, none of which registers that window again.
\<close>

theorem worker_poison_is_final:
  assumes inv: "worker_inv w" and st: "map_of (streams w) sid = Some st"
    and ends: "inp = InFrame (RstStream sid status) sent ok \<or> inp = InReg (RegClose sid) \<or>
      (inp = InReg (RegGoAway last_good status) \<and> last_good < sid)"
    and run: "worker_run iws (inp # later) (w, wins, effs) = (w', wins', effs')"
    and fresh: "st_window st \<notin> set (opened_wins later)"
  shows "is_closed (wins' (st_window st))"
proof -
  obtain w1 wins1 effs1 where s: "worker_step iws inp (w, wins, effs) = (w1, wins1, effs1)"
    by (metis prod_cases3)
  have so: "stream_of w sid = Some st" using st by (simp add: stream_of_def)
  have gone: "stream_of w1 sid = None"
    using s ends so by (elim disjE conjE; simp add: worker_step_def apply_registration_def
        dispatch_frame_in_worker_def dispatch_rst_stream_def split: prod.splits)
      (use so in \<open>auto dest!: remove_and_close_props(1) take_reply_props(1) goaway_fold_props
         simp: stream_of_def in_bad_ids\<close>)
  have no: "opened_wins [inp] = []" using ends by (auto simp: opened_wins_def)
  have "st_window st \<notin> win_refs w1"
  proof
    assume "st_window st \<in> win_refs w1"
    then obtain t tt where t: "stream_of w1 t = Some tt" "st_window st = st_window tt" by (rule win_refsE)
    from step_streams [OF s t(1)] ends obtain t0 where "stream_of w t = Some t0" "st_window tt = st_window t0"
      by auto
    then have "t = sid" using inv so t(2) by (metis worker_inv_def inj_windows_def)
    then show False using gone t(1) by simp
  qed
  moreover have "is_closed (wins1 (st_window st))"
    using step_fate [OF s win_refsI [OF so]] calculation ends
    by (auto simp: abandons_def opens_def)
  moreover have "worker_inv w1" by (rule step_inv [OF s inv]) (simp add: no)
  ultimately show ?thesis
    using run_window_untouched [of iws later w1 wins1 effs1 w' wins' effs'] run fresh s
    by (simp add: worker_run_Cons worker_inv_def)
qed

lemma inv_example:
  "worker_inv \<lparr>streams = [(1, \<lparr>data_tx = Some 0, st_window = 0, consumed_since_update = 0\<rparr>)],
     pending_replies = [(1, 0)]\<rparr>"
  by (simp add: worker_inv_def inj_windows_def stream_of_def)

theorem worker_poison_is_final_witness:
  "is_closed ((fst \<circ> snd) (worker_run 4
     [InFrame (RstStream 1 5) SendOk True, InFrame (WindowUpdate 1 100) SendOk True, InReg (SettingsWindowDelta 7)]
     (\<lparr>streams = [(1, \<lparr>data_tx = Some 0, st_window = 0, consumed_since_update = 0\<rparr>)], pending_replies = [(1, 0)]\<rparr>,
      \<lambda>_. sw_new 4, [])) 0)"
proof -
  let ?w = "\<lparr>streams = [(1, \<lparr>data_tx = Some 0, st_window = 0, consumed_since_update = 0\<rparr>)], pending_replies = [(1, 0)]\<rparr>"
  let ?later = "[InFrame (WindowUpdate 1 100) SendOk True, InReg (SettingsWindowDelta 7)]"
  obtain w' wins' effs' where
    r: "worker_run 4 (InFrame (RstStream 1 5) SendOk True # ?later) (?w, \<lambda>_. sw_new 4, []) = (w', wins', effs')"
    by (metis prod_cases3)
  have "is_closed (wins' (st_window \<lparr>data_tx = Some 0, st_window = 0, consumed_since_update = 0\<rparr>))"
    by (rule worker_poison_is_final [OF inv_example _ _ r, where sid = 1 and status = 5 and sent = SendOk and ok = True])
      (simp_all add: opened_wins_def)
  then show ?thesis using r by simp
qed

text \<open>A window that is abandoned belongs to no stream any more, so the worker never touches it again.\<close>

lemma step_abandons:
  assumes s: "worker_step iws inp (w, wins, effs) = (w', wins', effs')"
    and inv: "worker_inv w" and a: "abandons w inp = Some win"
  shows "win \<notin> win_refs w'" "wins' win = wins win"
proof -
  obtain sid payload fin ok st where i: "inp = InFrame (Data sid payload fin) SendClosed ok"
    and st: "stream_of w sid = Some st" "payload \<noteq> []" "data_tx st \<noteq> None" "win = st_window st"
    using a by (auto simp: abandons_def stream_of_def split: worker_input.splits frame.splits send_result.splits
        option.splits if_splits)
  then have w': "stream_of w' = (stream_of w)(sid := None)" "wins' = wins"
    using s by (auto simp: worker_step_def dispatch_frame_in_worker_def dispatch_data_def dispatch_payload_def
        stream_of_def split: option.splits)
  show "win \<notin> win_refs w'"
  proof
    assume "win \<in> win_refs w'"
    then obtain t tt where "stream_of w' t = Some tt" "win = st_window tt" by (rule win_refsE)
    then have "t \<noteq> sid" "stream_of w t = Some tt" "st_window tt = st_window st"
      using w' st(4) by (auto split: if_splits)
    then show False using inv st(1) by (metis worker_inv_def inj_windows_def)
  qed
  show "wins' win = wins win" using w'(2) by simp
qed

lemma fresh_windows_append:
  assumes "fresh_windows w (before @ rest)" "worker_run iws before (w, wins, effs) = (w1, wins1, effs1)" "worker_inv w"
  shows "worker_inv w1 \<and> fresh_windows w1 rest"
  using assms
proof (induction before arbitrary: w wins effs)
  case (Cons i before)
  obtain w2 wins2 effs2 where s: "worker_step iws i (w, wins, effs) = (w2, wins2, effs2)" by (metis prod_cases3)
  have "fresh_windows w (i # before @ rest)" using Cons.prems(1) by simp
  note fw = fresh_windows_Cons [OF this s]
  show ?case
    by (rule Cons.IH [OF fw(2) _ step_inv [OF s Cons.prems(3) fw(1)]])
      (use Cons.prems(2) s in \<open>simp add: worker_run_Cons\<close>)
qed simp

lemma run_abandoned:
  assumes run: "worker_run iws (before @ i # after) (w, wins, effs) = (w', wins', effs')"
    and inv: "worker_inv w" and fresh: "fresh_windows w (before @ i # after)"
    and a: "abandons (fst (worker_run iws before (w, wins, effs))) i = Some win"
  shows "win \<notin> win_refs w' \<and> wins' win = fst (snd (worker_run iws before (w, wins, effs))) win"
proof -
  obtain w1 wins1 effs1 where r1: "worker_run iws before (w, wins, effs) = (w1, wins1, effs1)"
    by (metis prod_cases3)
  obtain w2 wins2 effs2 where s: "worker_step iws i (w1, wins1, effs1) = (w2, wins2, effs2)"
    by (metis prod_cases3)
  have fw1: "worker_inv w1" "fresh_windows w1 (i # after)" using fresh_windows_append [OF fresh r1 inv] by simp_all
  have a1: "abandons w1 i = Some win" using a r1 by simp
  note ab = step_abandons [OF s fw1(1) a1]
  have inv2: "worker_inv w2" by (rule step_inv [OF s fw1(1) fresh_windows_Cons(1) [OF fw1(2) s]])
  have r2: "worker_run iws after (w2, wins2, effs2) = (w', wins', effs')"
    using run r1 s by (simp add: worker_run_append worker_run_Cons)
  obtain sid st where "stream_of w1 sid = Some st" "win = st_window st"
    using a1 by (auto simp: abandons_def stream_of_def split: worker_input.splits frame.splits send_result.splits
        option.splits if_splits)
  then have "win \<in> win_refs w1" by (metis win_refsI)
  then have no: "win \<notin> set (opened_wins after)"
    using fw1(2) by (auto simp: fresh_windows_def opened_wins_Cons [of i after])
  have "wins' win = wins1 win"
    using run_window_untouched [OF r2 _ _ ab(1) no] inv2 ab(2) by (simp add: worker_inv_def)
  moreover have "win \<notin> win_refs w'" by (rule run_refs [OF r2 ab(1) no])
  ultimately show ?thesis using r1 by simp
qed

lemma worker_end_closes:
  assumes "run_frame_worker iws rounds (worker_new, wins, []) = Inl (w', wins', effs')"
    and "fresh_windows worker_new (rounds_inputs rounds)" and "fresh_ids worker_new (rounds_inputs rounds)"
    and "win \<in> set (opened_wins (rounds_inputs rounds))"
  shows "win \<notin> set (abandoned iws (rounds_inputs rounds) (worker_new, wins, [])) \<Longrightarrow> is_closed (wins' win)"
    and "rounds_inputs rounds = before @ i # after \<Longrightarrow>
      abandons (fst (worker_run iws before (worker_new, wins, []))) i = Some win \<Longrightarrow>
      wins' win = fst (snd (worker_run iws before (worker_new, wins, []))) win"
    and "w' = worker_new \<and>
      (\<forall>(sid, rid)\<in>set (pending_replies (fst (worker_run iws (rounds_inputs rounds) (worker_new, wins, [])))).
         Reply rid (Err MuxClosed) \<in> set effs')"
proof -
  obtain w1 wins1 effs1 where r:
    "worker_run iws (rounds_inputs rounds) (worker_new, wins, []) = (w1, wins1, effs1)" by (metis prod_cases3)
  have sd: "worker_shutdown (w1, wins1, effs1) = (w', wins', effs')"
    using run_frame_worker_ends [OF assms(1)] r by simp
  have inv: "worker_inv w1" by (rule run_inv [OF r worker_inv_new assms(2)])
  then have "distinct (map fst (streams w1))" by (simp add: worker_inv_def)
  note P = shutdown_props [OF sd this]
  show "is_closed (wins' win)" if "win \<notin> set (abandoned iws (rounds_inputs rounds) (worker_new, wins, []))"
  proof -
    have "win \<in> win_refs w1 \<or> is_closed (wins1 win)"
      by (rule run_fate [OF r worker_inv_new assms(2,3) that]) (use assms(4) in simp)
    then show ?thesis
      using P(2) fold_close_closed [of wins1 win "map snd (streams w1)"] sd by (auto simp: worker_shutdown_def)
  qed
  show "wins' win = fst (snd (worker_run iws before (worker_new, wins, []))) win"
    if "rounds_inputs rounds = before @ i # after"
      "abandons (fst (worker_run iws before (worker_new, wins, []))) i = Some win"
    using run_abandoned [OF _ worker_inv_new _ that(2)] r assms(2) that(1) P(4) by fastforce
  show "w' = worker_new \<and>
      (\<forall>(sid, rid)\<in>set (pending_replies (fst (worker_run iws (rounds_inputs rounds) (worker_new, wins, [])))).
         Reply rid (Err MuxClosed) \<in> set effs')"
    using P(1,3) r inv by (auto simp: reply_of_def worker_inv_def)
qed

lemma worker_end_windows:
  assumes "run_frame_worker iws rounds (worker_new, wins, []) = Inl (w', wins', effs')"
    and "fresh_windows worker_new (rounds_inputs rounds)" and "fresh_ids worker_new (rounds_inputs rounds)"
    and "win \<in> set (opened_wins (rounds_inputs rounds))"
  shows "if win \<notin> set (abandoned iws (rounds_inputs rounds) (worker_new, wins, [])) then is_closed (wins' win)
      else \<exists>before i after. rounds_inputs rounds = before @ i # after \<and>
        abandons (fst (worker_run iws before (worker_new, wins, []))) i = Some win \<and>
        wins' win = fst (snd (worker_run iws before (worker_new, wins, []))) win"
  using worker_end_closes(1,2) [OF assms] abandoned_iff [of win iws "rounds_inputs rounds" "(worker_new, wins, [])"]
  by (cases "win \<in> set (abandoned iws (rounds_inputs rounds) (worker_new, wins, []))") (simp, blast, simp)

text \<open>
  C9.  The end of a worker.  When its loop ends, however that happens, every pending reply has been
  answered with \<open>MuxClosed\<close>, and the send window of every stream it was ever given is closed, so that a
  blocked writer sees \<open>BrokenPipe\<close>, except the windows that it abandoned.  Those are the windows of the
  streams for which DATA arrived after their receiver had gone: from then on the worker does not touch
  them, and at its end each is as it was at that moment, not closed if it was open.
\<close>

theorem worker_end_closes_everything:
  assumes "run_frame_worker iws rounds (worker_new, wins, []) = Inl (w', wins', effs')"
    and "fresh_windows worker_new (rounds_inputs rounds)" and "fresh_ids worker_new (rounds_inputs rounds)"
    and "win \<in> set (opened_wins (rounds_inputs rounds))"
  shows "(if win \<notin> set (abandoned iws (rounds_inputs rounds) (worker_new, wins, [])) then is_closed (wins' win)
      else \<exists>before i after. rounds_inputs rounds = before @ i # after \<and>
        abandons (fst (worker_run iws before (worker_new, wins, []))) i = Some win \<and>
        wins' win = fst (snd (worker_run iws before (worker_new, wins, []))) win) \<and>
    w' = worker_new \<and>
    (\<forall>(sid, rid)\<in>set (pending_replies (fst (worker_run iws (rounds_inputs rounds) (worker_new, wins, [])))).
       Reply rid (Err MuxClosed) \<in> set effs')"
  using worker_end_windows [OF assms] worker_end_closes(3) [OF assms] by (rule conjI)

text \<open>Two streams; the receiver of the second is gone when its DATA arrives, and its window stays open.\<close>

theorem worker_end_closes_everything_witness:
  "let wins' = (fst \<circ> snd) (case run_frame_worker 4
      [\<lparr>drained_close = [], drained_reg = [RegOpen 1 0 0 3], selected = WReg (Some (RegOpen 6 1 1 4))\<rparr>,
       \<lparr>drained_close = [], drained_reg = [], selected = WFrame (Some (Data 6 [7] False, SendClosed, True))\<rparr>,
       \<lparr>drained_close = [], drained_reg = [], selected = WCancelled\<rparr>]
      (worker_new, \<lambda>_. sw_new 4, []) of Inl out \<Rightarrow> out | Inr out \<Rightarrow> out)
   in is_closed (wins' 3) \<and> \<not> is_closed (wins' 4)"
proof -
  define rs where "rs = [\<lparr>drained_close = [], drained_reg = [RegOpen 1 0 0 3], selected = WReg (Some (RegOpen 6 1 1 4))\<rparr>,
       \<lparr>drained_close = [], drained_reg = [], selected = WFrame (Some (Data 6 [7] False, SendClosed, True))\<rparr>,
       \<lparr>drained_close = [], drained_reg = [], selected = WCancelled\<rparr>]"
  let ?out = "(worker_new, \<lambda>_. sw_new 4, []) :: worker_out"
  obtain w' wins' effs' where r: "run_frame_worker 4 rs ?out = Inl (w', wins', effs')"
    by (simp add: rs_def Let_def round_breaks_def select_input_def) (metis prod_cases3)
  have i: "rounds_inputs rs =
      [InReg (RegOpen 1 0 0 3), InReg (RegOpen 6 1 1 4), InFrame (Data 6 [7] False) SendClosed True]"
    by (simp add: rs_def round_breaks_def select_input_def round_inputs_def)
  have f: "fresh_windows worker_new (rounds_inputs rs)" "fresh_ids worker_new (rounds_inputs rs)"
    "set (opened_wins (rounds_inputs rs)) = {3, 4}" unfolding i
    by (auto simp: fresh_windows_def fresh_ids_def opened_wins_def opened_ids_def win_refs_def)
  have a: "abandoned 4 (rounds_inputs rs) ?out = [4]" unfolding i
    by (simp add: abandons_def worker_step_def apply_registration_def worker_new_def)
  have kept: "\<not> is_closed (fst (snd (worker_run 4 before ?out)) win)"
    if "rounds_inputs rs = before @ j # after" for before j after win
    using that unfolding i by (auto simp: Cons_eq_append_conv worker_run_def worker_step_def
        apply_registration_def worker_new_def is_closed_def sw_new_def I64_MIN_def)
  have "is_closed (wins' 3)" using worker_end_closes_everything [OF r f(1,2), of 3] f(3) a by simp
  moreover have "\<not> is_closed (wins' 4)"
    using worker_end_closes_everything [OF r f(1,2), of 4] f(3) a kept by fastforce
  ultimately show ?thesis using r by (simp add: rs_def)
qed

end
