(* ===== verification/Writer.thy ===== *)
theory Writer
  imports Codec Commands "HOL-Library.Monad_Syntax"
begin

text \<open>
  The writer task (\<^verbatim>\<open>crates/spdy-mux/src/mux/writer.rs\<close>): it owns the compressor half of the codec and
  the WebSocket writer, encodes the commands of its three channels in priority order, flushes at
  the end of a batch, and then tells the workers which streams it has reset.

  The WebSocket writer is a transport of another crate.  The outcome of its \<open>k\<close>-th call
  (\<open>write_binary\<close>, \<open>write_pong\<close> or \<open>flush\<close>, each under \<open>tokio::time::timeout\<close>) is \<open>io k\<close>; \<open>wire\<close> lists what it
  accepted and \<open>flushed\<close> how much of that the last successful flush covered.  What the channels hold is
  part of an event: the command that \<open>recv\<close> returns and the further ones \<open>try_recv\<close> would return.
  \<open>batch_start\<close> is only ever written in the source and is left out.
\<close>

datatype io_outcome = IoOk | IoError | IoTimeout

datatype wire_item = WireBinary "byte list" | WirePong "byte list"

record writer_config =
  wc_initial_window_size :: u32
  wc_max_concurrent_streams :: u32
  wc_ping_interval :: duration
  wc_write_timeout :: duration
  wc_max_frame_size :: u32

record ('zc, 'zd) writer_state =
  wr_codec :: "('zc, 'zd) spdy_codec"
  wire :: "wire_item list"
  flushed :: nat
  io_calls :: nat
  pending_closes :: "u32 list"
  bytes_since_flush :: nat
  keepalive_id :: u32
  last_writer_progress :: nat

type_synonym write_io = "nat \<Rightarrow> io_outcome"

section \<open>One command\<close>

text \<open>\<open>write_with_timeout!\<close>: the state after the call, and whether it succeeded.\<close>

definition write_item ::
  "write_io \<Rightarrow> wire_item \<Rightarrow> ('zc, 'zd) writer_state \<Rightarrow> ('zc, 'zd) writer_state \<times> bool" where
  "write_item io item st =
     (let st1 = st\<lparr>io_calls := io_calls st + 1\<rparr> in
      if io (io_calls st) = IoOk then (st1\<lparr>wire := wire st @ [item]\<rparr>, True) else (st1, False))"

definition flush_wire :: "write_io \<Rightarrow> ('zc, 'zd) writer_state \<Rightarrow> ('zc, 'zd) writer_state \<times> bool" where
  "flush_wire io st =
     (let st1 = st\<lparr>io_calls := io_calls st + 1\<rparr> in
      if io (io_calls st) = IoOk then (st1\<lparr>flushed := length (wire st)\<rparr>, True) else (st1, False))"

text \<open>The commands that are one SPDY frame each; the others are handled inline by the caller.\<close>

definition encode_command :: "mux_command \<Rightarrow> byte list" where
  "encode_command cmd =
     (case cmd of
        SendData stream_id payload fin \<Rightarrow> encode_data stream_id payload fin
      | SendRawFrame fb \<Rightarrow> fb
      | EncodePing pid \<Rightarrow> encode_ping pid
      | EncodeWindowUpdate stream_id delta \<Rightarrow> encode_window_update stream_id delta
      | CmdGoAway last_good \<Rightarrow> encode_goaway last_good GOAWAY_STATUS_OK
      | _ \<Rightarrow> [])"

text \<open>A SYN_STREAM: \<open>None\<close> when the compressor does not return; otherwise had-error and bytes written.\<close>

definition write_syn ::
  "('zc, 'zd) flate2 \<Rightarrow> write_io \<Rightarrow> u32 \<Rightarrow> header list \<Rightarrow> ('zc, 'zd) writer_state
    \<Rightarrow> (('zc, 'zd) writer_state \<times> bool \<times> nat) option" where
  "write_syn z io sid headers st = do {
     (c, r) \<leftarrow> encode_syn_stream z (wr_codec st) sid headers False;
     Some (case r of
         Inl e \<Rightarrow> (st\<lparr>wr_codec := c\<rparr>, True, 0)
       | Inr fb \<Rightarrow>
           (let (st1, ok) = write_item io (WireBinary fb) (st\<lparr>wr_codec := c\<rparr>)
            in if ok then (st1, False, length fb) else (st1, True, 0)))
   }"

definition write_frame ::
  "write_io \<Rightarrow> byte list \<Rightarrow> ('zc, 'zd) writer_state \<Rightarrow> ('zc, 'zd) writer_state \<times> bool \<times> nat" where
  "write_frame io fb st =
     (let (st1, ok) = write_item io (WireBinary fb) st
      in if ok then (st1, False, length fb) else (st1, True, 0))"

definition write_open_pair ::
  "('zc, 'zd) flate2 \<Rightarrow> write_io \<Rightarrow> u32 \<Rightarrow> u32 \<Rightarrow> header list \<Rightarrow> header list \<Rightarrow> ('zc, 'zd) writer_state
    \<Rightarrow> (('zc, 'zd) writer_state \<times> bool \<times> nat) option" where
  "write_open_pair z io eid did eh dh st = do {
     (st1, err1, n1) \<leftarrow> write_syn z io eid eh st;
     if err1 then Some (st1, True, n1)
     else do {
       (st2, err2, n2) \<leftarrow> write_syn z io did dh st1;
       if err2 then Some (st2, True, n1 + n2)
       else (let (st3, err3, n3) = write_frame io (encode_data eid [] True) st2
             in Some (st3, err3, n1 + n2 + n3))
     }
   }"

definition write_pong ::
  "write_io \<Rightarrow> byte list \<Rightarrow> ('zc, 'zd) writer_state \<Rightarrow> ('zc, 'zd) writer_state \<times> bool \<times> nat" where
  "write_pong io payload st = (let (st1, ok) = write_item io (WirePong payload) st in (st1, \<not> ok, 0))"

definition write_close ::
  "write_io \<Rightarrow> u32 \<Rightarrow> u32 \<Rightarrow> ('zc, 'zd) writer_state \<Rightarrow> ('zc, 'zd) writer_state \<times> bool \<times> nat" where
  "write_close io stream_id status st =
     (let (st1, err, n) = write_frame io (encode_rst_stream stream_id status) st
      in if err then (st1, True, n) else (st1\<lparr>pending_closes := pending_closes st1 @ [stream_id]\<rparr>, False, n))"

definition process_writer_command ::
  "('zc, 'zd) flate2 \<Rightarrow> write_io \<Rightarrow> mux_command \<Rightarrow> ('zc, 'zd) writer_state
    \<Rightarrow> (('zc, 'zd) writer_state \<times> bool \<times> nat) option" where
  "process_writer_command z io cmd st =
     (case cmd of
        OpenStreamPair eid did eh dh \<Rightarrow> write_open_pair z io eid did eh dh st
      | SendWsPong payload \<Rightarrow> Some (write_pong io payload st)
      | CloseStream stream_id status \<Rightarrow> Some (write_close io stream_id status st)
      | _ \<Rightarrow> Some (write_frame io (encode_command cmd) st))"

section \<open>A batch\<close>

text \<open>\<open>bytes_since_flush += n\<close> after each command; the loop over further commands stops at an error.\<close>

definition process_counted ::
  "('zc, 'zd) flate2 \<Rightarrow> write_io \<Rightarrow> mux_command \<Rightarrow> ('zc, 'zd) writer_state
    \<Rightarrow> (('zc, 'zd) writer_state \<times> bool) option" where
  "process_counted z io cmd st = do {
     (st1, err, n) \<leftarrow> process_writer_command z io cmd st;
     Some (st1\<lparr>bytes_since_flush := bytes_since_flush st1 + n\<rparr>, err)
   }"

primrec process_batch ::
  "('zc, 'zd) flate2 \<Rightarrow> write_io \<Rightarrow> mux_command list \<Rightarrow> ('zc, 'zd) writer_state
    \<Rightarrow> (('zc, 'zd) writer_state \<times> bool) option" where
  "process_batch z io [] st = Some (st, False)"
| "process_batch z io (c # cs) st = do {
     (st1, err) \<leftarrow> process_counted z io c st;
     if err then Some (st1, True) else process_batch z io cs st1
   }"

definition OPPORTUNISTIC_CAP :: nat where "OPPORTUNISTIC_CAP = WRITE_BATCH_CAP - 1"

text \<open>The keepalive PING: written, but its bytes are not counted.\<close>

definition write_keepalive :: "write_io \<Rightarrow> ('zc, 'zd) writer_state \<Rightarrow> ('zc, 'zd) writer_state \<times> bool" where
  "write_keepalive io st =
     (let (st1, ok) = write_item io (WireBinary (encode_ping (keepalive_id st)))
                        (st\<lparr>keepalive_id := keepalive_id st + 2\<rparr>)
      in (st1, \<not> ok))"

text \<open>The end of a batch: flush when bytes were counted, then offer the deferred closes.\<close>

definition end_of_batch_flush ::
  "write_io \<Rightarrow> nat \<Rightarrow> ('zc, 'zd) writer_state \<Rightarrow> ('zc, 'zd) writer_state \<times> bool" where
  "end_of_batch_flush io now st =
     (if bytes_since_flush st > 0
      then (let (st1, ok) = flush_wire io st
            in if ok then (st1\<lparr>last_writer_progress := now, bytes_since_flush := 0\<rparr>, False) else (st1, True))
      else (st, False))"

text \<open>
  The loop over \<open>mem::take(&mut pending_closes)\<close>: the \<open>Close\<close> messages accepted, those to requeue, and
  whether a worker is gone; \<open>outcome k\<close> is the answer to the \<open>k\<close>-th \<open>try_send\<close>.
\<close>

primrec offer_closes ::
  "u32 list \<Rightarrow> (nat \<Rightarrow> send_result) \<Rightarrow> (nat \<times> stream_registration) list \<times> u32 list \<times> bool" where
  "offer_closes [] outcome = ([], [], False)"
| "offer_closes (sid # sids) outcome =
     (let (sent, requeued, err) = offer_closes sids (\<lambda>k. outcome (k + 1)) in
      case outcome 0 of
        SendOk \<Rightarrow> ((shard sid, RegClose sid) # sent, requeued, err)
      | SendFull \<Rightarrow> (sent, sid # requeued, err)
      | SendClosed \<Rightarrow> ([], [], True))"

section \<open>The task\<close>

text \<open>
  The branch of the \<open>select!\<close>: a \<open>None\<close> command is a closed channel; the lists are what \<open>try_recv\<close>
  would still yield on that channel.
\<close>

datatype writer_event =
    WEvCancelled
  | WEvWindow "mux_command option" "mux_command list"
  | WEvControl "mux_command option" "mux_command list"
  | WEvCmd "mux_command option" "mux_command list" "mux_command list"
  | WEvPing
  | WEvStall nat nat

datatype 'a writer_flow = WBreak 'a | WFlush 'a bool | WContinue 'a

definition writer_select ::
  "('zc, 'zd) flate2 \<Rightarrow> writer_config \<Rightarrow> write_io \<Rightarrow> writer_event \<Rightarrow> ('zc, 'zd) writer_state
    \<Rightarrow> ('zc, 'zd) writer_state writer_flow option" where
  "writer_select z cfg io ev st =
     (case ev of
        WEvCancelled \<Rightarrow> Some (WBreak st)
      | WEvWindow None more_win \<Rightarrow> Some (WBreak st)
      | WEvWindow (Some cmd) more_win \<Rightarrow> do {
          (st1, err) \<leftarrow> process_batch z io (cmd # more_win) st;
          Some (WFlush st1 err)
        }
      | WEvControl None more_ctrl \<Rightarrow> Some (WBreak st)
      | WEvControl (Some cmd) more_ctrl \<Rightarrow> do {
          (st1, err) \<leftarrow> process_batch z io (cmd # take OPPORTUNISTIC_CAP more_ctrl) st;
          Some (WFlush st1 err)
        }
      | WEvCmd None ctrls more_cmd \<Rightarrow> Some (WBreak st)
      | WEvCmd (Some cmd) ctrls more_cmd \<Rightarrow> do {
          (st1, err) \<leftarrow> process_batch z io (ctrls @ cmd # take OPPORTUNISTIC_CAP more_cmd) st;
          Some (WFlush st1 err)
        }
      | WEvPing \<Rightarrow> (let (st1, err) = write_keepalive io st in Some (WFlush st1 err))
      | WEvStall now queued \<Rightarrow>
          if now - last_writer_progress st > 2 * wc_write_timeout cfg \<and> queued > 0
          then Some (WBreak st) else Some (WContinue st))"

text \<open>One iteration: the state, the \<open>Close\<close> messages accepted by the workers, and whether it breaks.\<close>

definition writer_iteration ::
  "('zc, 'zd) flate2 \<Rightarrow> writer_config \<Rightarrow> write_io \<Rightarrow> writer_event \<Rightarrow> nat \<Rightarrow> (nat \<Rightarrow> send_result)
    \<Rightarrow> ('zc, 'zd) writer_state \<Rightarrow> (('zc, 'zd) writer_state \<times> (nat \<times> stream_registration) list \<times> bool) option" where
  "writer_iteration z cfg io ev now outcome st = do {
     flow \<leftarrow> writer_select z cfg io ev st;
     Some (case flow of
         WBreak st1 \<Rightarrow> (st1, [], True)
       | WContinue st1 \<Rightarrow> (st1, [], False)
       | WFlush st1 had_error \<Rightarrow>
           if had_error then (st1, [], True)
           else (let (st2, failed) = end_of_batch_flush io now st1 in
                 if failed then (st2, [], True)
                 else (let (sent, requeued, err) = offer_closes (pending_closes st2) outcome
                       in (st2\<lparr>pending_closes := requeued\<rparr>, sent, err))))
   }"

section \<open>The handshake\<close>

definition our_settings :: "writer_config \<Rightarrow> (u32 \<times> u32) list" where
  "our_settings cfg = [(7, wc_initial_window_size cfg), (4, wc_max_concurrent_streams cfg)]"

definition write_and_flush ::
  "write_io \<Rightarrow> byte list \<Rightarrow> ('zc, 'zd) writer_state \<Rightarrow> ('zc, 'zd) writer_state \<times> bool" where
  "write_and_flush io fb st =
     (let (st1, ok) = write_item io (WireBinary fb) st
      in if ok then flush_wire io st1 else (st1, False))"

text \<open>The first PING and our SETTINGS, each written and flushed; \<open>False\<close> says the task cancels and returns.\<close>

definition writer_start ::
  "('zc, 'zd) flate2 \<Rightarrow> writer_config \<Rightarrow> write_io \<Rightarrow> nat \<Rightarrow> ('zc, 'zd) writer_state \<times> bool" where
  "writer_start z cfg io now =
     (let st0 = \<lparr>wr_codec = with_max_frame_size z (wc_max_frame_size cfg), wire = [], flushed = 0, io_calls = 0,
            pending_closes = [], bytes_since_flush = 0, keepalive_id = 3, last_writer_progress = now\<rparr>;
          (st1, ok1) = write_and_flush io (encode_ping 1) st0
      in if ok1 then write_and_flush io (encode_settings (our_settings cfg)) st1 else (st1, False))"

section \<open>The task as a whole\<close>

text \<open>
  The loop over what happens in each round: the event, the time of the flush and the answers of the
  workers.  The result holds the state, the \<open>Close\<close> messages accepted, and whether the task has ended,
  which cancels the connection and closes the transport; otherwise it waits for its next event.
\<close>

primrec writer_loop ::
  "('zc, 'zd) flate2 \<Rightarrow> writer_config \<Rightarrow> write_io \<Rightarrow> (writer_event \<times> nat \<times> (nat \<Rightarrow> send_result)) list
    \<Rightarrow> ('zc, 'zd) writer_state \<Rightarrow> (('zc, 'zd) writer_state \<times> (nat \<times> stream_registration) list \<times> bool) option" where
  "writer_loop z cfg io [] st = Some (st, [], False)"
| "writer_loop z cfg io (round # rounds) st = do {
     (st1, sent, ended) \<leftarrow> (case round of (ev, now, outcome) \<Rightarrow> writer_iteration z cfg io ev now outcome st);
     if ended then Some (st1, sent, True)
     else do {
       (st2, sent', ended') \<leftarrow> writer_loop z cfg io rounds st1;
       Some (st2, sent @ sent', ended')
     }
   }"

definition run_writer ::
  "('zc, 'zd) flate2 \<Rightarrow> writer_config \<Rightarrow> write_io \<Rightarrow> nat \<Rightarrow> (writer_event \<times> nat \<times> (nat \<Rightarrow> send_result)) list
    \<Rightarrow> (('zc, 'zd) writer_state \<times> (nat \<times> stream_registration) list \<times> bool) option" where
  "run_writer z cfg io now rounds =
     (case writer_start z cfg io now of
        (st, False) \<Rightarrow> Some (st, [], True)
      | (st, True) \<Rightarrow> writer_loop z cfg io rounds st)"

end
