(* ===== verification/Framing.thy ===== *)
theory Framing
  imports Codec_Properties Commands
begin

text \<open>
  What the peer reads off the wire.  \<open>decodes_to\<close> is a receiver that applies \<open>decode_frame\<close> until the
  bytes are used up.  The locale \<open>framing\<close> is the contract between an encoder of messages and such a
  receiver; the writer's commands are an instance, for any zlib stream.
\<close>

inductive decodes_to :: "('zc, 'zd) flate2 \<Rightarrow> ('zc, 'zd) spdy_codec \<Rightarrow> byte list \<Rightarrow> frame list
    \<Rightarrow> ('zc, 'zd) spdy_codec \<Rightarrow> bool" for z where
  nil: "decodes_to z d [] [] d"
| frame: "decode_frame z d bytes = Some (d1, rest, Ok (Some f)) \<Longrightarrow> decodes_to z d1 rest fs d' \<Longrightarrow>
    decodes_to z d bytes (f # fs) d'"

inductive_cases decodes_to_ConsE: "decodes_to z d bytes (f # fs) d'"

lemma decodes_to_append:
  assumes "decodes_to z d b1 fs1 d1" "decodes_to z d1 b2 fs2 d2"
  shows "decodes_to z d (b1 @ b2) (fs1 @ fs2) d2"
  using assms
proof (induction rule: decodes_to.induct)
  case (frame d bytes d1' rest f fs d')
  have "decode_frame z d (bytes @ b2) = Some (d1', rest @ b2, Ok (Some f))"
    by (rule decode_frame_append [OF frame.hyps(1)]) simp
  then show ?case using decodes_to.frame frame.IH frame.prems by fastforce
qed simp

text \<open>A receiver gives one answer.\<close>

lemma decodes_to_deterministic:
  assumes "decodes_to z d bytes fs d1" "decodes_to z d bytes gs d2"
  shows "fs = gs \<and> d1 = d2"
  using assms
proof (induction arbitrary: gs rule: decodes_to.induct)
  case (nil d)
  then show ?case by (cases rule: decodes_to.cases) (auto simp: decode_frame_def)
next
  case (frame d bytes d1' rest f fs d')
  from frame.prems show ?case
  proof (cases rule: decodes_to.cases)
    case nil
    then show ?thesis using frame.hyps(1) by (auto simp: decode_frame_def)
  next
    case (frame d1'' rest' f' fs')
    then show ?thesis using \<open>decode_frame z d bytes = Some (d1', rest, Ok (Some f))\<close> frame.IH by auto
  qed
qed

locale framing =
  fixes emit :: "'c \<Rightarrow> 'm \<Rightarrow> ('c \<times> byte list) option"
    and expected :: "'m \<Rightarrow> frame list"
    and decodes :: "'d \<Rightarrow> byte list \<Rightarrow> frame list \<Rightarrow> 'd \<Rightarrow> bool"
    and in_step :: "'c \<Rightarrow> 'd \<Rightarrow> bool"
    and good :: "'m \<Rightarrow> bool"
  assumes decodes_nothing: "decodes d [] [] d"
    and decodes_join: "decodes d b1 fs1 d1 \<Longrightarrow> decodes d1 b2 fs2 d2 \<Longrightarrow> decodes d (b1 @ b2) (fs1 @ fs2) d2"
    and emit_decodes: "in_step c d \<Longrightarrow> good m \<Longrightarrow> emit c m = Some (c', bytes) \<Longrightarrow>
      \<exists>d'. decodes d bytes (expected m) d' \<and> in_step c' d'"
begin

primrec emit_all :: "'c \<Rightarrow> 'm list \<Rightarrow> ('c \<times> byte list) option" where
  "emit_all c [] = Some (c, [])"
| "emit_all c (m # ms) =
     (case emit c m of
        None \<Rightarrow> None
      | Some (c1, b1) \<Rightarrow> map_option (\<lambda>(c2, b2). (c2, b1 @ b2)) (emit_all c1 ms))"

text \<open>A whole sequence of messages arrives, in order and with nothing in between.\<close>

lemma emit_all_decodes:
  assumes "in_step c d" "list_all good ms" "emit_all c ms = Some (c', bytes)"
  shows "\<exists>d'. decodes d bytes (concat (map expected ms)) d' \<and> in_step c' d'"
  using assms
proof (induction ms arbitrary: c d bytes)
  case Nil
  then show ?case using decodes_nothing by auto
next
  case (Cons m ms)
  then obtain c1 b1 b2 where e: "emit c m = Some (c1, b1)" "emit_all c1 ms = Some (c', b2)" "bytes = b1 @ b2"
    by (auto split: option.splits)
  obtain d1 where d1: "decodes d b1 (expected m) d1" "in_step c1 d1"
    using emit_decodes [OF _ _ e(1)] Cons.prems by auto
  obtain d2 where "decodes d1 b2 (concat (map expected ms)) d2" "in_step c' d2"
    using Cons.IH [OF d1(2) _ e(2)] Cons.prems(2) by auto
  then show ?case using decodes_join [OF d1(1)] e(3) by auto
qed

end

section \<open>Commands as messages\<close>

text \<open>A raw frame is a complete DATA frame.\<close>

definition wf_raw :: "nat \<Rightarrow> byte list \<Rightarrow> bool" where
  "wf_raw mfs fb \<longleftrightarrow> 8 \<le> length fb \<and> \<not> hdr_is_control fb \<and> hdr_payload_len fb = length fb - 8 \<and>
     length fb - 8 \<le> mfs"

definition raw_frame :: "byte list \<Rightarrow> frame" where
  "raw_frame fb = Data (hdr_stream_id fb) (drop 8 fb) (hdr_flags fb AND FLAG_FIN \<noteq> 0)"

definition wf_headers :: "header list \<Rightarrow> bool" where
  "wf_headers hs \<longleftrightarrow> list_all wf_header hs \<and> length (header_block hs) \<le> 768"

definition wf_command :: "nat \<Rightarrow> mux_command \<Rightarrow> bool" where
  "wf_command mfs cmd =
     (case cmd of
        OpenStreamPair eid did eh dh \<Rightarrow> wf_headers eh \<and> wf_headers dh
      | SendData sid payload fin \<Rightarrow> length payload < 2 ^ 24 \<and> length payload \<le> mfs
      | SendRawFrame fb \<Rightarrow> wf_raw mfs fb
      | _ \<Rightarrow> True)"

text \<open>What the peer should see of a command.\<close>

definition command_frames :: "mux_command \<Rightarrow> frame list" where
  "command_frames cmd =
     (case cmd of
        OpenStreamPair eid did eh dh \<Rightarrow>
          [SynStream eid (map lower_header eh) False, SynStream did (map lower_header dh) False,
           Data (eid AND 0x7FFFFFFF) [] True]
      | SendData sid payload fin \<Rightarrow> [Data (sid AND 0x7FFFFFFF) payload fin]
      | SendRawFrame fb \<Rightarrow> [raw_frame fb]
      | CloseStream sid status \<Rightarrow> [RstStream sid status]
      | EncodePing pid \<Rightarrow> [Ping pid]
      | SendWsPong payload \<Rightarrow> []
      | EncodeWindowUpdate sid delta \<Rightarrow> [WindowUpdate sid delta]
      | CmdGoAway last_good \<Rightarrow> [GoAway last_good GOAWAY_STATUS_OK])"

definition in_step :: "('zc, 'zd) flate2 \<Rightarrow> ('zc \<Rightarrow> 'zd \<Rightarrow> bool) \<Rightarrow> nat
    \<Rightarrow> ('zc, 'zd) spdy_codec \<Rightarrow> ('zc, 'zd) spdy_codec \<Rightarrow> bool" where
  "in_step z R mfs c d \<longleftrightarrow> zlib_transfers z R \<and> codec_sync z R c d \<and> mfs \<le> unat (codec_max_frame_size d)"

lemma decodes_one:
  "decode_frame z d (bytes @ []) = Some (d', [], Ok (Some f)) \<Longrightarrow> decodes_to z d bytes [f] d'"
  by (auto intro: decodes_to.intros)

lemma decode_raw:
  assumes "wf_raw mfs fb" "mfs \<le> unat (codec_max_frame_size d)"
  shows "decode_frame z d fb = Some (d, [], Ok (Some (raw_frame fb)))"
  using assms by (auto simp: wf_raw_def raw_frame_def decode_frame_def frame_limit_def Let_def)

lemma decodes_syn:
  assumes "in_step z R mfs c d" "wf_headers hs" "encode_syn_stream z c sid hs fin = Some (c', Ok bytes)"
  shows "\<exists>d'. decodes_to z d bytes [SynStream sid (map lower_header hs) fin] d' \<and> in_step z R mfs c' d'"
proof -
  have "zlib_transfers z R" "codec_sync z R c d" "list_all wf_header hs" "length (header_block hs) \<le> 768"
    using assms(1,2) by (auto simp: in_step_def wf_headers_def)
  from syn_stream_transfer [OF this, of sid fin "[]"] obtain d' where
    "decode_frame z d (bytes @ []) = Some (d', [], Ok (Some (SynStream sid (map lower_header hs) fin)))"
    "codec_sync z R c' d'" "codec_max_frame_size d' = codec_max_frame_size d"
    using assms(3) by auto
  then show ?thesis using assms(1) decodes_one by (metis in_step_def)
qed

end
