(* ===== verification/Writer_Laws.thy ===== *)
theory Writer_Laws
  imports Writer Framing "HOL-Library.Multiset"
begin

text \<open>
  What the writer guarantees: the bytes it has put on the wire decode, at a peer whose
  decompressor is in step, to exactly the frames of the commands it processed, in order; its loop
  head is always flushed but for PINGs and PONGs; its own PINGs have odd identifiers; and a stream it
  resets is reported to its worker once, or kept until the worker has room.
\<close>

section \<open>The bytes of a command\<close>

definition emit_command ::
  "('zc, 'zd) flate2 \<Rightarrow> ('zc, 'zd) spdy_codec \<Rightarrow> mux_command \<Rightarrow> (('zc, 'zd) spdy_codec \<times> byte list) option" where
  "emit_command z c cmd =
     (case cmd of
        OpenStreamPair eid did eh dh \<Rightarrow>
          (case encode_syn_stream z c eid eh False of
             Some (c1, Inr b1) \<Rightarrow>
               (case encode_syn_stream z c1 did dh False of
                  Some (c2, Inr b2) \<Rightarrow> Some (c2, b1 @ b2 @ encode_data eid [] True)
                | _ \<Rightarrow> None)
           | _ \<Rightarrow> None)
      | SendWsPong payload \<Rightarrow> Some (c, [])
      | CloseStream sid status \<Rightarrow> Some (c, encode_rst_stream sid status)
      | _ \<Rightarrow> Some (c, encode_command cmd))"

lemma emit_pair_decodes:
  assumes step: "in_step z R mfs c d" and wf: "wf_headers eh" "wf_headers dh"
    and e: "encode_syn_stream z c eid eh False = Some (c1, Ok b1)" "encode_syn_stream z c1 did dh False = Some (c2, Ok b2)"
  shows "\<exists>d'. decodes_to z d (b1 @ b2 @ encode_data eid [] True)
      (command_frames (OpenStreamPair eid did eh dh)) d' \<and> in_step z R mfs c2 d'"
proof -
  obtain d1 where d1: "decodes_to z d b1 [SynStream eid (map lower_header eh) False] d1" "in_step z R mfs c1 d1"
    using decodes_syn [OF step wf(1) e(1)] by blast
  obtain d2 where d2: "decodes_to z d1 b2 [SynStream did (map lower_header dh) False] d2" "in_step z R mfs c2 d2"
    using decodes_syn [OF d1(2) wf(2) e(2)] by blast
  have "decodes_to z d2 (encode_data eid [] True) [Data (eid AND 0x7FFFFFFF) [] True] d2"
    by (rule decodes_one) (rule decode_encode_data, simp_all)
  then show ?thesis
    using decodes_to_append [OF d1(1) decodes_to_append [OF d2(1)]] d2(2) by (fastforce simp: command_frames_def)
qed

text \<open>Every other command is one frame, or none, and uses neither side's zlib stream.\<close>

definition plain_command :: "nat \<Rightarrow> mux_command \<Rightarrow> bool" where
  "plain_command mfs cmd \<longleftrightarrow> wf_command mfs cmd \<and> (case cmd of OpenStreamPair eid did eh dh \<Rightarrow> False | _ \<Rightarrow> True)"

lemma emit_plain_decodes:
  assumes good: "plain_command mfs m" and mfs: "mfs \<le> unat (codec_max_frame_size d)"
    and emit: "emit_command z c m = Some (c', bytes)"
  shows "decodes_to z d bytes (command_frames m) d" "c' = c"
proof -
  have "decodes_to z d bytes (command_frames m) d \<and> c' = c"
  proof (cases m)
    case (SendData sid payload fin)
    then have "decode_frame z d (bytes @ []) = Some (d, [], Ok (Some (Data (sid AND 0x7FFFFFFF) payload fin)))"
      using emit good mfs decode_encode_data [of payload d z sid fin "[]"]
      by (simp add: emit_command_def encode_command_def plain_command_def wf_command_def)
    then show ?thesis
      using emit SendData decodes_one by (fastforce simp: emit_command_def command_frames_def)
  next
    case (SendRawFrame fb)
    then show ?thesis
      using emit good decode_raw [OF _ mfs, of fb z] decodes_one [of z d fb d]
      by (auto simp: emit_command_def encode_command_def command_frames_def plain_command_def wf_command_def)
  next
    case (SendWsPong payload)
    then show ?thesis using emit decodes_to.nil by (fastforce simp: emit_command_def command_frames_def)
  qed (use good emit decodes_one [of z d bytes d] in \<open>auto simp: plain_command_def emit_command_def encode_command_def
        command_frames_def decode_encode_rst [of z d _ _ "[]", simplified] decode_encode_ping [of z d _ "[]", simplified]
        decode_encode_window_update [of z d _ _ "[]", simplified] decode_encode_goaway [of z d _ _ "[]", simplified]\<close>)
  then show "decodes_to z d bytes (command_frames m) d" "c' = c" by simp_all
qed

interpretation pf: framing "emit_command z" command_frames "decodes_to z"
    "\<lambda>c d. mfs \<le> unat (codec_max_frame_size d)" "plain_command mfs"
  for z :: "('zc, 'zd) flate2" and mfs
  by unfold_locales (blast intro: decodes_to.nil, blast intro: decodes_to_append, blast intro: emit_plain_decodes(1))

interpretation wf: framing "emit_command z" command_frames "decodes_to z" "in_step z R mfs" "wf_command mfs"
  for z :: "('zc, 'zd) flate2" and R mfs
proof unfold_locales
  fix d :: "('zc, 'zd) spdy_codec"
  show "decodes_to z d [] [] d" by (rule decodes_to.nil)
next
  fix d d1 d2 :: "('zc, 'zd) spdy_codec" and b1 b2 fs1 fs2
  assume "decodes_to z d b1 fs1 d1" "decodes_to z d1 b2 fs2 d2"
  then show "decodes_to z d (b1 @ b2) (fs1 @ fs2) d2" by (rule decodes_to_append)
next
  fix c d c' :: "('zc, 'zd) spdy_codec" and m bytes
  assume step: "in_step z R mfs c d" and good: "wf_command mfs m" and emit: "emit_command z c m = Some (c', bytes)"
  show "\<exists>d'. decodes_to z d bytes (command_frames m) d' \<and> in_step z R mfs c' d'"
  proof (cases "plain_command mfs m")
    case True
    have "mfs \<le> unat (codec_max_frame_size d)" using step by (simp add: in_step_def)
    from emit_plain_decodes [OF True this emit] show ?thesis using step by blast
  next
    case False
    then obtain eid did eh dh where m: "m = OpenStreamPair eid did eh dh"
      using good by (auto simp: plain_command_def split: mux_command.splits)
    then obtain c1 b1 c2 b2 where e: "encode_syn_stream z c eid eh False = Some (c1, Ok b1)"
      "encode_syn_stream z c1 did dh False = Some (c2, Ok b2)"
      and eq: "c' = c2" "bytes = b1 @ b2 @ encode_data eid [] True"
      using emit by (auto simp: emit_command_def split: option.splits prod.splits sum.splits)
    have "wf_headers eh" "wf_headers dh" using good m by (simp_all add: wf_command_def)
    from emit_pair_decodes [OF step this e] show ?thesis using m eq by simp
  qed
qed

section \<open>The wire\<close>

definition wire_bytes :: "wire_item list \<Rightarrow> byte list" where
  "wire_bytes items = concat (map (\<lambda>i. case i of WireBinary b \<Rightarrow> b | WirePong p \<Rightarrow> []) items)"

lemma wire_bytes_simps [simp]:
  "wire_bytes [] = []" "wire_bytes (xs @ ys) = wire_bytes xs @ wire_bytes ys"
  "wire_bytes (WireBinary b # xs) = b @ wire_bytes xs" "wire_bytes (WirePong p # xs) = wire_bytes xs"
  by (simp_all add: wire_bytes_def)

lemma write_item_Ok:
  assumes "write_item io item st = (st', True)"
  shows "wire st' = wire st @ [item] \<and> wr_codec st' = wr_codec st"
  using assms by (auto simp: write_item_def Let_def split: if_splits)

lemma write_frame_Ok:
  assumes "write_frame io fb st = (st', False, n)"
  shows "wire st' = wire st @ [WireBinary fb] \<and> wr_codec st' = wr_codec st"
  using assms by (auto simp: write_frame_def dest!: write_item_Ok split: prod.splits if_splits)

lemma write_syn_Ok:
  assumes "write_syn z io sid hs st = Some (st', False, n)"
  shows "\<exists>c' fb. encode_syn_stream z (wr_codec st) sid hs False = Some (c', Ok fb) \<and> wr_codec st' = c' \<and>
    wire st' = wire st @ [WireBinary fb]"
  using assms
  by (auto simp: write_syn_def dest!: write_item_Ok split: Option.bind_splits prod.splits sum.splits if_splits)

text \<open>The three frames of an open, in order and next to each other.\<close>

lemma write_open_pair_Ok:
  assumes "write_open_pair z io eid did eh dh st = Some (st', False, n)"
  shows "\<exists>c1 b1 b2. encode_syn_stream z (wr_codec st) eid eh False = Some (c1, Ok b1) \<and>
    encode_syn_stream z c1 did dh False = Some (wr_codec st', Ok b2) \<and>
    wire st' = wire st @ [WireBinary b1, WireBinary b2, WireBinary (encode_data eid [] True)]"
proof -
  obtain st1 n1 where s1: "write_syn z io eid eh st = Some (st1, False, n1)"
    using assms by (auto simp: write_open_pair_def split: Option.bind_splits if_splits)
  then obtain st2 n2 n3 where s2: "write_syn z io did dh st1 = Some (st2, False, n2)"
    and s3: "write_frame io (encode_data eid [] True) st2 = (st', False, n3)"
    using assms by (auto simp: write_open_pair_def split: Option.bind_splits if_splits prod.splits)
  show ?thesis using write_syn_Ok [OF s1] write_syn_Ok [OF s2] write_frame_Ok [OF s3] by auto
qed

lemma write_close_Ok:
  assumes "write_close io sid status st = (st', False, n)"
  shows "wire st' = wire st @ [WireBinary (encode_rst_stream sid status)] \<and> wr_codec st' = wr_codec st"
  using assms by (auto simp: write_close_def dest!: write_frame_Ok split: prod.splits if_splits)

lemma process_command_emits:
  assumes "process_writer_command z io cmd st = Some (st', False, n)"
  shows "\<exists>bytes. emit_command z (wr_codec st) cmd = Some (wr_codec st', bytes) \<and>
    wire_bytes (wire st') = wire_bytes (wire st) @ bytes"
proof (cases cmd)
  case (OpenStreamPair eid did eh dh)
  then have "write_open_pair z io eid did eh dh st = Some (st', False, n)"
    using assms by (simp add: process_writer_command_def)
  from write_open_pair_Ok [OF this] show ?thesis using OpenStreamPair by (auto simp: emit_command_def)
next
  case (SendWsPong payload)
  then show ?thesis
    using assms by (auto simp: process_writer_command_def write_pong_def emit_command_def dest!: write_item_Ok split: prod.splits)
next
  case (CloseStream sid status)
  then show ?thesis
    using assms by (auto simp: process_writer_command_def emit_command_def dest!: write_close_Ok)
qed (use assms in \<open>auto simp: process_writer_command_def emit_command_def dest!: write_frame_Ok\<close>)

lemma process_batch_emits:
  assumes "process_batch z io cmds st = Some (st', False)"
  shows "\<exists>bytes. wf.emit_all z (wr_codec st) cmds = Some (wr_codec st', bytes) \<and>
    wire_bytes (wire st') = wire_bytes (wire st) @ bytes"
  using assms
proof (induction cmds arbitrary: st)
  case (Cons c cs)
  then obtain st1 n where p: "process_writer_command z io c st = Some (st1, False, n)"
    and b: "process_batch z io cs (st1\<lparr>bytes_since_flush := bytes_since_flush st1 + n\<rparr>) = Some (st', False)"
    by (auto simp: process_counted_def split: Option.bind_splits if_splits prod.splits)
  from process_command_emits [OF p] Cons.IH [OF b] show ?case by auto
qed simp

section \<open>Bookkeeping of a command\<close>

text \<open>What a command that was written leaves unchanged, and what it appends.\<close>

definition appended :: "('zc, 'zd) writer_state \<Rightarrow> wire_item list \<Rightarrow> u32 list \<Rightarrow> ('zc, 'zd) writer_state \<Rightarrow> bool" where
  "appended st items closes st' \<longleftrightarrow>
     wire st' = wire st @ items \<and> pending_closes st' = pending_closes st @ closes \<and>
     flushed st' = flushed st \<and> keepalive_id st' = keepalive_id st \<and> bytes_since_flush st' = bytes_since_flush st"

lemma appended_trans:
  "appended st items closes st1 \<Longrightarrow> appended st1 items' closes' st2 \<Longrightarrow> appended st (items @ items') (closes @ closes') st2"
  by (simp add: appended_def)

lemma write_item_appended:
  "write_item io item st = (st', True) \<Longrightarrow> appended st [item] [] st'"
  by (auto simp: write_item_def appended_def Let_def split: if_splits)

lemma write_frame_appended:
  assumes "write_frame io fb st = (st', False, n)"
  shows "appended st [WireBinary fb] [] st' \<and> n = length fb"
  using assms by (auto simp: write_frame_def dest!: write_item_appended split: prod.splits if_splits)

lemma appended_codec [simp]: "appended (st\<lparr>wr_codec := c\<rparr>) items closes st' = appended st items closes st'"
  by (simp add: appended_def)

lemma write_syn_appended:
  assumes "write_syn z io sid hs st = Some (st', False, n)"
  shows "\<exists>fb. appended st [WireBinary fb] [] st' \<and> n = length fb"
  using assms
  by (auto simp: write_syn_def dest!: write_item_appended split: Option.bind_splits prod.splits sum.splits if_splits)

lemma write_open_pair_appended:
  assumes "write_open_pair z io eid did eh dh st = Some (st', False, n)"
  shows "\<exists>b1 b2 b3. appended st [WireBinary b1, WireBinary b2, WireBinary b3] [] st' \<and>
    n = length (b1 @ b2 @ b3)"
proof -
  obtain st1 n1 where s1: "write_syn z io eid eh st = Some (st1, False, n1)"
    using assms by (auto simp: write_open_pair_def split: Option.bind_splits if_splits)
  then obtain st2 n2 n3 where s2: "write_syn z io did dh st1 = Some (st2, False, n2)"
    and s3: "write_frame io (encode_data eid [] True) st2 = (st', False, n3)" and n: "n = n1 + n2 + n3"
    using assms by (auto simp: write_open_pair_def split: Option.bind_splits if_splits prod.splits)
  obtain b1 b2 where a: "appended st [WireBinary b1] [] st1" "n1 = length b1"
    "appended st1 [WireBinary b2] [] st2" "n2 = length b2"
    using write_syn_appended [OF s1] write_syn_appended [OF s2] by blast
  have "appended st ([WireBinary b1] @ [WireBinary b2] @ [WireBinary (encode_data eid [] True)]) ([] @ [] @ []) st'"
    using appended_trans [OF a(1) appended_trans [OF a(3)]] write_frame_appended [OF s3] by blast
  then show ?thesis using a(2,4) n write_frame_appended [OF s3] by (fastforce simp: add.assoc)
qed

definition command_closes :: "mux_command \<Rightarrow> u32 list" where
  "command_closes cmd = (case cmd of CloseStream sid status \<Rightarrow> [sid] | _ \<Rightarrow> [])"

lemma process_command_appended:
  assumes "process_writer_command z io cmd st = Some (st', False, n)"
  shows "\<exists>items. appended st items (command_closes cmd) st' \<and> n = length (wire_bytes items)"
proof (cases cmd)
  case (OpenStreamPair eid did eh dh)
  then have "write_open_pair z io eid did eh dh st = Some (st', False, n)"
    using assms by (simp add: process_writer_command_def)
  from write_open_pair_appended [OF this] obtain b1 b2 b3 where
    "appended st [WireBinary b1, WireBinary b2, WireBinary b3] [] st'" "n = length (b1 @ b2 @ b3)" by blast
  then show ?thesis using OpenStreamPair
    by (intro exI [of _ "[WireBinary b1, WireBinary b2, WireBinary b3]"]) (simp add: command_closes_def)
next
  case (SendWsPong payload)
  then have "appended st [WirePong payload] [] st'" "n = 0"
    using assms by (auto simp: process_writer_command_def write_pong_def dest!: write_item_appended split: prod.splits)
  then show ?thesis using SendWsPong
    by (intro exI [of _ "[WirePong payload]"]) (simp add: command_closes_def)
next
  case (CloseStream sid status)
  then obtain st1 where "appended st [WireBinary (encode_rst_stream sid status)] [] st1"
    "n = length (encode_rst_stream sid status)" "st' = st1\<lparr>pending_closes := pending_closes st1 @ [sid]\<rparr>"
    using assms by (auto simp: process_writer_command_def write_close_def dest!: write_frame_appended split: prod.splits if_splits)
  then show ?thesis using CloseStream
    by (intro exI [of _ "[WireBinary (encode_rst_stream sid status)]"]) (simp add: command_closes_def appended_def)
qed (use assms in \<open>force simp: process_writer_command_def command_closes_def wire_bytes_def dest!: write_frame_appended\<close>)+

lemma process_batch_appended:
  assumes "process_batch z io cmds st = Some (st', False)"
  shows "\<exists>items. wire st' = wire st @ items \<and> pending_closes st' = pending_closes st @ concat (map command_closes cmds) \<and>
    flushed st' = flushed st \<and> keepalive_id st' = keepalive_id st \<and>
    bytes_since_flush st' = bytes_since_flush st + length (wire_bytes items)"
  using assms
proof (induction cmds arbitrary: st)
  case (Cons c cs)
  then obtain st1 n where p: "process_writer_command z io c st = Some (st1, False, n)"
    and b: "process_batch z io cs (st1\<lparr>bytes_since_flush := bytes_since_flush st1 + n\<rparr>) = Some (st', False)"
    by (auto simp: process_counted_def split: Option.bind_splits if_splits prod.splits)
  obtain items where i: "appended st items (command_closes c) st1" "n = length (wire_bytes items)"
    using process_command_appended [OF p] by blast
  obtain items' where "wire st' = wire st1 @ items'"
    "pending_closes st' = pending_closes st1 @ concat (map command_closes cs)" "flushed st' = flushed st1"
    "keepalive_id st' = keepalive_id st1" "bytes_since_flush st' = bytes_since_flush st1 + n + length (wire_bytes items')"
    using Cons.IH [OF b] by auto
  then show ?case using i by (intro exI [of _ "items @ items'"]) (simp add: appended_def)
qed simp

section \<open>The loop head\<close>

text \<open>Items that may wait for a later flush: pongs, keepalive PINGs, and empty frames.\<close>

definition quiet :: "wire_item \<Rightarrow> bool" where
  "quiet item \<longleftrightarrow> (case item of WirePong p \<Rightarrow> True | WireBinary b \<Rightarrow> b = [] \<or> (\<exists>pid. odd pid \<and> b = encode_ping pid))"

definition head_inv :: "('zc, 'zd) writer_state \<Rightarrow> bool" where
  "head_inv st \<longleftrightarrow> bytes_since_flush st = 0 \<and> flushed st \<le> length (wire st) \<and>
     list_all quiet (drop (flushed st) (wire st)) \<and> odd (keepalive_id st)"

lemma quiet_if_empty: "wire_bytes items = [] \<Longrightarrow> list_all quiet items"
proof (induction items)
  case (Cons i items)
  then show ?case by (cases i) (auto simp: quiet_def)
qed simp

lemma keepalive_head:
  assumes "write_keepalive io st = (st', False)" "head_inv st"
  shows "head_inv st' \<and> pending_closes st' = pending_closes st"
proof -
  have "appended (st\<lparr>keepalive_id := keepalive_id st + 2\<rparr>) [WireBinary (encode_ping (keepalive_id st))] [] st'"
    using assms(1) by (auto simp: write_keepalive_def dest!: write_item_appended split: prod.splits)
  moreover have "quiet (WireBinary (encode_ping (keepalive_id st)))"
    using assms(2) by (auto simp: quiet_def head_inv_def)
  ultimately show ?thesis using assms(2) by (auto simp: head_inv_def appended_def)
qed

lemma end_of_batch_head:
  assumes "end_of_batch_flush io now st1 = (st2, False)" "wire st1 = wire st @ items" "flushed st1 = flushed st"
    "keepalive_id st1 = keepalive_id st" "bytes_since_flush st1 = length (wire_bytes items)" "head_inv st"
  shows "head_inv st2"
proof (cases "wire_bytes items = []")
  case True
  then have "st2 = st1" using assms(1,5) by (simp add: end_of_batch_flush_def)
  then show ?thesis using assms(2-6) True quiet_if_empty [OF True] by (simp add: head_inv_def)
next
  case False
  then have "wire st2 = wire st1" "flushed st2 = length (wire st1)" "bytes_since_flush st2 = 0"
    "keepalive_id st2 = keepalive_id st1"
    using assms(1,5) by (auto simp: end_of_batch_flush_def flush_wire_def Let_def split: if_splits)
  then show ?thesis using assms(4,6) by (simp add: head_inv_def)
qed

lemma end_of_batch_pending:
  "end_of_batch_flush io now st1 = (st2, b) \<Longrightarrow> pending_closes st2 = pending_closes st1"
  by (auto simp: end_of_batch_flush_def flush_wire_def Let_def split: if_splits)

text \<open>The commands that an event makes the writer process.\<close>

definition event_commands :: "writer_event \<Rightarrow> mux_command list" where
  "event_commands ev =
     (case ev of
        WEvWindow (Some cmd) more_win \<Rightarrow> cmd # more_win
      | WEvControl (Some cmd) more_ctrl \<Rightarrow> cmd # take OPPORTUNISTIC_CAP more_ctrl
      | WEvCmd (Some cmd) ctrls more_cmd \<Rightarrow> ctrls @ cmd # take OPPORTUNISTIC_CAP more_cmd
      | _ \<Rightarrow> [])"

lemma writer_select_cases:
  assumes "writer_select z cfg io ev st = Some flow"
  obtains (break) "flow = WBreak st"
  | (continue) "flow = WContinue st" "event_commands ev = []"
  | (batch) st1 err where "process_batch z io (event_commands ev) st = Some (st1, err)" "flow = WFlush st1 err"
  | (keepalive) st1 err where "write_keepalive io st = (st1, err)" "flow = WFlush st1 err" "event_commands ev = []"
  using assms
  by (auto simp: writer_select_def event_commands_def split: writer_event.splits option.splits if_splits
      Option.bind_splits prod.splits)

lemma writer_iteration_parts:
  assumes it: "writer_iteration z cfg io ev now outcome st = Some (st', sent, False)" and head: "head_inv st"
  shows "head_inv st'" "\<exists>requeued sent'. offer_closes (pending_closes st @ concat (map command_closes (event_commands ev))) outcome
      = (sent', requeued, False) \<and> sent = sent' \<and> pending_closes st' = requeued
    \<or> event_commands ev = [] \<and> sent = [] \<and> pending_closes st' = pending_closes st"
proof -
  obtain flow where flow: "writer_select z cfg io ev st = Some flow"
    using it by (auto simp: writer_iteration_def split: Option.bind_splits)
  have "head_inv st' \<and> ((\<exists>requeued sent'. offer_closes (pending_closes st @ concat (map command_closes (event_commands ev))) outcome
      = (sent', requeued, False) \<and> sent = sent' \<and> pending_closes st' = requeued)
    \<or> event_commands ev = [] \<and> sent = [] \<and> pending_closes st' = pending_closes st)"
    using flow
  proof (cases rule: writer_select_cases)
    case break
    then show ?thesis using it flow by (simp add: writer_iteration_def)
  next
    case continue
    then show ?thesis using it flow head by (simp add: writer_iteration_def)
  next
    case (batch st1 err)
    then have ne: "\<not> err" using it flow by (auto simp: writer_iteration_def)
    obtain st2 where f: "end_of_batch_flush io now st1 = (st2, False)"
      and o: "offer_closes (pending_closes st2) outcome = (sent, pending_closes st', False)"
      and st': "st' = st2\<lparr>pending_closes := pending_closes st'\<rparr>"
      using it flow batch(2) ne by (auto simp: writer_iteration_def split: prod.splits if_splits)
    from batch(1) ne have "process_batch z io (event_commands ev) st = Some (st1, False)" by simp
    from process_batch_appended [OF this] obtain items where i: "wire st1 = wire st @ items"
      "pending_closes st1 = pending_closes st @ concat (map command_closes (event_commands ev))"
      "flushed st1 = flushed st" "keepalive_id st1 = keepalive_id st"
      "bytes_since_flush st1 = bytes_since_flush st + length (wire_bytes items)"
      by blast
    have "head_inv st2"
      by (rule end_of_batch_head [OF f i(1,3,4)]) (use i(5) head in \<open>simp_all add: head_inv_def\<close>)
    then have "head_inv st'" by (subst st') (simp add: head_inv_def)
    then show ?thesis using o end_of_batch_pending [OF f] i(2) by auto
  next
    case (keepalive st1 err)
    then have ne: "\<not> err" using it flow by (auto simp: writer_iteration_def)
    have k: "head_inv st1" "pending_closes st1 = pending_closes st" using keepalive_head keepalive(1) ne head by auto
    obtain st2 where f: "end_of_batch_flush io now st1 = (st2, False)"
      and o: "offer_closes (pending_closes st2) outcome = (sent, pending_closes st', False)"
      and st': "st' = st2\<lparr>pending_closes := pending_closes st'\<rparr>"
      using it flow keepalive(2) ne by (auto simp: writer_iteration_def split: prod.splits if_splits)
    have "st2 = st1" using f k(1) by (simp add: end_of_batch_flush_def head_inv_def)
    then have "head_inv st'" using k(1) by (subst st') (simp add: head_inv_def)
    then show ?thesis using o k(2) keepalive(3) \<open>st2 = st1\<close> by auto
  qed
  then show "head_inv st'" "\<exists>requeued sent'. offer_closes (pending_closes st @ concat (map command_closes (event_commands ev))) outcome
      = (sent', requeued, False) \<and> sent = sent' \<and> pending_closes st' = requeued
    \<or> event_commands ev = [] \<and> sent = [] \<and> pending_closes st' = pending_closes st" by auto
qed

text \<open>Deferred closes are neither lost nor duplicated.\<close>

lemma offer_closes_account:
  assumes "offer_closes sids outcome = (sent, requeued, False)"
  shows "\<exists>ids. sent = map (\<lambda>sid. (shard sid, RegClose sid)) ids \<and> mset sids = mset ids + mset requeued"
  using assms
proof (induction sids arbitrary: outcome sent requeued)
  case (Cons sid sids)
  obtain sent1 requeued1 err1 where r: "offer_closes sids (\<lambda>k. outcome (k + 1)) = (sent1, requeued1, err1)"
    by (metis prod_cases3)
  with Cons.prems have ne: "\<not> err1" by (auto split: send_result.splits)
  then have "offer_closes sids (\<lambda>k. outcome (k + 1)) = (sent1, requeued1, False)" using r by simp
  from Cons.IH [OF this] obtain ids where ids: "sent1 = map (\<lambda>sid. (shard sid, RegClose sid)) ids" "mset sids = mset ids + mset requeued1"
    by blast
  show ?case
  proof (cases "outcome 0")
    case SendOk
    then show ?thesis using Cons.prems r ids by (intro exI [of _ "sid # ids"]) auto
  next
    case SendFull
    then show ?thesis using Cons.prems r ids by (intro exI [of _ ids]) auto
  next
    case SendClosed
    then show ?thesis using Cons.prems r by simp
  qed
qed simp

text \<open>Runs of the task's loop, from a completed handshake.\<close>

inductive writer_run :: "('zc, 'zd) flate2 \<Rightarrow> writer_config \<Rightarrow> write_io \<Rightarrow> ('zc, 'zd) writer_state
    \<Rightarrow> mux_command list \<Rightarrow> (nat \<times> stream_registration) list \<Rightarrow> bool" for z cfg io where
  start: "writer_start z cfg io now = (st, True) \<Longrightarrow> writer_run z cfg io st [] []"
| iterate: "writer_run z cfg io st cmds sent \<Longrightarrow>
    writer_iteration z cfg io ev now outcome st = Some (st', new, False) \<Longrightarrow>
    writer_run z cfg io st' (cmds @ event_commands ev) (sent @ new)"

lemma writer_start_head:
  assumes "writer_start z cfg io now = (st, True)"
  shows "head_inv st \<and> pending_closes st = []"
  using assms
  by (auto simp: writer_start_def write_and_flush_def write_item_def flush_wire_def head_inv_def Let_def split: if_splits)

lemma writer_run_head:
  assumes "writer_run z cfg io st cmds sent"
  shows "head_inv st \<and> (\<exists>ids. sent = map (\<lambda>sid. (shard sid, RegClose sid)) ids \<and>
    mset (concat (map command_closes cmds)) = mset ids + mset (pending_closes st))"
  using assms
proof (induction rule: writer_run.induct)
  case (start now st)
  then show ?case using writer_start_head by fastforce
next
  case (iterate st cmds sent ev now outcome st' new)
  then obtain ids where ids: "sent = map (\<lambda>sid. (shard sid, RegClose sid)) ids"
    "mset (concat (map command_closes cmds)) = mset ids + mset (pending_closes st)" and head: "head_inv st" by blast
  note P = writer_iteration_parts [OF iterate.hyps(2) head]
  let ?new = "concat (map command_closes (event_commands ev))"
  have "\<exists>ids'. new = map (\<lambda>sid. (shard sid, RegClose sid)) ids' \<and>
      mset (pending_closes st @ ?new) = mset ids' + mset (pending_closes st')"
    using P(2) offer_closes_account [of "pending_closes st @ ?new" outcome new "pending_closes st'"] by force
  then obtain ids' where "new = map (\<lambda>sid. (shard sid, RegClose sid)) ids'"
    "mset (pending_closes st @ ?new) = mset ids' + mset (pending_closes st')" by blast
  then show ?case using P(1) ids by (intro conjI exI [of _ "ids @ ids'"]) (auto simp: ac_simps)
qed

text \<open>The commands taken in a sequence of rounds, and the runs that \<open>run_writer\<close> makes.\<close>

definition rounds_commands :: "(writer_event \<times> nat \<times> (nat \<Rightarrow> send_result)) list \<Rightarrow> mux_command list" where
  "rounds_commands rounds = concat (map (\<lambda>(ev, _). event_commands ev) rounds)"

lemma writer_loop_run:
  assumes "writer_loop z cfg io rounds st = Some (st', sent', False)" "writer_run z cfg io st cmds sent"
  shows "writer_run z cfg io st' (cmds @ rounds_commands rounds) (sent @ sent')"
  using assms
proof (induction rounds arbitrary: st cmds sent sent')
  case (Cons round rounds)
  obtain ev now outcome where r: "round = (ev, now, outcome)" by (metis prod_cases3)
  obtain st1 s1 e1 where i: "writer_iteration z cfg io ev now outcome st = Some (st1, s1, e1)"
    using Cons.prems(1) r by (auto simp: bind_eq_Some_conv)
  then obtain s2 where l: "e1 = False" "writer_loop z cfg io rounds st1 = Some (st', s2, False)" "sent' = s1 @ s2"
    using Cons.prems(1) r by (auto simp: bind_eq_Some_conv split: if_splits)
  from i l(1) have "writer_run z cfg io st1 (cmds @ event_commands ev) (sent @ s1)"
    using Cons.prems(2) writer_run.iterate by blast
  from Cons.IH [OF l(2) this] show ?case by (simp add: rounds_commands_def r l(3))
qed (simp add: rounds_commands_def)

lemma run_writer_run:
  assumes "run_writer z cfg io now rounds = Some (st, sent, False)"
  shows "writer_run z cfg io st (rounds_commands rounds) sent"
proof -
  obtain st0 where s: "writer_start z cfg io now = (st0, True)" "writer_loop z cfg io rounds st0 = Some (st, sent, False)"
    using assms by (auto simp: run_writer_def split: prod.splits bool.splits)
  from writer_loop_run [OF s(2) writer_run.start [OF s(1)]] show ?thesis by simp
qed

lemma batch_decodes:
  assumes "zlib_transfers z R" "codec_sync z R (wr_codec st) d" "mfs \<le> unat (codec_max_frame_size d)"
    and "list_all (wf_command mfs) cmds" and "process_batch z io cmds st = Some (st', False)"
  shows "\<exists>bytes d'. wire_bytes (wire st') = wire_bytes (wire st) @ bytes \<and>
    decodes_to z d bytes (concat (map command_frames cmds)) d' \<and> codec_sync z R (wr_codec st') d'"
proof -
  obtain bytes where b: "wf.emit_all z (wr_codec st) cmds = Some (wr_codec st', bytes)"
    "wire_bytes (wire st') = wire_bytes (wire st) @ bytes"
    using process_batch_emits [OF assms(5)] by blast
  have "in_step z R mfs (wr_codec st) d" using assms(1-3) by (simp add: in_step_def)
  from wf.emit_all_decodes [OF this assms(4) b(1)] show ?thesis using b(2) by (auto simp: in_step_def)
qed

lemma batch_decodes_plain:
  assumes "mfs \<le> unat (codec_max_frame_size d)" "list_all (plain_command mfs) cmds"
    and "process_batch z io cmds st = Some (st', False)"
  shows "\<exists>bytes d'. wire_bytes (wire st') = wire_bytes (wire st) @ bytes \<and>
    decodes_to z d bytes (concat (map command_frames cmds)) d'"
  using process_batch_emits [OF assms(3)] pf.emit_all_decodes [OF assms(1,2)] by blast

section \<open>Resets on the wire\<close>

text \<open>The RST_STREAM frames among the items written, with the stream and status they carry.\<close>

definition item_reset :: "wire_item \<Rightarrow> (u32 \<times> u32) list" where
  "item_reset item =
     (case item of
        WireBinary fb \<Rightarrow> if fb = encode_rst_stream (u32_at fb 8) (u32_at fb 12) then [(u32_at fb 8, u32_at fb 12)] else []
      | WirePong p \<Rightarrow> [])"

definition wire_resets :: "wire_item list \<Rightarrow> (u32 \<times> u32) list" where
  "wire_resets items = concat (map item_reset items)"

definition command_resets :: "mux_command \<Rightarrow> (u32 \<times> u32) list" where
  "command_resets cmd = (case cmd of CloseStream sid status \<Rightarrow> [(sid, status)] | _ \<Rightarrow> [])"

lemma wire_resets_simps [simp]:
  "wire_resets [] = []" "wire_resets (xs @ ys) = wire_resets xs @ wire_resets ys"
  "wire_resets (x # xs) = item_reset x @ wire_resets xs"
  by (simp_all add: wire_resets_def)

lemma command_closes_resets: "concat (map command_closes cmds) = map fst (concat (map command_resets cmds))"
  by (induction cmds) (auto simp: command_closes_def command_resets_def split: mux_command.splits)

lemma item_reset_rst [simp]: "item_reset (WireBinary (encode_rst_stream sid status)) = [(sid, status)]"
proof -
  have "u32_at (encode_rst_stream sid status) 8 = sid"
    using u32_at_mid [of 8 "u16_to_be SPDY_VERSION @ u16_to_be RST_STREAM_TYPE @ u32_to_be 8" sid "u32_to_be status"]
    by (simp add: encode_rst_stream_def)
  moreover have "u32_at (encode_rst_stream sid status) 12 = status"
    using u32_at_mid [of 12 "u16_to_be SPDY_VERSION @ u16_to_be RST_STREAM_TYPE @ u32_to_be 8 @ u32_to_be sid" status "[]"]
    by (simp add: encode_rst_stream_def)
  ultimately show ?thesis by (simp add: item_reset_def)
qed

lemma item_reset_other:
  assumes "\<not> hdr_is_control fb \<or> (\<exists>t bs. fb = u16_to_be SPDY_VERSION @ u16_to_be t @ bs \<and> t \<noteq> RST_STREAM_TYPE)"
  shows "item_reset (WireBinary fb) = []"
proof -
  have "fb \<noteq> encode_rst_stream a b" for a b
  proof
    assume fb: "fb = encode_rst_stream a b"
    then have "hdr_is_control fb" by (simp add: encode_rst_stream_def)
    then obtain t bs where "fb = u16_to_be SPDY_VERSION @ u16_to_be t @ bs" "t \<noteq> RST_STREAM_TYPE" using assms by blast
    then have "u16_to_be t = u16_to_be RST_STREAM_TYPE" using fb by (simp add: encode_rst_stream_def u16_to_be_def)
    then have "u16_from_be (u16_to_be t ! 0) (u16_to_be t ! 1) = u16_from_be (u16_to_be RST_STREAM_TYPE ! 0) (u16_to_be RST_STREAM_TYPE ! 1)"
      by simp
    then show False using \<open>t \<noteq> RST_STREAM_TYPE\<close> by (simp only: u16_to_be_def nth_Cons_0 One_nat_def nth_Cons_Suc u16_from_be_split)
  qed
  then show ?thesis by (auto simp: item_reset_def)
qed

text \<open>A raw frame that a stream hands over is a DATA frame.\<close>

definition raw_is_data :: "mux_command \<Rightarrow> bool" where
  "raw_is_data cmd \<longleftrightarrow> (case cmd of SendRawFrame fb \<Rightarrow> \<not> hdr_is_control fb | _ \<Rightarrow> True)"

lemma item_reset_encoded [simp]:
  "item_reset (WireBinary (encode_data sid payload fin)) = []" "item_reset (WireBinary (encode_ping pid)) = []"
  "item_reset (WireBinary (encode_window_update sid delta)) = []" "item_reset (WireBinary (encode_goaway lg status)) = []"
  "item_reset (WireBinary (encode_settings entries)) = []"
  "encode_syn_stream z c sid hs fin = Some (c', Ok fb) \<Longrightarrow> item_reset (WireBinary fb) = []"
proof -
  show "item_reset (WireBinary (encode_data sid payload fin)) = []"
    by (rule item_reset_other) (simp add: encode_data_def)
  show "item_reset (WireBinary (encode_ping pid)) = []"
    by (rule item_reset_other, rule disjI2, rule exI [of _ PING_TYPE]) (simp add: encode_ping_def PING_TYPE_def RST_STREAM_TYPE_def)
  show "item_reset (WireBinary (encode_window_update sid delta)) = []"
    by (rule item_reset_other, rule disjI2, rule exI [of _ WINDOW_UPDATE_TYPE])
      (simp add: encode_window_update_def WINDOW_UPDATE_TYPE_def RST_STREAM_TYPE_def)
  show "item_reset (WireBinary (encode_goaway lg status)) = []"
    by (rule item_reset_other, rule disjI2, rule exI [of _ GOAWAY_TYPE])
      (simp add: encode_goaway_def GOAWAY_TYPE_def RST_STREAM_TYPE_def)
  show "item_reset (WireBinary (encode_settings entries)) = []"
    by (rule item_reset_other, rule disjI2, rule exI [of _ SETTINGS_TYPE])
      (simp add: encode_settings_def SETTINGS_TYPE_def RST_STREAM_TYPE_def)
  show "item_reset (WireBinary fb) = []" if syn: "encode_syn_stream z c sid hs fin = Some (c', Ok fb)"
  proof (rule item_reset_other, rule disjI2, rule exI [of _ SYN_STREAM_TYPE])
    obtain r where "compress_headers z c hs = Some (c', r)"
      "Ok fb = (case r of Inl e \<Rightarrow> Err e | Inr zb \<Rightarrow> Ok (u16_to_be SPDY_VERSION @ u16_to_be SYN_STREAM_TYPE @
        u32_to_be (flags_len fin (10 + length zb)) @ u32_to_be sid @ u32_to_be 0 @ [push_bit 5 (0 AND 0x07), 0] @ zb))"
      using syn by (auto simp: encode_syn_stream_def encode_syn_stream_with_priority_def)
    then show "\<exists>bs. fb = u16_to_be SPDY_VERSION @ u16_to_be SYN_STREAM_TYPE @ bs \<and> SYN_STREAM_TYPE \<noteq> RST_STREAM_TYPE"
      by (cases r) (auto simp: SYN_STREAM_TYPE_def RST_STREAM_TYPE_def)
  qed
qed

lemma process_command_resets:
  assumes "process_writer_command z io cmd st = Some (st', False, n)" "raw_is_data cmd"
  shows "wire_resets (wire st') = wire_resets (wire st) @ command_resets cmd"
proof (cases cmd)
  case (OpenStreamPair eid did eh dh)
  then have "write_open_pair z io eid did eh dh st = Some (st', False, n)"
    using assms by (simp add: process_writer_command_def)
  from write_open_pair_Ok [OF this] show ?thesis using OpenStreamPair by (auto simp: command_resets_def)
next
  case (SendWsPong payload)
  then show ?thesis
    using assms by (auto simp: process_writer_command_def write_pong_def command_resets_def item_reset_def
        dest!: write_item_Ok split: prod.splits)
next
  case (CloseStream sid status)
  then show ?thesis
    using assms by (auto simp: process_writer_command_def command_resets_def dest!: write_close_Ok)
next
  case (SendRawFrame fb)
  then show ?thesis
    using assms by (auto simp: process_writer_command_def encode_command_def command_resets_def raw_is_data_def
        item_reset_other dest!: write_frame_Ok)
qed (use assms in \<open>auto simp: process_writer_command_def encode_command_def command_resets_def dest!: write_frame_Ok\<close>)

lemma process_batch_resets:
  assumes "process_batch z io cmds st = Some (st', False)" "list_all raw_is_data cmds"
  shows "wire_resets (wire st') = wire_resets (wire st) @ concat (map command_resets cmds)"
  using assms
proof (induction cmds arbitrary: st)
  case (Cons c cs)
  then obtain st1 n where p: "process_writer_command z io c st = Some (st1, False, n)"
    and b: "process_batch z io cs (st1\<lparr>bytes_since_flush := bytes_since_flush st1 + n\<rparr>) = Some (st', False)"
    by (auto simp: process_counted_def split: Option.bind_splits if_splits prod.splits)
  from process_command_resets [OF p] Cons.IH [OF b] Cons.prems(2) show ?case by simp
qed simp

lemma writer_iteration_resets:
  assumes it: "writer_iteration z cfg io ev now outcome st = Some (st', sent, False)"
    and raw: "list_all raw_is_data (event_commands ev)"
  shows "wire_resets (wire st') = wire_resets (wire st) @ concat (map command_resets (event_commands ev))"
proof -
  obtain flow where flow: "writer_select z cfg io ev st = Some flow"
    using it by (auto simp: writer_iteration_def split: Option.bind_splits)
  have wire: "wire st' = wire st1" if "flow = WFlush st1 False" for st1
    using it flow that by (auto simp: writer_iteration_def end_of_batch_flush_def flush_wire_def Let_def
        split: prod.splits if_splits)
  from flow show ?thesis
  proof (cases rule: writer_select_cases)
    case break
    then show ?thesis using it flow by (simp add: writer_iteration_def)
  next
    case continue
    then show ?thesis using it flow by (simp add: writer_iteration_def)
  next
    case (batch st1 err)
    then have ne: "\<not> err" using it flow by (auto simp: writer_iteration_def)
    then show ?thesis using process_batch_resets [of z io "event_commands ev" st st1] batch raw wire by simp
  next
    case (keepalive st1 err)
    then have ne: "\<not> err" using it flow by (auto simp: writer_iteration_def)
    then have "wire_resets (wire st1) = wire_resets (wire st)"
      using keepalive(1) by (auto simp: write_keepalive_def dest!: write_item_Ok split: prod.splits)
    then show ?thesis using keepalive ne wire by simp
  qed
qed

lemma writer_run_resets:
  assumes "writer_run z cfg io st cmds sent" "list_all raw_is_data cmds"
  shows "wire_resets (wire st) = concat (map command_resets cmds)"
  using assms
proof (induction rule: writer_run.induct)
  case (start now st)
  then show ?case
    by (auto simp: writer_start_def write_and_flush_def write_item_def flush_wire_def Let_def split: if_splits)
next
  case (iterate st cmds sent ev now outcome st' new)
  then show ?case using writer_iteration_resets [OF iterate.hyps(2)] by simp
qed

section \<open>Properties\<close>

text \<open>
  C18.  What the writer puts on the wire is what the peer reads.  When a batch of commands, with header
  blocks of at most 768 bytes, has been written, a peer whose decompressor is in step decodes the new
  bytes to exactly the frames of those commands, in order: SYN_STREAM(error), SYN_STREAM(data), then an empty DATA with FIN on the error
  stream for an open; one frame for every other command; and the two sides are in step again.
\<close>

theorem writer_wire_decodes:
  assumes "zlib_transfers z R" "codec_sync z R (wr_codec st) d" "mfs \<le> unat (codec_max_frame_size d)"
    and "list_all (wf_command mfs) cmds" and "process_batch z io cmds st = Some (st', False)"
  shows "\<exists>bytes d'. wire_bytes (wire st') = wire_bytes (wire st) @ bytes \<and>
    decodes_to z d bytes (concat (map command_frames cmds)) d' \<and> codec_sync z R (wr_codec st') d'"
  by (rule batch_decodes [OF assms])

text \<open>
  C19.  Nothing waits behind a sleeping writer.  Whenever the writer's loop goes back to wait for an
  event, no counted byte is unflushed: everything it wrote after the last flush is a WebSocket PONG
  or one of its own keepalive PINGs, whose identifiers are odd, so that no peer takes them for its own.
\<close>

theorem writer_waits_flushed:
  assumes "run_writer z cfg io t0 rounds = Some (st, sent, False)"
  shows "bytes_since_flush st = 0 \<and> list_all quiet (drop (flushed st) (wire st)) \<and> odd (keepalive_id st)"
  using writer_run_head [OF run_writer_run [OF assms]] by (simp add: head_inv_def)

text \<open>
  C20.  Resets are exact.  In every run, as long as the raw frames that streams hand over are DATA
  frames, the RST_STREAM frames on the wire are those of the \<open>CloseStream\<close> commands taken, in their order,
  each with the stream identifier and the status of its command; and they correspond one to one to
  the \<open>Close\<close> messages delivered to the worker of the stream's shard and the identifiers still
  queued: a full channel delays the notification, and never loses or repeats it.
\<close>

theorem writer_closes_conserved:
  assumes "run_writer z cfg io t0 rounds = Some (st, sent, False)"
    and "list_all raw_is_data (rounds_commands rounds)"
  shows "wire_resets (wire st) = concat (map command_resets (rounds_commands rounds)) \<and>
    (\<exists>ids. sent = map (\<lambda>sid. (shard sid, RegClose sid)) ids \<and>
      mset (map fst (wire_resets (wire st))) = mset ids + mset (pending_closes st))"
proof -
  note run = run_writer_run [OF assms(1)]
  show ?thesis
    using writer_run_head [OF run] writer_run_resets [OF run assms(2)] by (auto simp: command_closes_resets)
qed

definition example_writer :: "(bool, bool) writer_state" where
  "example_writer = \<lparr>wr_codec = with_max_frame_size stored 1024, wire = [], flushed = 0, io_calls = 0,
     pending_closes = [], bytes_since_flush = 0, keepalive_id = 3, last_writer_progress = 0\<rparr>"

theorem writer_wire_decodes_witness:
  "\<exists>bytes d'. decodes_to stored (with_max_frame_size stored 1024) bytes
     [WindowUpdate 5 10, RstStream 7 5, Data 3 [1, 2] False] d'"
proof -
  have b: "\<exists>st'. process_batch stored (\<lambda>_. IoOk) [EncodeWindowUpdate 5 10, CloseStream 7 5, SendData 3 [1, 2] False]
      example_writer = Some (st', False)"
    by (simp add: process_counted_def process_writer_command_def write_frame_def write_close_def write_item_def Let_def)
  then obtain st' where "process_batch stored (\<lambda>_. IoOk) [EncodeWindowUpdate 5 10, CloseStream 7 5, SendData 3 [1, 2] False]
      example_writer = Some (st', False)" by blast
  moreover have "codec_sync stored stored_rel (wr_codec example_writer) (with_max_frame_size stored 1024)"
    using stored_sync_new by (simp add: example_writer_def)
  ultimately show ?thesis
    using writer_wire_decodes [OF stored_transfers, of example_writer "with_max_frame_size stored 1024" 1024
        "[EncodeWindowUpdate 5 10, CloseStream 7 5, SendData 3 [1, 2] False]" "\<lambda>_. IoOk" st']
    by (fastforce simp: wf_command_def command_frames_def with_max_frame_size_def)
qed

definition example_writer_config :: writer_config where
  "example_writer_config = \<lparr>wc_initial_window_size = 4, wc_max_concurrent_streams = 8, wc_ping_interval = 30,
     wc_write_timeout = 30, wc_max_frame_size = 1024\<rparr>"

definition example_rounds :: "(writer_event \<times> nat \<times> (nat \<Rightarrow> send_result)) list" where
  "example_rounds = [(WEvControl (Some (CloseStream 7 5)) [], 1, \<lambda>_. SendOk)]"

lemma example_writer_run:
  "\<exists>st sent. run_writer stored example_writer_config (\<lambda>_. IoOk) 0 example_rounds = Some (st, sent, False)"
  by (simp add: run_writer_def example_rounds_def writer_start_def write_and_flush_def writer_iteration_def
      writer_select_def process_counted_def process_writer_command_def write_close_def
      write_frame_def write_item_def end_of_batch_flush_def flush_wire_def Let_def encode_rst_stream_def)

theorem writer_waits_flushed_witness:
  "\<exists>st sent. run_writer stored example_writer_config (\<lambda>_. IoOk) 0 example_rounds = Some (st, sent, False) \<and>
    bytes_since_flush st = 0"
  using example_writer_run writer_waits_flushed by blast

theorem writer_closes_conserved_witness:
  "\<exists>st sent ids. run_writer stored example_writer_config (\<lambda>_. IoOk) 0 example_rounds = Some (st, sent, False) \<and>
    wire_resets (wire st) = [(7, 5)] \<and> mset [7] = mset ids + mset (pending_closes st)"
proof -
  obtain st sent where run: "run_writer stored example_writer_config (\<lambda>_. IoOk) 0 example_rounds = Some (st, sent, False)"
    using example_writer_run by blast
  have c: "rounds_commands example_rounds = [CloseStream 7 5]"
    by (simp add: rounds_commands_def example_rounds_def event_commands_def)
  with writer_closes_conserved [OF run] run show ?thesis
    by (auto simp: command_resets_def raw_is_data_def)
qed

end
