(* ===== verification/Handle.thy ===== *)
theory Handle
  imports Commands Window
begin

text \<open>
  The handle of one multiplexed connection (\<^verbatim>\<open>crates/spdy-mux/src/mux/handle.rs\<close>): capacity
  reservation, allocation of stream identifiers, and the realisation of a stream pair.

  The handle is cloned freely; all its mutable state is in \<open>Arc\<close>s, so the record is that shared
  state.  \<open>AtomicUsize\<close> is a 64-bit word.  The messages go to channels whose outcomes are arguments
  (\<open>realize_env\<close>).  \<open>Arc::new(SendWindow::new(..))\<close> takes the next free name of the store of windows,
  \<open>oneshot::channel()\<close> the next free reply name.  The loads inside the critical section of
  \<open>realize_stream_pair\<close> are taken at the instant the lock is acquired; the check before the lock may
  see an earlier state.  \<open>open_stream_pair\<close> holds no lock: its atomic accesses are separate
  definitions, so that they can be interleaved.
\<close>

record mux_handle =
  active_pairs :: u64
  open_seq :: open_state
  peer_initial_window :: u32
  peer_max_concurrent :: u32
  local_max_concurrent :: u32
  local_operating_max :: u32
  goaway_received :: bool
  h_stream_data_buffer :: nat
  h_stream_error_buffer :: nat
  h_max_frame_size :: u32
  h_closed :: bool
  h_windows :: "win_id \<Rightarrow> send_window"
  h_next_win :: win_id
  h_next_reply :: reply_id

definition spawn_handle :: "mux_config \<Rightarrow> (win_id \<Rightarrow> send_window) \<Rightarrow> mux_handle" where
  "spawn_handle config wins =
     \<lparr>active_pairs = 0, open_seq = \<lparr>next_stream_id = 1\<rparr>,
      peer_initial_window = cfg_initial_window_size config, peer_max_concurrent = 0,
      local_max_concurrent = cfg_max_concurrent_streams config,
      local_operating_max = operating_max_streams config, goaway_received = False,
      h_stream_data_buffer = stream_data_buffer config, h_stream_error_buffer = stream_error_buffer config,
      h_max_frame_size = cfg_max_frame_size config, h_closed = False,
      h_windows = wins, h_next_win = 0, h_next_reply = 0\<rparr>"

text \<open>What \<open>spawn\<close> makes of the wait for the first PING: timeout, dropped sender, or an answer.\<close>

datatype ping_wait = PingElapsed | PingDropped | PingAnswered "(spdy_error, unit) result"

definition spawn_result :: "mux_handle \<Rightarrow> ping_wait \<Rightarrow> (spdy_error, mux_handle) result" where
  "spawn_result h w =
     (case w of
        PingAnswered (Inr u) \<Rightarrow> Ok h
      | PingAnswered (Inl e) \<Rightarrow> Err e
      | PingDropped \<Rightarrow> Err MuxClosed
      | PingElapsed \<Rightarrow> Err (SynReplyTimeout 0))"

section \<open>Limits\<close>

definition operating_limit :: "mux_handle \<Rightarrow> u32" where
  "operating_limit h =
     (if peer_max_concurrent h > 0 then min (local_operating_max h) (peer_max_concurrent h)
      else local_operating_max h)"

definition hard_limit :: "mux_handle \<Rightarrow> u32" where
  "hard_limit h =
     (if peer_max_concurrent h > 0 then min (local_max_concurrent h) (peer_max_concurrent h)
      else local_max_concurrent h)"

definition operating_capacity :: "mux_handle \<Rightarrow> nat" where
  "operating_capacity h = unat (operating_limit h) - unat (active_pairs h)"

definition max_concurrent :: "mux_handle \<Rightarrow> u32" where
  "max_concurrent h = hard_limit h"

definition release_pair :: "mux_handle \<Rightarrow> mux_handle" where
  "release_pair h = h\<lparr>active_pairs := active_pairs h - 1\<rparr>"

section \<open>Reservation\<close>

text \<open>The \<open>fetch_add\<close>, and the decision on the value it returned.\<close>

definition reserve_pair :: "mux_handle \<Rightarrow> u64 \<times> mux_handle" where
  "reserve_pair h = (active_pairs h, h\<lparr>active_pairs := active_pairs h + 1\<rparr>)"

definition reserve_verdict :: "u64 \<Rightarrow> mux_handle \<Rightarrow> (spdy_error, unit) result" where
  "reserve_verdict prev h =
     (if (ucast prev :: u32) \<ge> operating_limit h then Err (CapacityExhausted (unat prev) (operating_limit h))
      else if (ucast prev :: u32) \<ge> hard_limit h then Err (CapacityExhausted (unat prev) (hard_limit h))
      else Ok ())"

record unopened_parts =
  up_error_headers :: "header list"
  up_data_headers :: "header list"
  up_max_frame_size :: u32

definition open_stream_pair ::
  "header list \<Rightarrow> header list \<Rightarrow> mux_handle \<Rightarrow> mux_handle \<times> (spdy_error, unopened_parts) result" where
  "open_stream_pair eh dh h =
     (if h_closed h then (h, Err MuxClosed)
      else if goaway_received h then (h, Err MuxClosed)
      else let (prev, h1) = reserve_pair h in
      case reserve_verdict prev h1 of
        Inl e \<Rightarrow> (release_pair h1, Err e)
      | Inr u \<Rightarrow>
          (h1, Ok \<lparr>up_error_headers = eh, up_data_headers = dh, up_max_frame_size = h_max_frame_size h1\<rparr>))"

section \<open>Realisation\<close>

datatype handle_effect =
    HReg nat stream_registration
  | HCloseReg nat stream_registration
  | HCmd mux_command
  | HControl mux_command

text \<open>The outcomes of the three \<open>try_send\<close>s and the four \<open>try_reserve_owned\<close>s, in order.\<close>

record realize_env =
  env_reg_error :: send_result
  env_reg_data :: send_result
  env_cmd :: send_result
  env_ctrl_permit_error :: bool
  env_ctrl_permit_data :: bool
  env_close_permit_error :: bool
  env_close_permit_data :: bool

record opened_parts =
  op_data_id :: u32
  op_error_id :: u32
  op_send_window :: win_id

definition close_reg :: "u32 \<Rightarrow> handle_effect" where
  "close_reg sid = HCloseReg (shard sid) (RegClose sid)"

definition send_failure :: "mux_handle \<Rightarrow> send_result \<Rightarrow> spdy_error" where
  "send_failure h r =
     (if r = SendFull then CapacityExhausted (unat (active_pairs h)) (operating_limit h) else MuxClosed)"

definition all_permits :: "realize_env \<Rightarrow> bool" where
  "all_permits env \<longleftrightarrow> env_ctrl_permit_error env \<and> env_ctrl_permit_data env \<and>
     env_close_permit_error env \<and> env_close_permit_data env"

text \<open>\<open>Arc::new(SendWindow::new(..))\<close> and \<open>oneshot::channel()\<close>, twice each.\<close>

definition alloc_pair :: "mux_handle \<Rightarrow> mux_handle" where
  "alloc_pair h =
     h\<lparr>h_windows := (h_windows h)(h_next_win h := sw_new (peer_initial_window h),
                                 h_next_win h + 1 := sw_new (peer_initial_window h)),
       h_next_win := h_next_win h + 2, h_next_reply := h_next_reply h + 2\<rparr>"

text \<open>From the registration of the error stream to the end, for identifiers already allocated.\<close>

definition register_pair ::
  "header list \<Rightarrow> header list \<Rightarrow> chan_id \<Rightarrow> chan_id \<Rightarrow> realize_env \<Rightarrow> u32 \<Rightarrow> u32 \<Rightarrow> win_id \<Rightarrow> reply_id
    \<Rightarrow> mux_handle \<Rightarrow> handle_effect list \<times> (spdy_error, opened_parts) result" where
  "register_pair eh dh data_ch error_ch env eid did win rid h =
     (let reg_e = HReg (shard eid) (RegOpen eid error_ch rid win);
          reg_d = HReg (shard did) (RegOpen did data_ch (rid + 1) (win + 1));
          cmd = HCmd (OpenStreamPair eid did eh dh)
      in
      if env_reg_error env \<noteq> SendOk then ([], Err (send_failure h (env_reg_error env)))
      else if env_reg_data env \<noteq> SendOk
        then ([reg_e, close_reg eid], Err (send_failure h (env_reg_data env)))
      else if env_cmd env \<noteq> SendOk
        then ([reg_e, reg_d, close_reg eid, close_reg did], Err (send_failure h (env_cmd env)))
      else if \<not> all_permits env
        then ([reg_e, reg_d, cmd, close_reg eid, close_reg did], Err MuxClosed)
      else ([reg_e, reg_d, cmd],
            Ok \<lparr>op_data_id = did, op_error_id = eid, op_send_window = win + 1\<rparr>))"

definition realize_locked ::
  "header list \<Rightarrow> header list \<Rightarrow> chan_id \<Rightarrow> chan_id \<Rightarrow> realize_env \<Rightarrow> mux_handle
    \<Rightarrow> mux_handle \<times> handle_effect list \<times> (spdy_error, opened_parts) result" where
  "realize_locked eh dh data_ch error_ch env h =
     (if h_closed h then (h, [], Err MuxClosed)
      else if goaway_received h then (h, [], Err MuxClosed)
      else let eid = next_stream_id (open_seq h); did = eid + 2 in
      if did > MAX_STREAM_ID \<or> eid > MAX_STREAM_ID
      then (h, [HControl (CmdGoAway (eid - 2))], Err MuxClosed)
      else let h1 = h\<lparr>open_seq := \<lparr>next_stream_id = did + 2\<rparr>\<rparr>;
               (effs, r) = register_pair eh dh data_ch error_ch env eid did (h_next_win h) (h_next_reply h) h1
           in (alloc_pair h1, effs, r))"

text \<open>\<open>before\<close> is the state that the check ahead of the lock sees.\<close>

definition realize_stream_pair ::
  "header list \<Rightarrow> header list \<Rightarrow> chan_id \<Rightarrow> chan_id \<Rightarrow> realize_env \<Rightarrow> mux_handle \<Rightarrow> mux_handle
    \<Rightarrow> mux_handle \<times> handle_effect list \<times> (spdy_error, opened_parts) result" where
  "realize_stream_pair eh dh data_ch error_ch env before h =
     (if h_closed before then (h, [], Err MuxClosed)
      else if goaway_received before then (h, [], Err MuxClosed)
      else realize_locked eh dh data_ch error_ch env h)"

end
