(* ===== verification/Handle_Laws.thy ===== *)
theory Handle_Laws
  imports Handle
begin

text \<open>
  Concurrent callers of one handle: the number of open pairs never exceeds the limits although
  reservations race, and stream identifiers are allocated in strictly increasing order, odd, and
  never twice, whatever the channels answer and whatever the reader changes in between.
\<close>

section \<open>Racing reservations\<close>

text \<open>
  \<open>inflight\<close> holds, for each caller between its \<open>fetch_add\<close> and its decision, the value the
  \<open>fetch_add\<close> returned; \<open>accepted\<close> counts the pairs handed out and not yet released.  At most
  \<open>threads\<close> callers are inside \<open>open_stream_pair\<close> at once.  The peer may change its limit to any of \<open>peer\<close>.
\<close>

record capacity_state =
  cs_handle :: mux_handle
  cs_inflight :: "u64 list"
  cs_accepted :: nat

inductive cap_step :: "nat \<Rightarrow> u32 set \<Rightarrow> capacity_state \<Rightarrow> capacity_state \<Rightarrow> bool" for threads peer where
  reserve: "length (cs_inflight s) < threads \<Longrightarrow> reserve_pair (cs_handle s) = (prev, h) \<Longrightarrow>
    cap_step threads peer s (s\<lparr>cs_handle := h, cs_inflight := prev # cs_inflight s\<rparr>)"
| accept: "prev \<in> set (cs_inflight s) \<Longrightarrow> reserve_verdict prev (cs_handle s) = Ok () \<Longrightarrow>
    cap_step threads peer s (s\<lparr>cs_inflight := remove1 prev (cs_inflight s), cs_accepted := Suc (cs_accepted s)\<rparr>)"
| reject: "prev \<in> set (cs_inflight s) \<Longrightarrow> reserve_verdict prev (cs_handle s) = Err e \<Longrightarrow>
    cap_step threads peer s (s\<lparr>cs_handle := release_pair (cs_handle s), cs_inflight := remove1 prev (cs_inflight s)\<rparr>)"
| release: "0 < cs_accepted s \<Longrightarrow>
    cap_step threads peer s (s\<lparr>cs_handle := release_pair (cs_handle s), cs_accepted := cs_accepted s - 1\<rparr>)"
| settings: "m \<in> peer \<Longrightarrow>
    cap_step threads peer s (s\<lparr>cs_handle := (cs_handle s)\<lparr>peer_max_concurrent := m\<rparr>\<rparr>)"

inductive cap_reach :: "nat \<Rightarrow> u32 set \<Rightarrow> mux_handle \<Rightarrow> capacity_state \<Rightarrow> bool" for threads peer h0 where
  start: "cap_reach threads peer h0 \<lparr>cs_handle = h0, cs_inflight = [], cs_accepted = 0\<rparr>"
| step: "cap_reach threads peer h0 s \<Longrightarrow> cap_step threads peer s s' \<Longrightarrow> cap_reach threads peer h0 s'"

text \<open>The smallest number of pairs at which every caller is refused.\<close>

definition pair_limit :: "mux_handle \<Rightarrow> nat" where
  "pair_limit h = min (unat (operating_limit h)) (unat (hard_limit h))"

lemma unat_ucast_prev: "unat prev < 2 ^ 32 \<Longrightarrow> unat (ucast (prev :: u64) :: u32) = unat prev"
  by (simp add: unsigned_ucast_eq take_bit_nat_eq_self)

lemma reserve_verdict_Ok:
  "unat prev < 2 ^ 32 \<Longrightarrow> reserve_verdict prev h = Ok () \<longleftrightarrow> unat prev < pair_limit h"
  by (auto simp: reserve_verdict_def pair_limit_def word_le_nat_alt word_less_nat_alt unat_ucast_prev not_le)

definition cap_inv :: "nat \<Rightarrow> nat \<Rightarrow> capacity_state \<Rightarrow> bool" where
  "cap_inv threads L s \<longleftrightarrow>
     unat (active_pairs (cs_handle s)) = cs_accepted s + length (cs_inflight s) \<and>
     length (cs_inflight s) \<le> threads \<and>
     cs_accepted s + length (filter (\<lambda>p. unat p < L) (cs_inflight s)) \<le> L \<and>
     (\<forall>p\<in>set (cs_inflight s). unat p < 2 ^ 32)"

lemma length_filter_remove1:
  "x \<in> set xs \<Longrightarrow> length (filter P (remove1 x xs)) + (if P x then 1 else 0) = length (filter P xs)"
proof (induction xs)
  case (Cons y ys)
  then show ?case by (cases "x = y") auto
qed simp

lemma length_remove1_in: "x \<in> set xs \<Longrightarrow> length (remove1 x xs) + 1 = length xs"
  using length_pos_if_in_set [of x xs] by (simp add: length_remove1)

lemma unat_dec: "0 < unat (a :: u64) \<Longrightarrow> unat (a - 1) = unat a - 1"
  by (metis unat_gt_0 unat_minus_one)

lemma cap_step_inv:
  assumes "cap_step threads peer s s'" "cap_inv threads L s" "L + threads < 2 ^ 32"
    "pair_limit (cs_handle s) \<le> L"
  shows "cap_inv threads L s'"
  using assms(1)
proof (cases rule: cap_step.cases)
  case (reserve prev h)
  have a: "unat (active_pairs (cs_handle s)) = cs_accepted s + length (cs_inflight s)"
    "cs_accepted s + length (filter (\<lambda>p. unat p < L) (cs_inflight s)) \<le> L"
    using assms(2) by (auto simp: cap_inv_def)
  have small: "unat (active_pairs (cs_handle s)) + 1 < 2 ^ 32" using a reserve(2) assms(3) by simp
  then have "unat (active_pairs (cs_handle s) + 1) = unat (active_pairs (cs_handle s)) + 1"
    by (simp add: unat_word_ariths)
  moreover have "cs_accepted s + length (filter (\<lambda>p. unat p < L) (cs_inflight s)) < L"
    if "unat (active_pairs (cs_handle s)) < L"
    using that a(1) length_filter_le [of "\<lambda>p. unat p < L" "cs_inflight s"] by linarith
  ultimately show ?thesis
    using reserve assms(2) small by (auto simp: cap_inv_def reserve_pair_def)
next
  case (accept prev)
  then have p: "unat prev < L"
    using assms(2,4) reserve_verdict_Ok [of prev] by (auto simp: cap_inv_def)
  show ?thesis
    using accept assms(2) p length_filter_remove1 [OF accept(2), of "\<lambda>p. unat p < L"]
      length_remove1_in [OF accept(2)] notin_set_remove1 [of _ "cs_inflight s" prev]
    by (auto simp: cap_inv_def)
next
  case (reject prev e)
  have "0 < length (cs_inflight s)" using reject(2) by (rule length_pos_if_in_set)
  then show ?thesis
    using reject assms(2) length_filter_remove1 [OF reject(2), of "\<lambda>p. unat p < L"]
      length_remove1_in [OF reject(2)] notin_set_remove1 [of _ "cs_inflight s" prev]
      unat_dec [of "active_pairs (cs_handle s)"]
    by (auto simp: cap_inv_def release_pair_def split: if_splits)
next
  case release
  then show ?thesis
    using assms(2) unat_dec [of "active_pairs (cs_handle s)"] by (auto simp: cap_inv_def release_pair_def)
next
  case (settings m)
  then show ?thesis using assms(2) by (simp add: cap_inv_def)
qed

text \<open>The limits of the handle, with its peer setting replaced.\<close>

definition limit_with :: "mux_handle \<Rightarrow> u32 \<Rightarrow> nat" where
  "limit_with h m = pair_limit (h\<lparr>peer_max_concurrent := m\<rparr>)"

lemma pair_limit_with:
  "local_operating_max h = local_operating_max h0 \<Longrightarrow> local_max_concurrent h = local_max_concurrent h0 \<Longrightarrow>
    pair_limit h = limit_with h0 (peer_max_concurrent h)"
  by (simp add: limit_with_def pair_limit_def operating_limit_def hard_limit_def)

lemma cap_step_frame:
  assumes "cap_step threads peer s s'"
  shows "local_operating_max (cs_handle s') = local_operating_max (cs_handle s) \<and>
    local_max_concurrent (cs_handle s') = local_max_concurrent (cs_handle s) \<and>
    (peer_max_concurrent (cs_handle s') = peer_max_concurrent (cs_handle s) \<or>
     peer_max_concurrent (cs_handle s') \<in> peer)"
  using assms by (cases rule: cap_step.cases) (auto simp: reserve_pair_def release_pair_def)

lemma cap_reach_inv:
  assumes reach: "cap_reach threads peer h0 s" and h0: "active_pairs h0 = 0"
    and lim: "\<And>m. m \<in> insert (peer_max_concurrent h0) peer \<Longrightarrow> limit_with h0 m \<le> L"
    and small: "L + threads < 2 ^ 32"
  shows "cap_inv threads L s \<and> pair_limit (cs_handle s) \<le> L"
proof -
  have "cap_inv threads L s \<and> local_operating_max (cs_handle s) = local_operating_max h0 \<and>
      local_max_concurrent (cs_handle s) = local_max_concurrent h0 \<and>
      peer_max_concurrent (cs_handle s) \<in> insert (peer_max_concurrent h0) peer"
    using reach
  proof (induction rule: cap_reach.induct)
    case start
    then show ?case using h0 by (simp add: cap_inv_def)
  next
    case (step s s')
    then have "pair_limit (cs_handle s) \<le> L"
      using lim pair_limit_with [of "cs_handle s" h0] by simp
    then show ?case
      using step cap_step_inv [OF step.hyps(2) _ small] cap_step_frame [OF step.hyps(2)] by auto
  qed
  then show ?thesis using lim pair_limit_with [of "cs_handle s" h0] by simp
qed

section \<open>Allocation\<close>

text \<open>
  A history of one handle: calls of \<open>realize_stream_pair\<close>, serialised by the lock, and between them
  any change by other tasks to what the lock does not protect.  The log collects the messages.
\<close>

definition same_sequencer :: "mux_handle \<Rightarrow> mux_handle \<Rightarrow> bool" where
  "same_sequencer h h' \<longleftrightarrow> open_seq h' = open_seq h \<and> h_next_win h' = h_next_win h \<and>
     h_next_reply h' = h_next_reply h"

inductive handle_run :: "mux_config \<Rightarrow> mux_handle \<Rightarrow> handle_effect list \<Rightarrow> bool" for config where
  spawn: "handle_run config (spawn_handle config wins) []"
| call: "handle_run config h log \<Longrightarrow>
    realize_stream_pair eh dh dch ech env before h = (h', effs, r) \<Longrightarrow> handle_run config h' (log @ effs)"
| other: "handle_run config h log \<Longrightarrow> same_sequencer h h' \<Longrightarrow> handle_run config h' log"

definition syn_ids :: "handle_effect list \<Rightarrow> u32 list" where
  "syn_ids log = concat (map (\<lambda>e. case e of HCmd (OpenStreamPair eid did eh dh) \<Rightarrow> [eid, did] | _ \<Rightarrow> []) log)"

definition reg_opens :: "handle_effect list \<Rightarrow> (nat \<times> u32 \<times> win_id) list" where
  "reg_opens log = concat (map (\<lambda>e. case e of HReg k (RegOpen sid ch rid win) \<Rightarrow> [(k, sid, win)] | _ \<Rightarrow> []) log)"

lemma log_append [simp]:
  "syn_ids (xs @ ys) = syn_ids xs @ syn_ids ys" "reg_opens (xs @ ys) = reg_opens xs @ reg_opens ys"
  "syn_ids [] = []" "reg_opens [] = []"
  by (simp_all add: syn_ids_def reg_opens_def)

text \<open>What one call can do: nothing, refuse for lack of identifiers, or use up one pair of them.\<close>

lemma register_pair_log:
  assumes "register_pair eh dh dch ech env eid did win rid h = (effs, r)"
  shows "syn_ids effs \<in> {[], [eid, did]}"
    "reg_opens effs \<in> {[], [(shard eid, eid, win)], [(shard eid, eid, win), (shard did, did, win + 1)]}"
  using assms
  by (auto simp: register_pair_def Let_def syn_ids_def reg_opens_def close_reg_def split: if_splits)

lemma realize_cases:
  assumes "realize_stream_pair eh dh dch ech env before h = (h', effs, r)"
  obtains (refused) "h' = h" "effs = []" "r = Err MuxClosed"
  | (exhausted) "h' = h" "next_stream_id (open_seq h) + 2 > MAX_STREAM_ID \<or> next_stream_id (open_seq h) > MAX_STREAM_ID"
      "effs = [HControl (CmdGoAway (next_stream_id (open_seq h) - 2))]" "r = Err MuxClosed"
  | (allocated) eid h1 where "eid = next_stream_id (open_seq h)" "eid \<le> MAX_STREAM_ID" "eid + 2 \<le> MAX_STREAM_ID"
      "h1 = h\<lparr>open_seq := \<lparr>next_stream_id = eid + 4\<rparr>\<rparr>" "h' = alloc_pair h1"
      "register_pair eh dh dch ech env eid (eid + 2) (h_next_win h) (h_next_reply h) h1 = (effs, r)"
proof (cases "h_closed before \<or> goaway_received before \<or> h_closed h \<or> goaway_received h")
  case True
  then show ?thesis using assms refused by (auto simp: realize_stream_pair_def realize_locked_def split: if_splits)
next
  case False
  then have eq: "realize_locked eh dh dch ech env h = (h', effs, r)" "\<not> h_closed h" "\<not> goaway_received h"
    using assms by (auto simp: realize_stream_pair_def)
  let ?eid = "next_stream_id (open_seq h)"
  show ?thesis
  proof (cases "?eid + 2 > MAX_STREAM_ID \<or> ?eid > MAX_STREAM_ID")
    case True
    then show ?thesis using eq exhausted by (auto simp: realize_locked_def Let_def)
  next
    case False
    then have "\<not> MAX_STREAM_ID < ?eid + 2" "\<not> MAX_STREAM_ID < ?eid" by simp_all
    moreover from this have "?eid + 2 \<le> MAX_STREAM_ID" "?eid \<le> MAX_STREAM_ID" by (simp_all only: not_less)
    ultimately show ?thesis using eq allocated [of ?eid "h\<lparr>open_seq := \<lparr>next_stream_id = ?eid + 4\<rparr>\<rparr>"]
      by (simp add: realize_locked_def Let_def add.assoc split: prod.splits)
  qed
qed

definition seq_inv :: "mux_handle \<Rightarrow> handle_effect list \<Rightarrow> bool" where
  "seq_inv h log \<longleftrightarrow>
     (let next_id = unat (next_stream_id (open_seq h)) in
      next_id mod 4 = 1 \<and> next_id \<le> 2 ^ 31 + 1 \<and>
      sorted_wrt (<) (syn_ids log) \<and> (\<forall>sid\<in>set (syn_ids log). odd (unat sid) \<and> unat sid < next_id) \<and>
      distinct (map (fst \<circ> snd) (reg_opens log)) \<and> distinct (map (snd \<circ> snd) (reg_opens log)) \<and>
      (\<forall>(k, sid, win)\<in>set (reg_opens log). k = shard sid \<and> unat sid < next_id \<and> win < h_next_win h))"

lemma sequencer_arith:
  assumes "unat (eid :: u32) mod 4 = 1" "eid \<le> MAX_STREAM_ID" "eid + 2 \<le> MAX_STREAM_ID"
  shows "unat (eid + 2) = unat eid + 2" "unat (eid + 4) = unat eid + 4" "unat eid + 4 \<le> 2 ^ 31 + 1"
    "odd (unat eid)" "(unat eid + 4) mod 4 = 1"
proof -
  have e: "unat eid \<le> 2147483647" using assms(2) by (simp add: MAX_STREAM_ID_def word_le_nat_alt)
  then show two: "unat (eid + 2) = unat eid + 2" and four: "unat (eid + 4) = unat eid + 4"
    by (simp_all add: unat_word_ariths)
  have "unat eid + 2 \<le> 2147483647" using assms(3) two by (simp add: MAX_STREAM_ID_def word_le_nat_alt)
  then show "unat eid + 4 \<le> 2 ^ 31 + 1" by simp
  show "odd (unat eid)" using assms(1) by presburger
  show "(unat eid + 4) mod 4 = 1" using assms(1) by simp
qed

lemma seq_inv_call:
  assumes inv: "seq_inv h log" and c: "realize_stream_pair eh dh dch ech env before h = (h', effs, r)"
  shows "seq_inv h' (log @ effs)"
  using c
proof (cases rule: realize_cases)
  case refused
  then show ?thesis using inv by simp
next
  case exhausted
  then have "syn_ids effs = []" "reg_opens effs = []" by (simp_all add: syn_ids_def reg_opens_def)
  then show ?thesis using inv exhausted by (simp add: seq_inv_def)
next
  case (allocated eid h1)
  have "unat eid mod 4 = 1" using inv allocated(1) by (simp add: seq_inv_def Let_def)
  note ar = sequencer_arith [OF this allocated(2,3)]
  have old: "\<forall>sid\<in>set (syn_ids log). unat sid < unat eid"
    "\<forall>(k, sid, win)\<in>set (reg_opens log). unat sid < unat eid \<and> win < h_next_win h"
    using inv allocated(1) by (auto simp: seq_inv_def Let_def)
  have lt: "eid < eid + 2" using ar(1) by (simp add: word_less_nat_alt)
  have "sorted_wrt (<) (syn_ids (log @ effs)) \<and>
      (\<forall>sid\<in>set (syn_ids (log @ effs)). odd (unat sid) \<and> unat sid < unat eid + 4)"
    using inv old(1) register_pair_log(1) [OF allocated(6)] lt ar
    by (fastforce simp: seq_inv_def Let_def sorted_wrt_append word_less_nat_alt)
  moreover have "distinct (map (fst \<circ> snd) (reg_opens (log @ effs)))"
    using inv old(2) register_pair_log(2) [OF allocated(6)] lt ar
    by (fastforce simp: seq_inv_def Let_def)
  moreover have "distinct (map (snd \<circ> snd) (reg_opens (log @ effs)))"
    using inv old(2) register_pair_log(2) [OF allocated(6)]
    by (fastforce simp: seq_inv_def Let_def)
  moreover have "\<forall>(k, sid, win)\<in>set (reg_opens (log @ effs)). k = shard sid \<and> unat sid < unat eid + 4 \<and> win < h_next_win h + 2"
    using inv old(2) register_pair_log(2) [OF allocated(6)] ar(1)
    by (fastforce simp: seq_inv_def Let_def)
  ultimately show ?thesis
    using ar allocated(4,5) by (simp add: seq_inv_def alloc_pair_def)
qed

lemma handle_run_seq_inv: "handle_run config h log \<Longrightarrow> seq_inv h log"
proof (induction rule: handle_run.induct)
  case (spawn wins)
  then show ?case by (simp add: seq_inv_def spawn_handle_def)
next
  case (call h log eh dh dch ech env before h' effs r)
  then show ?case using seq_inv_call by blast
next
  case (other h log h')
  then show ?case by (simp add: seq_inv_def same_sequencer_def)
qed

section \<open>Properties\<close>

text \<open>
  C10.  Capacity.  However the reservations, refusals and releases of any number of callers of
  \<open>open_stream_pair\<close> interleave, and whatever limits the peer announces in between, the pairs handed out
  and the reservations that will be granted never exceed the largest limit that was in force.
\<close>

theorem handle_capacity_respected:
  assumes "cap_reach threads peer (spawn_handle config wins) s"
    and "\<forall>m\<in>insert 0 peer. limit_with (spawn_handle config wins) m \<le> L" and "L + threads < 2 ^ 32"
  shows "cs_accepted s + length (filter (\<lambda>prev. unat prev < L) (cs_inflight s)) \<le> L \<and>
    unat (active_pairs (cs_handle s)) = cs_accepted s + length (cs_inflight s)"
proof -
  have "active_pairs (spawn_handle config wins) = 0" "peer_max_concurrent (spawn_handle config wins) = 0"
    by (simp_all add: spawn_handle_def)
  then have "cap_inv threads L s"
    using cap_reach_inv [OF assms(1) _ _ assms(3)] assms(2) by fastforce
  then show ?thesis by (simp add: cap_inv_def)
qed

theorem handle_capacity_respected_witness:
  "cs_accepted \<lparr>cs_handle = snd (reserve_pair (spawn_handle mux_config_default (\<lambda>_. sw_new 0))),
      cs_inflight = [0], cs_accepted = 0\<rparr> + length (filter (\<lambda>prev. unat prev < 64) [0 :: u64]) \<le> 64"
proof -
  let ?h = "spawn_handle mux_config_default (\<lambda>_. sw_new 0)"
  let ?s = "\<lparr>cs_handle = ?h, cs_inflight = [], cs_accepted = 0\<rparr>"
  have "cap_step 8 {} ?s (?s\<lparr>cs_handle := snd (reserve_pair ?h), cs_inflight := 0 # cs_inflight ?s\<rparr>)"
    by (rule cap_step.reserve) (simp_all add: reserve_pair_def spawn_handle_def)
  then have "cap_reach 8 {} ?h \<lparr>cs_handle = snd (reserve_pair ?h), cs_inflight = [0], cs_accepted = 0\<rparr>"
    using cap_reach.step [OF cap_reach.start] by simp
  moreover have "\<forall>m\<in>insert 0 {}. limit_with ?h m \<le> 64"
    by (simp add: limit_with_def pair_limit_def operating_limit_def hard_limit_def spawn_handle_def
        mux_config_default_def)
  ultimately show ?thesis
    using handle_capacity_respected [of 8 "{}" mux_config_default "\<lambda>_. sw_new 0" _ 64] by simp
qed

text \<open>
  C11.  Identifiers.  In every history of a handle, the SYN_STREAM pairs handed to the writer carry
  odd, strictly increasing identifiers, no identifier and no send window is registered with a worker
  twice, and every registration goes to the worker that owns its shard.
\<close>

theorem handle_ids_increase:
  assumes "handle_run config h log"
  shows "sorted_wrt (<) (syn_ids log) \<and> (\<forall>sid\<in>set (syn_ids log). odd (unat sid) \<and> sid \<le> MAX_STREAM_ID) \<and>
    distinct (map (fst \<circ> snd) (reg_opens log)) \<and> distinct (map (snd \<circ> snd) (reg_opens log)) \<and>
    (\<forall>(k, sid, win)\<in>set (reg_opens log). k = shard sid)"
proof -
  have inv: "seq_inv h log" by (rule handle_run_seq_inv [OF assms])
  have "sid \<le> MAX_STREAM_ID" if "sid \<in> set (syn_ids log)" for sid
  proof -
    have "unat sid < 2 ^ 31 + 1" "odd (unat sid)"
      using inv that by (auto simp: seq_inv_def Let_def)
    then have "unat sid \<noteq> 2 ^ 31" by auto
    with \<open>unat sid < 2 ^ 31 + 1\<close> show ?thesis by (simp add: MAX_STREAM_ID_def word_le_nat_alt)
  qed
  then show ?thesis using inv by (auto simp: seq_inv_def Let_def)
qed

text \<open>Every channel accepts.\<close>

definition env_ok :: realize_env where
  "env_ok = \<lparr>env_reg_error = SendOk, env_reg_data = SendOk, env_cmd = SendOk, env_ctrl_permit_error = True,
     env_ctrl_permit_data = True, env_close_permit_error = True, env_close_permit_data = True\<rparr>"

theorem handle_ids_increase_witness:
  "sorted_wrt (<) (syn_ids (fst (snd (realize_stream_pair [] [] 0 1 env_ok
      (spawn_handle mux_config_default (\<lambda>_. sw_new 0)) (spawn_handle mux_config_default (\<lambda>_. sw_new 0))))))"
proof -
  let ?h = "spawn_handle mux_config_default (\<lambda>_. sw_new 0)"
  obtain h' effs r where c: "realize_stream_pair [] [] 0 1 env_ok ?h ?h = (h', effs, r)"
    by (metis prod_cases3)
  have "handle_run mux_config_default h' effs"
    using handle_run.call [OF handle_run.spawn c] by simp
  then show ?thesis using handle_ids_increase c by fastforce
qed

text \<open>
  C12.  A failed realisation leaves nothing behind with the workers.  Every stream that a call has
  registered is either part of the pair it returns, or a \<open>Close\<close> for it is offered to the same worker
  after the registration; a returned pair is always registered, and before its SYN_STREAMs are queued.
\<close>

theorem handle_realize_all_or_nothing:
  assumes "realize_stream_pair eh dh dch ech env before h = (h', effs, r)"
  shows "case r of
      Inr parts \<Rightarrow> \<exists>rid win. effs = [HReg (shard (op_error_id parts)) (RegOpen (op_error_id parts) ech rid win),
          HReg (shard (op_data_id parts)) (RegOpen (op_data_id parts) dch (rid + 1) (op_send_window parts)),
          HCmd (OpenStreamPair (op_error_id parts) (op_data_id parts) eh dh)]
    | Inl e \<Rightarrow> \<forall>k sid ch rid win. HReg k (RegOpen sid ch rid win) \<in> set effs \<longrightarrow>
        (\<exists>before after. effs = before @ HCloseReg k (RegClose sid) # after \<and>
           HReg k (RegOpen sid ch rid win) \<in> set before)"
  using assms
proof (cases rule: realize_cases)
  case (allocated eid h1)
  let ?re = "HReg (shard eid) (RegOpen eid ech (h_next_reply h) (h_next_win h))"
  let ?rd = "HReg (shard (eid + 2)) (RegOpen (eid + 2) dch (h_next_reply h + 1) (h_next_win h + 1))"
  let ?cl = "[close_reg eid, close_reg (eid + 2)]" and ?cmd = "HCmd (OpenStreamPair eid (eid + 2) eh dh)"
  have after: "\<exists>before after. pre @ [close_reg a] @ post = before @ HCloseReg (shard a) (RegClose a) # after \<and>
      x \<in> set before" if "x \<in> set pre" for pre a post x
    using that by (intro exI [of _ pre] exI [of _ post]) (simp add: close_reg_def)
  have pairs: "\<exists>before after. pre @ ?cl = before @ HCloseReg k (RegClose sid) # after \<and>
      HReg k (RegOpen sid ch rid win) \<in> set before"
    if "HReg k (RegOpen sid ch rid win) \<in> set (pre @ ?cl)" "set pre \<subseteq> {?re, ?rd, ?cmd}" for pre k sid ch rid win
  proof -
    have i: "HReg k (RegOpen sid ch rid win) \<in> set pre" using that(1) by (auto simp: close_reg_def)
    with that(2) have "k = shard sid" "sid = eid \<or> sid = eid + 2" by auto
    then show ?thesis
      using after [OF i, of eid "[close_reg (eid + 2)]"] after [of "HReg k (RegOpen sid ch rid win)" "pre @ [close_reg eid]" "eid + 2" "[]"] i
      by auto
  qed
  have one: "\<exists>before after. [?re, close_reg eid] = before @ HCloseReg k (RegClose sid) # after \<and>
      HReg k (RegOpen sid ch rid win) \<in> set before"
    if "HReg k (RegOpen sid ch rid win) \<in> set [?re, close_reg eid]" for k sid ch rid win
    using that after [of ?re "[?re]" eid "[]"] by (auto simp: close_reg_def)
  note D = allocated(6) [unfolded register_pair_def Let_def]
  show ?thesis
  proof (cases r)
    case (Inr parts)
    then show ?thesis using D by (auto split: if_splits)
  next
    case (Inl e)
    then have "effs = [] \<or> effs = [?re, close_reg eid] \<or> effs = [?re, ?rd] @ ?cl \<or> effs = [?re, ?rd, ?cmd] @ ?cl"
      using D by (auto split: if_splits)
    then show ?thesis
      using one pairs [of _ _ _ _ _ "[?re, ?rd]"] pairs [of _ _ _ _ _ "[?re, ?rd, ?cmd]"] Inl by auto
  qed
qed auto

lemma realize_full_example:
  "realize_stream_pair [] [] 0 1 (env_ok\<lparr>env_cmd := SendFull\<rparr>) (spawn_handle mux_config_default w)
     (spawn_handle mux_config_default w) =
   (alloc_pair ((spawn_handle mux_config_default w)\<lparr>open_seq := \<lparr>next_stream_id = 5\<rparr>\<rparr>),
    [HReg 1 (RegOpen 1 1 0 0), HReg 3 (RegOpen 3 0 1 1), HCloseReg 1 (RegClose 1), HCloseReg 3 (RegClose 3)],
    Err (CapacityExhausted 0 64))"
  by (simp add: realize_stream_pair_def realize_locked_def register_pair_def env_ok_def spawn_handle_def
      mux_config_default_def MAX_STREAM_ID_def close_reg_def shard_unat send_failure_def operating_limit_def)

theorem handle_realize_all_or_nothing_witness:
  "\<exists>before after. [HReg 1 (RegOpen 1 1 0 0), HReg 3 (RegOpen 3 0 1 1), HCloseReg 1 (RegClose 1),
      HCloseReg 3 (RegClose 3)] = before @ HCloseReg 3 (RegClose 3) # after \<and>
    HReg 3 (RegOpen 3 0 1 1) \<in> set before"
  using handle_realize_all_or_nothing [OF realize_full_example [of "\<lambda>_. sw_new 0"]] by auto

end
