(* ===== verification/Mux.thy ===== *)
theory Mux
  imports Reader_Laws Worker_Laws Writer_Laws Handle_Laws
begin

text \<open>
  The start of a connection: how \<open>MuxHandle::spawn\<close> (\<^verbatim>\<open>crates/spdy-mux/src/mux/handle.rs\<close>) puts the tasks together,
  and the handshake between the writer, the reader and \<open>spawn\<close>.
\<close>

section \<open>Starting the tasks\<close>

definition writer_config_of :: "mux_config \<Rightarrow> writer_config" where
  "writer_config_of config =
     \<lparr>wc_initial_window_size = cfg_initial_window_size config,
      wc_max_concurrent_streams = cfg_max_concurrent_streams config,
      wc_ping_interval = cfg_ping_interval config, wc_write_timeout = cfg_write_timeout config,
      wc_max_frame_size = cfg_max_frame_size config\<rparr>"

definition reader_config_of :: "mux_config \<Rightarrow> reader_config" where
  "reader_config_of config =
     \<lparr>rc_initial_window_size = cfg_initial_window_size config, rc_idle_timeout = cfg_idle_timeout config,
      rc_ping_timeout = cfg_ping_timeout config, rc_max_frame_size = cfg_max_frame_size config\<rparr>"

text \<open>The channels that \<open>spawn\<close> creates; one of each of the last three per worker.\<close>

datatype mux_channel = CmdChan | ControlChan | WindowChan | RegChan nat | CloseRegChan nat | FrameChan nat

definition mux_channels :: "mux_channel list" where
  "mux_channels = [CmdChan, ControlChan, WindowChan] @ concat (map (\<lambda>k. [RegChan k, CloseRegChan k, FrameChan k]) [0..<FRAME_WORKERS])"

definition channel_capacity :: "mux_config \<Rightarrow> mux_channel \<Rightarrow> nat" where
  "channel_capacity config c =
     (case c of
        CmdChan \<Rightarrow> cmd_buffer_size config
      | ControlChan \<Rightarrow> control_buffer_size config
      | WindowChan \<Rightarrow> window_buffer_size config
      | RegChan k \<Rightarrow> reg_buffer_size config
      | CloseRegChan k \<Rightarrow> close_reg_buffer_size config
      | FrameChan k \<Rightarrow> worker_queue_size config)"

text \<open>
  What runs after \<open>spawn\<close> has started the tasks: the handle, the writer before its first write, the reader before its
  first message, and the workers with the window size they account with.  The oneshot for the first PING is
  \<open>ping_ready\<close>.
\<close>

record ('zc, 'zd) mux_tasks_state =
  mx_handle :: mux_handle
  mx_writer_config :: writer_config
  mx_reader_config :: reader_config
  mx_reader :: "('zc, 'zd) reader_out"
  mx_workers :: "worker list"
  mx_worker_window :: u32

definition ping_ready :: reply_id where "ping_ready = 0"

definition spawn_tasks :: "('zc, 'zd) flate2 \<Rightarrow> mux_config \<Rightarrow> (win_id \<Rightarrow> send_window) \<Rightarrow> nat \<Rightarrow> ('zc, 'zd) mux_tasks_state" where
  "spawn_tasks z config wins now =
     (let h = spawn_handle config wins in
      \<lparr>mx_handle = h, mx_writer_config = writer_config_of config, mx_reader_config = reader_config_of config,
       mx_reader = reader_start z (reader_config_of config) ping_ready (peer_initial_window h) (h_max_frame_size h) now,
       mx_workers = replicate FRAME_WORKERS worker_new, mx_worker_window = cfg_initial_window_size config\<rparr>)"

text \<open>
  What \<open>spawn\<close> waits for: the answer of the reader, unless the timeout fires or the reader ends first, which drops
  the sender.
\<close>

definition ping_wait_of :: "reader_effect list \<Rightarrow> bool \<Rightarrow> ping_wait" where
  "ping_wait_of effs reader_ended =
     (if RPingReady ping_ready \<in> set effs then PingAnswered (Ok ())
      else if reader_ended then PingDropped else PingElapsed)"

section \<open>The handshake\<close>

definition ready_signals :: "reader_effect list \<Rightarrow> reader_effect list" where
  "ready_signals effs = filter (\<lambda>e. case e of RPingReady r \<Rightarrow> True | _ \<Rightarrow> False) effs"

lemma ready_signals_simps [simp]:
  "ready_signals [] = []" "ready_signals (xs @ ys) = ready_signals xs @ ready_signals ys"
  "ready_signals (RPingReady r # xs) = RPingReady r # ready_signals xs"
  "ready_signals (RFrame k f # xs) = ready_signals xs" "ready_signals (RControl c # xs) = ready_signals xs"
  "ready_signals (RWindow c # xs) = ready_signals xs" "ready_signals (RReg k r' # xs) = ready_signals xs"
  "ready_signals (RCloseReg k r' # xs) = ready_signals xs"
  by (simp_all add: ready_signals_def)

lemma ready_signals_routing [simp]:
  "ready_signals (broadcast RReg reg ok) = []" "ready_signals (broadcast RCloseReg reg ok) = []"
  "ready_signals (session_update upd) = []" "ready_signals (to_worker sid f ok) = []"
  by (auto simp: broadcast_def ready_signals_def session_update_def to_worker_def filter_empty_conv split: option.splits)

fun is_ping :: "frame \<Rightarrow> bool" where
  "is_ping (Ping p) = True"
| "is_ping _ = False"

lemma route_frame_ready:
  assumes "route_frame cfg f a b st = (st', effs)"
  shows "ready_signals effs = (if is_ping f then map RPingReady (case waiting_ping_ready st of None \<Rightarrow> [] | Some r \<Rightarrow> [r]) else [])
    \<and> waiting_ping_ready st' = (if is_ping f then None else waiting_ping_ready st)"
  using assms
  by (cases f) (auto simp: route_frame_def route_data_def route_ping_def route_settings_def route_window_setting_def
      Let_def split: if_splits option.splits prod.splits)

lemma route_all_ready:
  assumes "route_all cfg xs st = (st', effs)"
  shows "ready_signals effs = (if list_ex (is_ping \<circ> fst) xs
    then map RPingReady (case waiting_ping_ready st of None \<Rightarrow> [] | Some r \<Rightarrow> [r]) else [])"
  using assms
proof (induction xs arbitrary: st st' effs)
  case (Cons x xs)
  obtain f a b where x: "x = (f, a, b)" by (metis prod_cases3)
  obtain st1 effs1 where r: "route_frame cfg f a b st = (st1, effs1)" by force
  obtain st2 effs2 where rs: "route_all cfg xs st1 = (st2, effs2)" by force
  show ?case using Cons.prems Cons.IH [OF rs] route_frame_ready [OF r] r rs x by auto
qed simp

lemma writer_start_wire:
  assumes "writer_start z cfg io now = (st, True)"
  shows "wire st = [WireBinary (encode_ping 1), WireBinary (encode_settings (our_settings cfg))] \<and> flushed st = 2"
  using assms
  by (auto simp: writer_start_def write_and_flush_def write_item_def flush_wire_def Let_def split: if_splits)

lemma handshake_bytes:
  "decodes_to z d (encode_ping 1 @ encode_settings (our_settings cfg))
    [Ping 1, Settings (Some (wc_initial_window_size cfg)) (Some (wc_max_concurrent_streams cfg)) None] d"
proof -
  have "decode_frame z d (encode_settings (our_settings cfg) @ []) = Some (d, [], Ok (Some
      (Settings (Some (wc_initial_window_size cfg)) (Some (wc_max_concurrent_streams cfg)) None)))"
    using decode_encode_settings [of "our_settings cfg" z d "[]"]
    by (simp add: our_settings_def settings_frame_def apply_setting_def SETTINGS_INITIAL_WINDOW_SIZE_def
        SETTINGS_MAX_CONCURRENT_STREAMS_def)
  note s = decodes_one [OF this]
  have p: "decodes_to z d (encode_ping 1) [Ping 1] d"
    by (rule decodes_one) (rule decode_encode_ping)
  show ?thesis using decodes_to_append [OF p s] by simp
qed

text \<open>
  C21.  The handshake.  When the writer of a new connection has got through its start, everything it wrote is flushed,
  and a peer decodes it to PING 1 and a SETTINGS frame with the configured window and stream limit.
  Whatever frames the reader then routes, it signals \<open>spawn\<close> once if there is a PING among them, and never
  otherwise; so \<open>spawn\<close> hands out the handle exactly if the peer has sent a PING in time, and the handle is
  fresh: no pair in use, first stream 1, the peer's window the configured one.
\<close>

theorem connection_handshake:
  assumes "spawn_tasks z config wins now = m" "writer_start z (mx_writer_config m) io now = (wst, True)"
    and "route_all (mx_reader_config m) xs (fst (mx_reader m)) = (rst, effs)"
  shows "decodes_to z d (wire_bytes (wire wst))
      [Ping 1, Settings (Some (cfg_initial_window_size config)) (Some (cfg_max_concurrent_streams config)) None] d \<and>
    flushed wst = length (wire wst) \<and>
    ready_signals effs = (if list_ex (is_ping \<circ> fst) xs then [RPingReady ping_ready] else []) \<and>
    (\<forall>h. spawn_result (mx_handle m) (ping_wait_of effs ended) = Ok h \<longleftrightarrow>
      list_ex (is_ping \<circ> fst) xs \<and> h = mx_handle m) \<and>
    active_pairs (mx_handle m) = 0 \<and> next_stream_id (open_seq (mx_handle m)) = 1 \<and>
    peer_initial_window (mx_handle m) = rd_peer_initial_window (fst (mx_reader m))"
proof -
  have m: "m = spawn_tasks z config wins now" using assms(1) by simp
  have w: "wire wst = [WireBinary (encode_ping 1), WireBinary (encode_settings (our_settings (writer_config_of config)))]"
    "flushed wst = 2" using writer_start_wire [OF assms(2)] m by (simp_all add: spawn_tasks_def Let_def)
  have r: "ready_signals effs = (if list_ex (is_ping \<circ> fst) xs then [RPingReady ping_ready] else [])"
    using route_all_ready [OF assms(3)] m by (simp add: spawn_tasks_def reader_start_def Let_def)
  have "RPingReady ping_ready \<in> set effs \<longleftrightarrow> RPingReady ping_ready \<in> set (ready_signals effs)"
    by (simp add: ready_signals_def)
  then have s: "RPingReady ping_ready \<in> set effs \<longleftrightarrow> list_ex (is_ping \<circ> fst) xs" using r by simp
  have h: "spawn_result (mx_handle m) (ping_wait_of effs ended) = Ok h \<longleftrightarrow> list_ex (is_ping \<circ> fst) xs \<and> h = mx_handle m" for h
    using s by (auto simp: spawn_result_def ping_wait_of_def)
  have "active_pairs (mx_handle m) = 0 \<and> next_stream_id (open_seq (mx_handle m)) = 1 \<and>
      peer_initial_window (mx_handle m) = rd_peer_initial_window (fst (mx_reader m))"
    unfolding m by (simp add: spawn_tasks_def spawn_handle_def reader_start_def Let_def)
  then show ?thesis using handshake_bytes [of z d "writer_config_of config"] w r h
    by (simp add: writer_config_of_def)
qed

theorem connection_handshake_witness:
  "\<exists>h. spawn_result (mx_handle (spawn_tasks stored mux_config_default (\<lambda>_. sw_new 0) 0))
      (ping_wait_of [RPingReady ping_ready] False) = Ok h"
proof -
  let ?m = "spawn_tasks stored mux_config_default (\<lambda>_. sw_new 0) 0"
  obtain wst where w: "writer_start stored (mx_writer_config ?m) (\<lambda>_. IoOk) 0 = (wst, True)"
    by (simp add: writer_start_def write_and_flush_def write_item_def flush_wire_def Let_def)
  obtain rst where r: "route_all (mx_reader_config ?m) [(Ping 1, True, \<lambda>_. True)] (fst (mx_reader ?m)) = (rst, [RPingReady ping_ready])"
    by (simp add: route_frame_def route_ping_def spawn_tasks_def reader_start_def Let_def)
  from connection_handshake [OF refl w r] show ?thesis by auto
qed

end
