(* ===== verification/Stream_Model.thy ===== *)
theory Stream_Model
  imports Handle
begin

text \<open>
  The user's end of a stream pair (\<^verbatim>\<open>crates/spdy-mux/src/stream.rs\<close>): lazy opening, reading from the
  channel that the worker fills, writing under the send window, half-closing, dropping, splitting.

  A poll of a channel is an argument: \<open>recv_result\<close> for \<open>poll_recv\<close>, \<open>reserve_result\<close> for
  \<open>PollSender::poll_reserve\<close>, a bool for \<open>send_item\<close>.  The handle is passed and returned, as it is shared.
  The send window belongs to other tasks too: \<open>env k\<close> is what they do to it before the \<open>k\<close>-th access of
  \<open>poll_write_via_sender\<close>, so that its theorems hold under every interleaving.
\<close>

datatype io_error = BrokenPipe

datatype recv_result = RecvPending | RecvData "byte list" | RecvClosed

datatype reserve_result = ReservePending | ReserveOk | ReserveErr

section \<open>Reading\<close>

record read_half =
  read_buf :: "byte list option"
  read_eof :: bool

definition read_new :: read_half where
  "read_new = \<lparr>read_buf = None, read_eof = False\<rparr>"

text \<open>\<open>cap\<close> is \<open>buf.remaining()\<close>; a ready result carries the bytes put into \<open>buf\<close>.\<close>

definition poll_read_channel ::
  "recv_result \<Rightarrow> nat \<Rightarrow> read_half \<Rightarrow> read_half \<times> (io_error, byte list) result poll" where
  "poll_read_channel recv cap r =
     (if read_eof r then (r, Ready (Ok []))
      else case read_buf r of
        Some rest \<Rightarrow>
          (let to_copy = min (length rest) cap in
           (r\<lparr>read_buf := (if to_copy \<ge> length rest then None else Some (drop to_copy rest))\<rparr>,
            Ready (Ok (take to_copy rest))))
      | None \<Rightarrow>
          (case recv of
             RecvData data \<Rightarrow>
               (let to_copy = min (length data) cap in
                (if to_copy < length data then r\<lparr>read_buf := Some (drop to_copy data)\<rparr> else r,
                 Ready (Ok (take to_copy data))))
           | RecvClosed \<Rightarrow> (r\<lparr>read_eof := True\<rparr>, Ready (Ok []))
           | RecvPending \<Rightarrow> (r, Pending)))"

definition consume_channel_buf :: "nat \<Rightarrow> read_half \<Rightarrow> read_half" where
  "consume_channel_buf amt r =
     (case read_buf r of
        None \<Rightarrow> r
      | Some bs \<Rightarrow>
          (let rest = drop (min amt (length bs)) bs in r\<lparr>read_buf := (if rest = [] then None else Some rest)\<rparr>))"

text \<open>One round of \<open>poll_fill_buf_channel\<close>; \<open>recv k\<close> is the outcome of its \<open>k\<close>-th \<open>poll_recv\<close>.\<close>

definition fill_buf_round ::
  "(nat \<Rightarrow> recv_result) \<Rightarrow> read_half \<times> nat
    \<Rightarrow> (read_half \<times> nat \<times> (io_error, byte list) result poll) + (read_half \<times> nat)" where
  "fill_buf_round recv s =
     (let (r, k) = s in
      if (case read_buf r of Some b \<Rightarrow> b \<noteq> [] | None \<Rightarrow> False) then Inl (r, k, Ready (Ok (the (read_buf r))))
      else let r1 = r\<lparr>read_buf := None\<rparr> in
      if read_eof r1 then Inl (r1, k, Ready (Ok []))
      else case recv k of
        RecvPending \<Rightarrow> Inl (r1, k + 1, Pending)
      | RecvClosed \<Rightarrow> Inl (r1\<lparr>read_eof := True\<rparr>, k + 1, Ready (Ok []))
      | RecvData b \<Rightarrow> Inr (r1\<lparr>read_buf := Some b\<rparr>, k + 1))"

definition poll_fill_buf_channel ::
  "(nat \<Rightarrow> recv_result) \<Rightarrow> read_half \<Rightarrow> (read_half \<times> nat \<times> (io_error, byte list) result poll) option" where
  "poll_fill_buf_channel recv r = run_loop (fill_buf_round recv) (r, 0)"

section \<open>Writing\<close>

type_synonym window_env = "nat \<Rightarrow> send_window \<Rightarrow> send_window"

definition max_payload_for :: "u32 \<Rightarrow> byte list \<Rightarrow> nat" where
  "max_payload_for mfs buf = (let m = unat mfs - 8 in if m = 0 then length buf else m)"

definition write_size :: "u32 \<Rightarrow> byte list \<Rightarrow> send_window \<Rightarrow> nat" where
  "write_size mfs buf w = min (min (length buf) (nat (max (available w) 0))) (max_payload_for mfs buf)"

definition raw_data_frame :: "u32 \<Rightarrow> byte list \<Rightarrow> byte list" where
  "raw_data_frame sid payload =
     u32_to_be (sid AND 0x7FFFFFFF) @ u32_to_be (word_of_nat (length payload) AND 0x00FFFFFF) @ payload"

text \<open>From the debit on: \<open>w\<close> is the window at the debit.\<close>

definition write_commit ::
  "u32 \<Rightarrow> byte list \<Rightarrow> nat \<Rightarrow> bool \<Rightarrow> send_window \<Rightarrow> send_window \<times> mux_command list \<times> (io_error, nat) result poll" where
  "write_commit sid buf n item_ok w =
     (case consume n w of
        (False, w1) \<Rightarrow> (w1, [], Ready (Err BrokenPipe))
      | (True, w1) \<Rightarrow>
          if item_ok then (w1, [SendRawFrame (raw_data_frame sid (take n buf))], Ready (Ok n))
          else (w1, [], Ready (Err BrokenPipe)))"

definition poll_write_via_sender ::
  "window_env \<Rightarrow> reserve_result \<Rightarrow> bool \<Rightarrow> u32 \<Rightarrow> u32 \<Rightarrow> nat \<Rightarrow> byte list \<Rightarrow> send_window
    \<Rightarrow> send_window \<times> mux_command list \<times> (io_error, nat) result poll" where
  "poll_write_via_sender env reserve item_ok sid mfs task buf w =
     (let w0 = env 0 w in
      if is_closed w0 then (w0, [], Ready (Err BrokenPipe))
      else case reserve of
        ReserveErr \<Rightarrow> (w0, [], Ready (Err BrokenPipe))
      | ReservePending \<Rightarrow> (w0, [], Pending)
      | ReserveOk \<Rightarrow>
          (let w1 = env 1 w0; n = write_size mfs buf w1 in
           if n = 0 then
             (let w2 = register_waker task (env 2 w1); w3 = env 3 w2 in
              if is_closed w3 then (w3, [], Ready (Err BrokenPipe))
              else let w4 = env 4 w3; n' = write_size mfs buf w4 in
              if n' = 0 then (w4, [], Pending)
              else write_commit sid buf n' item_ok (env 5 w4))
           else write_commit sid buf n item_ok (env 5 w1)))"

definition poll_shutdown_opened ::
  "reserve_result \<Rightarrow> bool \<Rightarrow> u32 \<Rightarrow> bool \<Rightarrow> bool \<times> mux_command list \<times> (io_error, unit) result poll" where
  "poll_shutdown_opened reserve item_ok did graceful =
     (if graceful then (graceful, [], Ready (Ok ()))
      else case reserve of
        ReservePending \<Rightarrow> (graceful, [], Pending)
      | ReserveErr \<Rightarrow> (graceful, [], Ready (Err BrokenPipe))
      | ReserveOk \<Rightarrow>
          if item_ok then (True, [SendData did [] True], Ready (Ok ()))
          else (graceful, [], Ready (Err BrokenPipe)))"

section \<open>The states of a stream\<close>

text \<open>\<open>PairReleaseGuard\<close>; the \<open>Option\<close> that holds one is dropped like the guard in it.\<close>

record pair_release_guard =
  armed :: bool

definition pair_release_guard_new :: pair_release_guard where
  "pair_release_guard_new = \<lparr>armed = True\<rparr>"

definition disarm :: "pair_release_guard \<Rightarrow> pair_release_guard" where
  "disarm g = g\<lparr>armed := False\<rparr>"

definition drop_release_guard :: "pair_release_guard option \<Rightarrow> mux_handle \<Rightarrow> mux_handle" where
  "drop_release_guard rg h =
     (case rg of None \<Rightarrow> h | Some g \<Rightarrow> if armed g then release_pair h else h)"

record unopened =
  un_error_headers :: "header list"
  un_data_headers :: "header list"
  pending_data_tx :: "chan_id option"
  pending_error_tx :: "chan_id option"
  release_guard :: "pair_release_guard option"

record opened =
  o_data_id :: u32
  o_error_id :: u32
  o_window :: win_id
  graceful_shutdown :: bool

datatype open_phase = Unopened unopened | Opened opened

text \<open>
  \<open>Stream\<close> and the halves made by \<open>split\<close> have the same parts: the open phase (in \<open>Stream\<close> itself, or
  shared behind a mutex), the read side of the data channel, and the frame size.  The \<open>Transitioning\<close>
  state of the source exists only inside \<open>finish_unopened_stream\<close>.
\<close>

record stream =
  s_phase :: open_phase
  s_read :: read_half
  s_max_frame_size :: u32

definition new_unopened :: "unopened_parts \<Rightarrow> chan_id \<Rightarrow> chan_id \<Rightarrow> stream" where
  "new_unopened parts data_ch error_ch =
     \<lparr>s_phase = Unopened \<lparr>un_error_headers = up_error_headers parts, un_data_headers = up_data_headers parts,
         pending_data_tx = Some data_ch, pending_error_tx = Some error_ch, release_guard = Some pair_release_guard_new\<rparr>,
      s_read = read_new, s_max_frame_size = up_max_frame_size parts\<rparr>"

type_synonym open_env = "realize_env \<times> mux_handle"

text \<open>\<open>ensure_realized\<close>: the senders and headers are taken out before the call, whatever it returns.\<close>

definition ensure_realized ::
  "open_env \<Rightarrow> unopened \<Rightarrow> mux_handle
    \<Rightarrow> unopened \<times> mux_handle \<times> handle_effect list \<times> (io_error, opened_parts) result" where
  "ensure_realized oe u h =
     (let u0 = u\<lparr>pending_data_tx := None, pending_error_tx := None\<rparr> in
      case (pending_data_tx u, pending_error_tx u) of
        (Some dtx, Some etx) \<Rightarrow>
          (let (h', effs, r) = realize_stream_pair (un_error_headers u) (un_data_headers u) dtx etx (fst oe) (snd oe) h
           in (u0\<lparr>un_error_headers := [], un_data_headers := []\<rparr>, h', effs,
               case r of Inl e \<Rightarrow> Err BrokenPipe | Inr parts \<Rightarrow> Ok parts))
      | _ \<Rightarrow> (u0, h, [], Err BrokenPipe))"

text \<open>
  \<open>finish_unopened_stream\<close>: the release guard is disarmed, the slot passes to the \<open>StreamGuard\<close> of the
  opened state, and the release guard is dropped.
\<close>

definition finish_open :: "opened_parts \<Rightarrow> unopened \<Rightarrow> mux_handle \<Rightarrow> open_phase \<times> mux_handle" where
  "finish_open parts u h =
     (let rg = map_option disarm (release_guard u)
      in (Opened \<lparr>o_data_id = op_data_id parts, o_error_id = op_error_id parts,
            o_window = op_send_window parts, graceful_shutdown = False\<rparr>,
          drop_release_guard rg h))"

definition ensure_open ::
  "open_env \<Rightarrow> open_phase \<Rightarrow> mux_handle \<Rightarrow> open_phase \<times> mux_handle \<times> handle_effect list \<times> (io_error, unit) result" where
  "ensure_open oe ph h =
     (case ph of
        Opened o1 \<Rightarrow> (ph, h, [], Ok ())
      | Unopened u \<Rightarrow>
          (let (u', h', effs, r) = ensure_realized oe u h in
           case r of
             Inl e \<Rightarrow> (Unopened u', h', effs, Err e)
           | Inr parts \<Rightarrow> (let (ph', h'') = finish_open parts u' h' in (ph', h'', effs, Ok ()))))"

section \<open>The operations of a stream\<close>

text \<open>Every operation returns the stream, the handle, the messages to the multiplexer, and its result.\<close>

type_synonym 'a stream_out = "stream \<times> mux_handle \<times> handle_effect list \<times> (io_error, 'a) result poll"

definition stream_poll_read ::
  "open_env \<Rightarrow> recv_result \<Rightarrow> nat \<Rightarrow> stream \<Rightarrow> mux_handle \<Rightarrow> byte list stream_out" where
  "stream_poll_read oe recv cap s h =
     (if cap = 0 then (s, h, [], Ready (Ok []))
      else let (ph, h', effs, r) = ensure_open oe (s_phase s) h; s1 = s\<lparr>s_phase := ph\<rparr> in
      case r of
        Inl e \<Rightarrow> (s1, h', effs, Ready (Err e))
      | Inr u \<Rightarrow>
          (let (rd, out) = poll_read_channel recv cap (s_read s1) in (s1\<lparr>s_read := rd\<rparr>, h', effs, out)))"

definition stream_poll_fill_buf ::
  "open_env \<Rightarrow> (nat \<Rightarrow> recv_result) \<Rightarrow> stream \<Rightarrow> mux_handle \<Rightarrow> byte list stream_out option" where
  "stream_poll_fill_buf oe recv s h =
     (let (ph, h', effs, r) = ensure_open oe (s_phase s) h; s1 = s\<lparr>s_phase := ph\<rparr> in
      case r of
        Inl e \<Rightarrow> Some (s1, h', effs, Ready (Err e))
      | Inr u \<Rightarrow>
          map_option (\<lambda>(rd, k, out). (s1\<lparr>s_read := rd\<rparr>, h', effs, out)) (poll_fill_buf_channel recv (s_read s1)))"

definition stream_consume :: "nat \<Rightarrow> stream \<Rightarrow> stream" where
  "stream_consume amt s = s\<lparr>s_read := consume_channel_buf amt (s_read s)\<rparr>"

definition stream_poll_write ::
  "open_env \<Rightarrow> window_env \<Rightarrow> reserve_result \<Rightarrow> bool \<Rightarrow> nat \<Rightarrow> byte list \<Rightarrow> stream \<Rightarrow> mux_handle \<Rightarrow> nat stream_out" where
  "stream_poll_write oe env reserve item_ok task buf s h =
     (if buf = [] then (s, h, [], Ready (Ok 0))
      else let (ph, h', effs, r) = ensure_open oe (s_phase s) h; s1 = s\<lparr>s_phase := ph\<rparr> in
      case (r, ph) of
        (Inr u, Opened op) \<Rightarrow>
          if graceful_shutdown op then (s1, h', effs, Ready (Err BrokenPipe))
          else (let (w, cmds, out) = poll_write_via_sender env reserve item_ok (o_data_id op)
                       (s_max_frame_size s) task buf (h_windows h' (o_window op))
                in (s1, h'\<lparr>h_windows := (h_windows h')(o_window op := w)\<rparr>, effs @ map HCmd cmds, out))
      | _ \<Rightarrow> (s1, h', effs, Ready (Err BrokenPipe)))"

definition stream_poll_flush :: "stream \<Rightarrow> (io_error, unit) result poll" where
  "stream_poll_flush s = Ready (Ok ())"

definition stream_poll_shutdown ::
  "open_env \<Rightarrow> reserve_result \<Rightarrow> bool \<Rightarrow> stream \<Rightarrow> mux_handle \<Rightarrow> unit stream_out" where
  "stream_poll_shutdown oe reserve item_ok s h =
     (let (ph, h', effs, r) = ensure_open oe (s_phase s) h; s1 = s\<lparr>s_phase := ph\<rparr> in
      case (r, ph) of
        (Inr u, Opened op) \<Rightarrow>
          (let (g, cmds, out) = poll_shutdown_opened reserve item_ok (o_data_id op) (graceful_shutdown op)
           in (s1\<lparr>s_phase := Opened (op\<lparr>graceful_shutdown := g\<rparr>)\<rparr>, h', effs @ map HCmd cmds, out))
      | _ \<Rightarrow> (s1, h', effs, Ready (Err BrokenPipe)))"

definition is_read_closed :: "bool \<Rightarrow> stream \<Rightarrow> mux_handle \<Rightarrow> bool" where
  "is_read_closed rx_closed s h =
     (case s_phase s of
        Unopened u \<Rightarrow> read_eof (s_read s) \<or> rx_closed \<or> h_closed h
      | Opened op \<Rightarrow> read_eof (s_read s) \<or> rx_closed)"

section \<open>Dropping\<close>

definition stream_RST_STATUS_CANCEL :: u32 where "stream_RST_STATUS_CANCEL = 5"

text \<open>\<open>StreamGuard::drop\<close> through the permits; an unopened stream drops its release guard.\<close>

definition drop_guard :: "opened \<Rightarrow> mux_handle \<Rightarrow> mux_handle \<times> handle_effect list" where
  "drop_guard op h =
     (release_pair h,
      (if graceful_shutdown op then [] else [HControl (CloseStream (o_data_id op) stream_RST_STATUS_CANCEL)]) @
      [close_reg (o_error_id op), close_reg (o_data_id op)])"

definition drop_stream :: "open_phase \<Rightarrow> mux_handle \<Rightarrow> mux_handle \<times> handle_effect list" where
  "drop_stream ph h =
     (case ph of
        Unopened u \<Rightarrow> (drop_release_guard (release_guard u) h, [])
      | Opened op \<Rightarrow> drop_guard op h)"

section \<open>The halves of a split stream\<close>

record data_stream =
  ds_read :: read_half
  ds_max_frame_size :: u32

record error_stream =
  es_read :: read_half

text \<open>\<open>split\<close>: the shared phase, and the two halves.\<close>

definition stream_split :: "stream \<Rightarrow> open_phase \<times> data_stream \<times> error_stream" where
  "stream_split s =
     (s_phase s, \<lparr>ds_read = s_read s, ds_max_frame_size = s_max_frame_size s\<rparr>, \<lparr>es_read = read_new\<rparr>)"

text \<open>The same transition behind the mutex of the shared state.\<close>

definition finish_shared_open :: "opened_parts \<Rightarrow> unopened \<Rightarrow> mux_handle \<Rightarrow> open_phase \<times> mux_handle" where
  "finish_shared_open parts u h =
     (let u1 = u\<lparr>release_guard := map_option disarm (release_guard u)\<rparr>
      in (Opened \<lparr>o_data_id = op_data_id parts, o_error_id = op_error_id parts,
            o_window = op_send_window parts, graceful_shutdown = False\<rparr>,
          drop_release_guard (release_guard u1) h))"

definition ensure_shared_open ::
  "open_env \<Rightarrow> open_phase \<Rightarrow> mux_handle \<Rightarrow> open_phase \<times> mux_handle \<times> handle_effect list \<times> (io_error, unit) result" where
  "ensure_shared_open oe ph h =
     (case ph of
        Opened o1 \<Rightarrow> (ph, h, [], Ok ())
      | Unopened u \<Rightarrow>
          (let (u', h', effs, r) = ensure_realized oe u h in
           case r of
             Inl e \<Rightarrow> (Unopened u', h', effs, Err e)
           | Inr parts \<Rightarrow> (let (ph', h'') = finish_shared_open parts u' h' in (ph', h'', effs, Ok ()))))"

definition data_poll_read ::
  "open_env \<Rightarrow> recv_result \<Rightarrow> nat \<Rightarrow> open_phase \<Rightarrow> data_stream \<Rightarrow> mux_handle
    \<Rightarrow> open_phase \<times> data_stream \<times> mux_handle \<times> handle_effect list \<times> (io_error, byte list) result poll" where
  "data_poll_read oe recv cap ph d h =
     (if cap = 0 then (ph, d, h, [], Ready (Ok []))
      else let (ph', h', effs, r) = ensure_shared_open oe ph h in
      case r of
        Inl e \<Rightarrow> (ph', d, h', effs, Ready (Err e))
      | Inr u \<Rightarrow>
          (let (rd, out) = poll_read_channel recv cap (ds_read d) in (ph', d\<lparr>ds_read := rd\<rparr>, h', effs, out)))"

definition data_poll_fill_buf ::
  "open_env \<Rightarrow> (nat \<Rightarrow> recv_result) \<Rightarrow> open_phase \<Rightarrow> data_stream \<Rightarrow> mux_handle
    \<Rightarrow> (open_phase \<times> data_stream \<times> mux_handle \<times> handle_effect list \<times> (io_error, byte list) result poll) option" where
  "data_poll_fill_buf oe recv ph d h =
     (let (ph', h', effs, r) = ensure_shared_open oe ph h in
      case r of
        Inl e \<Rightarrow> Some (ph', d, h', effs, Ready (Err e))
      | Inr u \<Rightarrow>
          map_option (\<lambda>(rd, k, out). (ph', d\<lparr>ds_read := rd\<rparr>, h', effs, out)) (poll_fill_buf_channel recv (ds_read d)))"

definition data_consume :: "nat \<Rightarrow> data_stream \<Rightarrow> data_stream" where
  "data_consume amt d = d\<lparr>ds_read := consume_channel_buf amt (ds_read d)\<rparr>"

definition data_poll_write ::
  "open_env \<Rightarrow> window_env \<Rightarrow> reserve_result \<Rightarrow> bool \<Rightarrow> nat \<Rightarrow> byte list \<Rightarrow> open_phase \<Rightarrow> data_stream \<Rightarrow> mux_handle
    \<Rightarrow> open_phase \<times> data_stream \<times> mux_handle \<times> handle_effect list \<times> (io_error, nat) result poll" where
  "data_poll_write oe env reserve item_ok task buf ph d h =
     (if buf = [] then (ph, d, h, [], Ready (Ok 0))
      else let (ph', h', effs, r) = ensure_shared_open oe ph h in
      case (r, ph') of
        (Inr u, Opened op) \<Rightarrow>
          if graceful_shutdown op then (ph', d, h', effs, Ready (Err BrokenPipe))
          else (let (w, cmds, out) = poll_write_via_sender env reserve item_ok (o_data_id op)
                       (ds_max_frame_size d) task buf (h_windows h' (o_window op))
                in (ph', d, h'\<lparr>h_windows := (h_windows h')(o_window op := w)\<rparr>, effs @ map HCmd cmds, out))
      | _ \<Rightarrow> (ph', d, h', effs, Ready (Err BrokenPipe)))"

definition data_poll_shutdown ::
  "open_env \<Rightarrow> reserve_result \<Rightarrow> bool \<Rightarrow> open_phase \<Rightarrow> data_stream \<Rightarrow> mux_handle
    \<Rightarrow> open_phase \<times> data_stream \<times> mux_handle \<times> handle_effect list \<times> (io_error, unit) result poll" where
  "data_poll_shutdown oe reserve item_ok ph d h =
     (let (ph', h', effs, r) = ensure_shared_open oe ph h in
      case (r, ph') of
        (Inr u, Opened op) \<Rightarrow>
          (let (g, cmds, out) = poll_shutdown_opened reserve item_ok (o_data_id op) (graceful_shutdown op)
           in (Opened (op\<lparr>graceful_shutdown := g\<rparr>), d, h', effs @ map HCmd cmds, out))
      | _ \<Rightarrow> (ph', d, h', effs, Ready (Err BrokenPipe)))"

definition error_poll_read ::
  "open_env \<Rightarrow> recv_result \<Rightarrow> nat \<Rightarrow> open_phase \<Rightarrow> error_stream \<Rightarrow> mux_handle
    \<Rightarrow> open_phase \<times> error_stream \<times> mux_handle \<times> handle_effect list \<times> (io_error, byte list) result poll" where
  "error_poll_read oe recv cap ph e h =
     (if cap = 0 then (ph, e, h, [], Ready (Ok []))
      else let (ph', h', effs, r) = ensure_shared_open oe ph h in
      case r of
        Inl err \<Rightarrow> (ph', e, h', effs, Ready (Err err))
      | Inr u \<Rightarrow>
          (let (rd, out) = poll_read_channel recv cap (es_read e) in (ph', e\<lparr>es_read := rd\<rparr>, h', effs, out)))"

end
