(* ===== verification/Stream_Laws.thy ===== *)
theory Stream_Laws
  imports Stream_Model
begin

text \<open>
  What a stream guarantees: reading delivers exactly the bytes of its channel, in order; a write
  debits the window by what it sends and by nothing else, and never sleeps on a window that has
  credit; a pair releases its slot exactly once; and the halves of a split stream behave as the whole.
\<close>

section \<open>Reading\<close>

definition buffered :: "read_half \<Rightarrow> byte list" where
  "buffered r = (case read_buf r of None \<Rightarrow> [] | Some b \<Rightarrow> b)"

fun poll_bytes :: "(io_error, byte list) result poll \<Rightarrow> byte list" where
  "poll_bytes (Ready (Inr bs)) = bs"
| "poll_bytes _ = []"

datatype read_op = OpRead nat recv_result | OpFill "nat \<Rightarrow> recv_result" | OpConsume nat

fun recv_bytes :: "recv_result \<Rightarrow> byte list" where
  "recv_bytes (RecvData d) = d"
| "recv_bytes _ = []"

text \<open>
  A reader's history: the read side, the bytes its user has taken, and the bytes that came out of
  the channel.  \<open>None\<close>: a call of \<open>poll_fill_buf\<close> did not return.
\<close>

definition read_step :: "read_op \<Rightarrow> read_half \<times> byte list \<times> byte list \<Rightarrow> (read_half \<times> byte list \<times> byte list) option" where
  "read_step op st =
     (let (r, consumed, received) = st in
      case op of
        OpRead cap recv \<Rightarrow>
          (let (r', out) = poll_read_channel recv cap r
           in Some (r', consumed @ poll_bytes out,
                received @ (if read_eof r \<or> read_buf r \<noteq> None then [] else recv_bytes recv)))
      | OpFill recv \<Rightarrow>
          map_option (\<lambda>(r', k, out). (r', consumed, received @ concat (map (\<lambda>j. recv_bytes (recv j)) [0..<k])))
            (poll_fill_buf_channel recv r)
      | OpConsume amt \<Rightarrow> Some (consume_channel_buf amt r, consumed @ take amt (buffered r), received))"

primrec read_run :: "read_op list \<Rightarrow> read_half \<times> byte list \<times> byte list \<Rightarrow> (read_half \<times> byte list \<times> byte list) option" where
  "read_run [] st = Some st"
| "read_run (op # ops) st = Option.bind (read_step op st) (read_run ops)"

definition read_inv :: "read_half \<times> byte list \<times> byte list \<Rightarrow> bool" where
  "read_inv st \<longleftrightarrow> (case st of (r, consumed, received) \<Rightarrow>
     consumed @ buffered r = received \<and> (read_eof r \<longrightarrow> read_buf r = None))"

lemma poll_read_bytes:
  assumes "poll_read_channel recv cap r = (r', out)" "read_eof r \<longrightarrow> read_buf r = None"
  shows "poll_bytes out @ buffered r' = buffered r @ (if read_eof r \<or> read_buf r \<noteq> None then [] else recv_bytes recv)"
    "read_eof r' \<longrightarrow> read_buf r' = None"
  using assms
  by (auto simp: poll_read_channel_def buffered_def Let_def min_def split: if_splits option.splits recv_result.splits)

text \<open>The loop of \<open>poll_fill_buf\<close>: what it has pulled out of the channel is in the buffer.\<close>

lemma fill_buf_bytes:
  assumes "poll_fill_buf_channel recv r = Some (r', k, out)" "read_eof r \<longrightarrow> read_buf r = None"
  shows "buffered r' = buffered r @ concat (map (\<lambda>j. recv_bytes (recv j)) [0..<k]) \<and>
    (read_eof r' \<longrightarrow> read_buf r' = None)"
proof -
  let ?I = "\<lambda>(r1, k). buffered r1 = buffered r @ concat (map (\<lambda>j. recv_bytes (recv j)) [0..<k]) \<and>
    (read_eof r1 \<longrightarrow> read_buf r1 = None)"
  let ?Q = "\<lambda>(r1, k, out :: (io_error, byte list) result poll). ?I (r1, k)"
  have "?Q (r', k, out)"
    using assms(1) unfolding poll_fill_buf_channel_def
  proof (rule run_loop_rule [where I = ?I])
    show "?I (r, 0)" using assms(2) by simp
  next
    fix s s' assume "?I s" "fill_buf_round recv s = Inr s'"
    then show "?I s'"
      by (cases s) (auto simp: fill_buf_round_def buffered_def Let_def split: if_splits option.splits recv_result.splits)
  next
    fix s res assume "?I s" "fill_buf_round recv s = Inl res"
    then show "?Q res"
      by (cases s) (auto simp: fill_buf_round_def buffered_def Let_def split: if_splits option.splits recv_result.splits)
  qed
  then show ?thesis by simp
qed

lemma consume_bytes:
  "take amt (buffered r) @ buffered (consume_channel_buf amt r) = buffered r"
  "(read_eof r \<longrightarrow> read_buf r = None) \<Longrightarrow> read_eof (consume_channel_buf amt r) \<longrightarrow> read_buf (consume_channel_buf amt r) = None"
  by (auto simp: consume_channel_buf_def buffered_def Let_def min_def split: option.splits)

lemma read_step_inv:
  assumes "read_step op st = Some st'" "read_inv st"
  shows "read_inv st'"
proof -
  obtain r consumed received where st: "st = (r, consumed, received)" by (metis prod_cases3)
  have inv: "consumed @ buffered r = received" "read_eof r \<longrightarrow> read_buf r = None"
    using assms(2) by (simp_all add: st read_inv_def)
  show ?thesis
  proof (cases op)
    case (OpRead cap recv)
    obtain r' out where "poll_read_channel recv cap r = (r', out)" by force
    with poll_read_bytes [OF this inv(2)] inv(1) assms(1) OpRead show ?thesis
      by (auto simp: st read_step_def read_inv_def)
  next
    case (OpFill recv)
    then obtain r' k out where f: "poll_fill_buf_channel recv r = Some (r', k, out)"
      and st': "st' = (r', consumed, received @ concat (map (\<lambda>j. recv_bytes (recv j)) [0..<k]))"
      using assms(1) by (auto simp: st read_step_def)
    show ?thesis using fill_buf_bytes [OF f inv(2)] inv(1) by (simp add: st' read_inv_def)
  next
    case (OpConsume amt)
    then show ?thesis
      using assms(1) inv consume_bytes(1) [of amt r] consume_bytes(2) [of r amt] by (auto simp: st read_step_def read_inv_def)
  qed
qed

lemma read_run_inv: "read_run ops st = Some st' \<Longrightarrow> read_inv st \<Longrightarrow> read_inv st'"
proof (induction ops arbitrary: st)
  case (Cons op ops)
  then obtain st1 where "read_step op st = Some st1" "read_run ops st1 = Some st'"
    by (auto simp: bind_eq_Some_conv)
  then show ?case using Cons.IH Cons.prems(2) read_step_inv by blast
qed simp

text \<open>\<open>poll_fill_buf\<close> returns as soon as the channel does not yield an empty chunk.\<close>

lemma fill_buf_returns:
  assumes "recv k \<noteq> RecvData []"
  shows "\<exists>res. poll_fill_buf_channel recv r = Some res"
  unfolding poll_fill_buf_channel_def
proof (rule run_loop_returns [where R = "measure (\<lambda>(r, j). Suc k - j + (if buffered r = [] then 1 else 0))"
      and I = "\<lambda>(r, j). j \<le> k \<or> j = Suc k \<and> buffered r \<noteq> []"])
  fix s s' assume I: "case s of (r, j) \<Rightarrow> j \<le> k \<or> j = Suc k \<and> buffered r \<noteq> []" and r: "fill_buf_round recv s = Inr s'"
  obtain r0 j where s: "s = (r0, j)" by force
  from r s obtain b where b: "recv j = RecvData b" "s' = (r0\<lparr>read_buf := Some b\<rparr>, j + 1)" "buffered r0 = []"
    by (auto simp: fill_buf_round_def buffered_def Let_def split: if_splits option.splits recv_result.splits)
  then have j: "j \<le> k" using I s by auto
  show "case s' of (r, j) \<Rightarrow> j \<le> k \<or> j = Suc k \<and> buffered r \<noteq> []"
    using b j assms by (cases "j = k") (auto simp: buffered_def)
  show "(s', s) \<in> measure (\<lambda>(r, j). Suc k - j + (if buffered r = [] then 1 else 0))"
    using b j s by (auto simp: buffered_def)
qed auto

section \<open>Writing\<close>

lemma write_size_le:
  "write_size mfs buf w \<le> length buf" "write_size mfs buf w \<le> nat (max (available w) 0)"
  "8 < unat mfs \<Longrightarrow> write_size mfs buf w \<le> unat mfs - 8"
  by (auto simp: write_size_def max_payload_for_def Let_def)

lemma write_size_zero: "buf \<noteq> [] \<Longrightarrow> write_size mfs buf w = 0 \<Longrightarrow> available w \<le> 0"
  by (auto simp: write_size_def max_payload_for_def Let_def min_def split: if_splits)

lemma write_commit_cases:
  assumes "write_commit sid buf n ok w = (w', cmds, out)"
  obtains (sent) "out = Ready (Ok n)" "cmds = [SendRawFrame (raw_data_frame sid (take n buf))]"
      "\<not> is_closed w" "w' = snd (consume n w)"
  | (poisoned) "out = Ready (Err BrokenPipe)" "cmds = []" "is_closed w" "w' = w"
  | (gone) "out = Ready (Err BrokenPipe)" "cmds = []" "\<not> ok" "w' = snd (consume n w)"
  using assms by (auto simp: write_commit_def consume_def is_closed_def split: if_splits prod.splits)

text \<open>The five ways a write can go; \<open>wl\<close> is the window as the write size was computed from it.\<close>

lemma poll_write_cases:
  assumes "poll_write_via_sender env reserve ok sid mfs task buf w = (w', cmds, out)" "buf \<noteq> []"
  obtains (sent) wl where "out = Ready (Ok (write_size mfs buf wl))" "0 < write_size mfs buf wl"
      "cmds = [SendRawFrame (raw_data_frame sid (take (write_size mfs buf wl) buf))]"
      "\<not> is_closed (env 5 wl)" "w' = snd (consume (write_size mfs buf wl) (env 5 wl))"
  | (no_permit) "out = Pending" "cmds = []" "w' = env 0 w" "reserve = ReservePending"
  | (no_credit) wr where "out = Pending" "cmds = []" "w' = env 4 (env 3 (register_waker task wr))" "available w' \<le> 0"
  | (broken) "out = Ready (Err BrokenPipe)" "cmds = []"
proof -
  let ?w0 = "env 0 w" let ?w1 = "env 1 ?w0"
  let ?w3 = "env 3 (register_waker task (env 2 ?w1))" let ?w4 = "env 4 ?w3"
  consider (early) "is_closed ?w0 \<or> reserve = ReserveErr"
    | (pend) "\<not> is_closed ?w0" "reserve = ReservePending"
    | (first) "\<not> is_closed ?w0" "reserve = ReserveOk" "write_size mfs buf ?w1 \<noteq> 0"
    | (closed) "\<not> is_closed ?w0" "reserve = ReserveOk" "write_size mfs buf ?w1 = 0" "is_closed ?w3"
    | (dry) "\<not> is_closed ?w0" "reserve = ReserveOk" "write_size mfs buf ?w1 = 0" "\<not> is_closed ?w3"
        "write_size mfs buf ?w4 = 0"
    | (second) "\<not> is_closed ?w0" "reserve = ReserveOk" "write_size mfs buf ?w1 = 0" "\<not> is_closed ?w3"
        "write_size mfs buf ?w4 \<noteq> 0"
    by (cases reserve) auto
  then show ?thesis
  proof cases
    case early
    then show ?thesis using assms broken by (cases "is_closed ?w0") (simp_all add: poll_write_via_sender_def Let_def)
  next
    case pend
    then show ?thesis using assms no_permit by (simp add: poll_write_via_sender_def)
  next
    case first
    then have c: "write_commit sid buf (write_size mfs buf ?w1) ok (env 5 ?w1) = (w', cmds, out)"
      using assms by (simp add: poll_write_via_sender_def Let_def)
    then show ?thesis
      by (cases rule: write_commit_cases) (use first sent [of ?w1] broken in auto)
  next
    case closed
    then show ?thesis using assms broken by (simp add: poll_write_via_sender_def Let_def)
  next
    case dry
    then have "w' = ?w4" "out = Pending" "cmds = []"
      using assms by (simp_all add: poll_write_via_sender_def Let_def)
    then show ?thesis using no_credit [of "env 2 ?w1"] write_size_zero [OF assms(2) dry(5)] by simp
  next
    case second
    then have c: "write_commit sid buf (write_size mfs buf ?w4) ok (env 5 ?w4) = (w', cmds, out)"
      using assms by (simp add: poll_write_via_sender_def Let_def)
    then show ?thesis
      by (cases rule: write_commit_cases) (use second sent [of ?w4] broken in auto)
  qed
qed

section \<open>Lifecycle\<close>

lemma realize_active_pairs:
  assumes "realize_stream_pair eh dh dch ech env before h = (h', effs, r)"
  shows "active_pairs h' = active_pairs h"
  using assms
  by (auto simp: realize_stream_pair_def realize_locked_def alloc_pair_def Let_def split: if_splits prod.splits)

text \<open>
  The slot of an unopened stream is held by its armed release guard.  The hand-over drops that guard
  after disarming it, so that the slot stays taken.
\<close>

definition phase_ok :: "open_phase \<Rightarrow> bool" where
  "phase_ok ph \<longleftrightarrow> (case ph of Unopened u \<Rightarrow> map_option armed (release_guard u) = Some True | Opened op \<Rightarrow> True)"

lemma drop_disarmed [simp]: "drop_release_guard (map_option disarm rg) h = h"
  by (simp add: drop_release_guard_def disarm_def split: option.splits)

lemma ensure_open_props:
  assumes "ensure_open oe ph h = (ph', h', effs, r)"
  shows "active_pairs h' = active_pairs h" "phase_ok ph \<Longrightarrow> phase_ok ph'"
    "r = Ok () \<Longrightarrow> \<exists>op. ph' = Opened op" "ph = Opened op \<Longrightarrow> ph' = Opened op \<and> h' = h \<and> effs = [] \<and> r = Ok ()"
  using assms
  by (auto simp: ensure_open_def ensure_realized_def phase_ok_def finish_open_def Let_def
      dest: realize_active_pairs split: open_phase.splits option.splits prod.splits sum.splits)

datatype stream_op =
    SRead open_env recv_result nat
  | SWrite open_env window_env reserve_result bool nat "byte list"
  | SShutdown open_env reserve_result bool
  | SFillBuf open_env "nat \<Rightarrow> recv_result"
  | SConsume nat

text \<open>A \<open>poll_fill_buf\<close> that is fed empty messages for ever does not return; it is no step.\<close>

definition stream_step :: "stream_op \<Rightarrow> stream \<times> mux_handle \<Rightarrow> stream \<times> mux_handle \<times> handle_effect list" where
  "stream_step op sh =
     (let (s, h) = sh in
      case op of
        SRead oe recv cap \<Rightarrow> (case stream_poll_read oe recv cap s h of (s', h', effs, out) \<Rightarrow> (s', h', effs))
      | SWrite oe env reserve ok task buf \<Rightarrow>
          (case stream_poll_write oe env reserve ok task buf s h of (s', h', effs, out) \<Rightarrow> (s', h', effs))
      | SShutdown oe reserve ok \<Rightarrow>
          (case stream_poll_shutdown oe reserve ok s h of (s', h', effs, out) \<Rightarrow> (s', h', effs))
      | SFillBuf oe recvs \<Rightarrow>
          (case stream_poll_fill_buf oe recvs s h of None \<Rightarrow> (s, h, []) | Some (s', h', effs, out) \<Rightarrow> (s', h', effs))
      | SConsume amt \<Rightarrow> (stream_consume amt s, h, []))"

primrec stream_ops :: "stream_op list \<Rightarrow> stream \<times> mux_handle \<Rightarrow> stream \<times> mux_handle \<times> handle_effect list" where
  "stream_ops [] sh = (fst sh, snd sh, [])"
| "stream_ops (op # ops) sh =
     (let (s1, h1, e1) = stream_step op sh; (s2, h2, e2) = stream_ops ops (s1, h1) in (s2, h2, e1 @ e2))"

lemma stream_step_props:
  assumes "stream_step op (s, h) = (s', h', effs)" "phase_ok (s_phase s)"
  shows "active_pairs h' = active_pairs h \<and> phase_ok (s_phase s')"
proof (cases op)
  case (SRead oe recv cap)
  obtain ph h1 e1 r where o: "ensure_open oe (s_phase s) h = (ph, h1, e1, r)" by (metis prod_cases4)
  show ?thesis
    using assms SRead o ensure_open_props(1,2) [OF o]
    by (auto simp: stream_step_def stream_poll_read_def Let_def split: if_splits sum.splits prod.splits)
next
  case (SWrite oe env reserve ok task buf)
  obtain ph h1 e1 r where o: "ensure_open oe (s_phase s) h = (ph, h1, e1, r)" by (metis prod_cases4)
  show ?thesis
    using assms SWrite o ensure_open_props(1,2) [OF o]
    by (auto simp: stream_step_def stream_poll_write_def Let_def split: if_splits sum.splits prod.splits open_phase.splits)
next
  case (SShutdown oe reserve ok)
  obtain ph h1 e1 r where o: "ensure_open oe (s_phase s) h = (ph, h1, e1, r)" by (metis prod_cases4)
  show ?thesis
    using assms SShutdown o ensure_open_props(1,2) [OF o]
    by (auto simp: stream_step_def stream_poll_shutdown_def phase_ok_def Let_def
        split: if_splits sum.splits prod.splits open_phase.splits)
next
  case (SFillBuf oe recvs)
  obtain ph h1 e1 r where o: "ensure_open oe (s_phase s) h = (ph, h1, e1, r)" by (metis prod_cases4)
  show ?thesis
    using assms SFillBuf o ensure_open_props(1,2) [OF o]
    by (auto simp: stream_step_def stream_poll_fill_buf_def Let_def split: option.splits sum.splits prod.splits)
next
  case (SConsume amt)
  then show ?thesis using assms by (auto simp: stream_step_def stream_consume_def)
qed

lemma stream_ops_props:
  assumes "stream_ops ops (s, h) = (s', h', effs)" "phase_ok (s_phase s)"
  shows "active_pairs h' = active_pairs h \<and> phase_ok (s_phase s')"
  using assms
proof (induction ops arbitrary: s h effs)
  case (Cons op ops)
  obtain s1 h1 e1 where st: "stream_step op (s, h) = (s1, h1, e1)" by (metis prod_cases3)
  then obtain e2 where rest: "stream_ops ops (s1, h1) = (s', h', e2)"
    using Cons.prems(1) by (auto split: prod.splits)
  show ?case
    using Cons.IH [OF rest] stream_step_props [OF st Cons.prems(2)] by simp
qed simp

section \<open>Properties\<close>

text \<open>
  Reads are faithful.  Through any sequence of \<open>poll_read\<close>s of any size, \<open>poll_fill_buf\<close>s and
  \<open>consume\<close>s, the bytes the user has taken followed by the bytes still buffered are exactly the bytes
  that came out of the stream's channel, in order; and once the end is reported nothing is left.
\<close>

lemma stream_reads_faithful:
  assumes "read_run ops (read_new, [], []) = Some (r, consumed, received)"
  shows "consumed @ buffered r = received \<and> (read_eof r \<longrightarrow> consumed = received)"
proof -
  have "read_inv (read_new, [], [])" by (simp add: read_inv_def read_new_def buffered_def)
  from read_run_inv [OF assms this] show ?thesis by (auto simp: read_inv_def buffered_def)
qed

text \<open>
  C22.  Writes are exact.  Whatever other tasks do to the send window between its accesses, a write
  that reports \<open>n\<close> bytes hands the writer one DATA frame with the first \<open>n\<close> bytes of the buffer, at most
  the negotiated frame size, and debits a live window by \<open>n\<close>; a write that has to wait hands over
  nothing and debits nothing, and if it waits for credit, it found none after registering its waker.
\<close>

theorem stream_write_exact:
  assumes "poll_write_via_sender env reserve ok sid mfs task buf w = (w', cmds, out)" "buf \<noteq> []" "8 < unat mfs"
  shows "case out of
      Ready (Inr n) \<Rightarrow> 0 < n \<and> n \<le> length buf \<and> n + 8 \<le> unat mfs \<and>
        cmds = [SendRawFrame (raw_data_frame sid (take n buf))] \<and>
        (\<exists>wl. int n \<le> available wl \<and> \<not> is_closed (env 5 wl) \<and> w' = snd (consume n (env 5 wl)))
    | Ready (Inl e) \<Rightarrow> cmds = []
    | Pending \<Rightarrow> cmds = [] \<and> (reserve = ReservePending \<and> w' = env 0 w \<or>
        (\<exists>wr. w' = env 4 (env 3 (register_waker task wr)) \<and> available w' \<le> 0))"
  using assms(1,2)
proof (cases rule: poll_write_cases)
  case (sent wl)
  moreover have "write_size mfs buf wl + 8 \<le> unat mfs" using write_size_le(3) [OF assms(3), of buf wl] assms(3) by linarith
  moreover have "int (write_size mfs buf wl) \<le> available wl"
    using write_size_le(2) [of mfs buf wl] sent(2) by linarith
  ultimately show ?thesis using write_size_le(1) [of mfs buf wl] by auto
qed auto

theorem stream_write_exact_witness:
  "snd (snd (poll_write_via_sender (\<lambda>_ w. w) ReserveOk True 3 1024 0 [1, 2, 3] (sw_new 2))) = Ready (Ok 2) \<and>
   fst (snd (poll_write_via_sender (\<lambda>_ w. w) ReserveOk True 3 1024 0 [1, 2, 3] (sw_new 2)))
     = [SendRawFrame (raw_data_frame 3 [1, 2])]"
proof -
  obtain w' cmds out where p: "poll_write_via_sender (\<lambda>_ w. w) ReserveOk True 3 1024 0 [1, 2, 3] (sw_new 2) = (w', cmds, out)"
    by (metis prod_cases3)
  have "out = Ready (Ok 2)"
    using p by (auto simp: poll_write_via_sender_def write_size_def max_payload_for_def write_commit_def consume_def
        Window.is_closed_def sw_new_def I64_MIN_def available_def Let_def split: if_splits)
  then show ?thesis using stream_write_exact [OF p] p by simp
qed

text \<open>
  C23.  A slot is released exactly once.  No operation on a stream changes the count of active pairs, the
  one that opens it on the wire included, which disarms the release guard of the unopened stream, hands
  the slot to the guard of the opened one and drops the first; and after any sequence of operations,
  successful or not, dropping the stream takes exactly one off the count.
\<close>

theorem stream_releases_once:
  assumes "stream_ops ops (new_unopened parts dch ech, h) = (s', h', effs)"
  shows "active_pairs h' = active_pairs h \<and>
    active_pairs (fst (drop_stream (s_phase s') h')) = active_pairs h - 1"
proof -
  have "phase_ok (s_phase (new_unopened parts dch ech))" by (simp add: phase_ok_def new_unopened_def pair_release_guard_new_def)
  from stream_ops_props [OF assms this] show ?thesis
    by (auto simp: drop_stream_def drop_guard_def drop_release_guard_def release_pair_def phase_ok_def
        split: open_phase.splits option.splits)
qed

text \<open>A stream whose first read opens it on the wire.\<close>

definition accepting :: realize_env where
  "accepting = \<lparr>env_reg_error = SendOk, env_reg_data = SendOk, env_cmd = SendOk, env_ctrl_permit_error = True,
     env_ctrl_permit_data = True, env_close_permit_error = True, env_close_permit_data = True\<rparr>"

theorem stream_releases_once_witness:
  "let h = snd (reserve_pair (spawn_handle mux_config_default (\<lambda>_. sw_new 0)));
       s = new_unopened \<lparr>up_error_headers = [], up_data_headers = [], up_max_frame_size = 1024\<rparr> 0 1
   in (case stream_ops [SRead (accepting, h) RecvPending 10] (s, h) of (s', h', effs) \<Rightarrow>
        (\<exists>o1. s_phase s' = Opened o1) \<and> active_pairs h' = 1 \<and> active_pairs (fst (drop_stream (s_phase s') h')) = 0)"
proof -
  let ?h = "snd (reserve_pair (spawn_handle mux_config_default (\<lambda>_. sw_new 0)))"
  let ?parts = "\<lparr>up_error_headers = [], up_data_headers = [], up_max_frame_size = 1024\<rparr>"
  obtain s' h' effs where o: "stream_ops [SRead (accepting, ?h) RecvPending 10] (new_unopened ?parts 0 1, ?h) = (s', h', effs)"
    by (metis prod_cases3)
  have "\<exists>o1. s_phase s' = Opened o1"
    using o by (auto simp: stream_step_def stream_poll_read_def ensure_open_def ensure_realized_def new_unopened_def
        finish_open_def realize_stream_pair_def realize_locked_def register_pair_def accepting_def spawn_handle_def
        mux_config_default_def reserve_pair_def MAX_STREAM_ID_def all_permits_def Let_def split: prod.splits)
  moreover have "active_pairs ?h = 1" by (simp add: reserve_pair_def spawn_handle_def)
  ultimately show ?thesis using stream_releases_once [OF o] o by (simp only: Let_def prod.case) simp
qed

section \<open>The halves\<close>

lemma ensure_shared_open_eq: "ensure_shared_open = ensure_open"
  by (intro ext) (auto simp: ensure_shared_open_def ensure_open_def finish_shared_open_def finish_open_def
      split: open_phase.splits prod.splits sum.splits)

abbreviation whole_as_halves :: "stream \<Rightarrow> open_phase \<times> data_stream" where
  "whole_as_halves s \<equiv> (fst (stream_split s), fst (snd (stream_split s)))"

lemma split_read:
  "case stream_poll_read oe recv cap s h of (s', h', effs, out) \<Rightarrow>
     data_poll_read oe recv cap (fst (whole_as_halves s)) (snd (whole_as_halves s)) h
       = (fst (whole_as_halves s'), snd (whole_as_halves s'), h', effs, out)"
  by (auto simp: stream_split_def stream_poll_read_def data_poll_read_def ensure_shared_open_eq
      split: sum.splits prod.splits)

lemma split_fill_buf:
  "map_option (\<lambda>(s', h', effs, out). (fst (whole_as_halves s'), snd (whole_as_halves s'), h', effs, out))
     (stream_poll_fill_buf oe recvs s h)
   = data_poll_fill_buf oe recvs (fst (whole_as_halves s)) (snd (whole_as_halves s)) h"
  by (auto simp: stream_split_def stream_poll_fill_buf_def data_poll_fill_buf_def ensure_shared_open_eq
      option.map_comp comp_def split: sum.splits prod.splits intro!: option.map_cong)

lemma split_write:
  "case stream_poll_write oe env reserve ok task buf s h of (s', h', effs, out) \<Rightarrow>
     data_poll_write oe env reserve ok task buf (fst (whole_as_halves s)) (snd (whole_as_halves s)) h
       = (fst (whole_as_halves s'), snd (whole_as_halves s'), h', effs, out)"
proof -
  obtain ph' h' effs r where "ensure_open oe (s_phase s) h = (ph', h', effs, r)" by (metis prod_cases4)
  then show ?thesis
    by (auto simp: stream_split_def stream_poll_write_def data_poll_write_def ensure_shared_open_eq Let_def
        split: sum.splits open_phase.splits prod.splits)
qed

lemma split_shutdown:
  "case stream_poll_shutdown oe reserve ok s h of (s', h', effs, out) \<Rightarrow>
     data_poll_shutdown oe reserve ok (fst (whole_as_halves s)) (snd (whole_as_halves s)) h
       = (fst (whole_as_halves s'), snd (whole_as_halves s'), h', effs, out)"
proof -
  obtain ph' h' effs r where "ensure_open oe (s_phase s) h = (ph', h', effs, r)" by (metis prod_cases4)
  then show ?thesis
    by (auto simp: stream_split_def stream_poll_shutdown_def data_poll_shutdown_def ensure_shared_open_eq Let_def
        split: sum.splits open_phase.splits prod.splits)
qed

text \<open>
  C24.  The data half of a split stream behaves as the whole: reading, filling the buffer, consuming
  from it, writing and shutting down through the half does to the shared open state, the handle and
  the messages exactly what the same operation on the unsplit stream does, and returns the same.
\<close>

theorem stream_split_equivalent:
  "(case stream_poll_read oe recv cap s h of (s', h', effs, out) \<Rightarrow>
      data_poll_read oe recv cap (fst (whole_as_halves s)) (snd (whole_as_halves s)) h
        = (fst (whole_as_halves s'), snd (whole_as_halves s'), h', effs, out)) \<and>
   map_option (\<lambda>(s', h', effs, out). (fst (whole_as_halves s'), snd (whole_as_halves s'), h', effs, out))
      (stream_poll_fill_buf oe recvs s h)
        = data_poll_fill_buf oe recvs (fst (whole_as_halves s)) (snd (whole_as_halves s)) h \<and>
   whole_as_halves (stream_consume amt s) = (fst (whole_as_halves s), data_consume amt (snd (whole_as_halves s))) \<and>
   (case stream_poll_write oe env reserve ok task buf s h of (s', h', effs, out) \<Rightarrow>
      data_poll_write oe env reserve ok task buf (fst (whole_as_halves s)) (snd (whole_as_halves s)) h
        = (fst (whole_as_halves s'), snd (whole_as_halves s'), h', effs, out)) \<and>
   (case stream_poll_shutdown oe reserve ok s h of (s', h', effs, out) \<Rightarrow>
      data_poll_shutdown oe reserve ok (fst (whole_as_halves s)) (snd (whole_as_halves s)) h
        = (fst (whole_as_halves s'), snd (whole_as_halves s'), h', effs, out))"
  using split_read split_fill_buf split_write split_shutdown
  by (intro conjI) (simp_all add: stream_split_def stream_consume_def data_consume_def)

end
