(* ===== verification/Inbound.thy ===== *)
theory Inbound
  imports Reader_Laws Worker_Laws Framing Stream_Laws "HOL-Library.Sublist"
begin

text \<open>
  The way of a DATA frame from the peer's bytes to the user: decoded and routed by the reader, handed over by the
  worker of its shard, read by the user from the stream's channel.

  The tasks share only channels.  A channel of \<open>tokio\<close> is first-in first-out, so what its receiver has taken
  is a prefix of what its senders put in; the composition below states exactly that of each channel between
  two tasks, and so holds however the tasks are scheduled.
\<close>

section \<open>From the peer to the user\<close>

text \<open>The frames that the reader queues for a worker, the \<open>n\<close>-th of the connection being the first.\<close>

primrec routed_to :: "nat \<Rightarrow> route_io \<Rightarrow> nat \<Rightarrow> frame list \<Rightarrow> frame list" where
  "routed_to k io n [] = []"
| "routed_to k io n (f # fs) = (if for_worker k (f, io n) then [f] else []) @ routed_to k io (Suc n) fs"

text \<open>A SETTINGS frame with a frame size changes what the decoder accepts; the frames here have none.\<close>

definition keeps_limit :: "frame \<Rightarrow> bool" where
  "keeps_limit f = (case f of Settings iws mcs (Some m) \<Rightarrow> False | _ \<Rightarrow> True)"

lemma route_frame_codec:
  "route_frame cfg f a b st = (st', effs) \<Longrightarrow> keeps_limit f \<Longrightarrow> rd_codec st' = rd_codec st"
  by (cases f) (auto simp: route_frame_def route_data_def route_ping_def route_settings_def route_window_setting_def
      keeps_limit_def Let_def split: if_splits option.splits prod.splits)

lemma drain_queue:
  assumes "decodes_to z (rd_codec st) (frame_buf st) fs d" "list_all keeps_limit fs"
  shows "\<exists>st' effs. run_loop (drain_round z cfg io) (st, e0) = Some (Some ((st', e0 @ effs), NeedMore)) \<and>
    worker_queue k effs = routed_to k io (rd_routed st) fs"
  using assms
proof (induction fs arbitrary: st e0)
  case Nil
  then have "frame_buf st = []" by (cases rule: decodes_to.cases) simp
  then have "drain_round z cfg io (st, e0) = Inl (Some ((st, e0 @ []), NeedMore))" by (simp add: drain_round_def)
  then have "run_loop (drain_round z cfg io) (st, e0) = Some (Some ((st, e0 @ []), NeedMore))" by simp
  then show ?case by (metis routed_to.simps(1) worker_queue_simps(1))
next
  case (Cons f fs)
  from Cons.prems(1) obtain c rest where dec: "decode_frame z (rd_codec st) (frame_buf st) = Some (c, rest, Ok (Some f))"
    and more: "decodes_to z c rest fs d" by (rule decodes_to_ConsE)
  let ?st = "st\<lparr>rd_codec := c, frame_buf := rest, rd_routed := Suc (rd_routed st)\<rparr>"
  obtain a b where io: "io (rd_routed st) = (a, b)" by force
  obtain st2 new where rf: "route_frame cfg f a b ?st = (st2, new)" by force
  have "8 \<le> length (frame_buf st)" using dec by (auto simp: decode_frame_def split: if_splits)
  then have one: "drain_round z cfg io (st, e0) = Inr (st2, e0 @ new)"
    using dec io rf by (simp add: drain_round_def)
  have "rd_codec st2 = c" "frame_buf st2 = rest" "rd_routed st2 = Suc (rd_routed st)"
    using route_frame_codec [OF rf] route_frame_buf [OF rf] Cons.prems(2) by simp_all
  then obtain st' effs where r: "run_loop (drain_round z cfg io) (st2, e0 @ new) = Some (Some ((st', (e0 @ new) @ effs), NeedMore))"
    "worker_queue k effs = routed_to k io (Suc (rd_routed st)) fs"
    using Cons.IH [of st2 "e0 @ new"] more Cons.prems(2) by auto
  have "worker_queue k new = (if for_worker k (f, io (rd_routed st)) then [f] else [])"
    using route_frame_queue [OF rf, of k] io by (simp add: for_worker_def split: option.splits)
  then show ?case using one r by (intro exI [of _ st'] exI [of _ "new @ effs"]) simp
qed

lemma receive_queue:
  assumes "decodes_to z (rd_codec st) (concat (p # ps)) fs d" "frame_buf st = []" "list_all keeps_limit fs"
    and "receive_all z cfg io (p # ps) st = Some ((st', effs), NeedMore)"
  shows "worker_queue k effs = routed_to k io (rd_routed st) fs"
proof -
  let ?st = "st\<lparr>frame_buf := concat (p # ps)\<rparr>"
  obtain st1 effs1 where d: "run_loop (drain_round z cfg io) (?st, []) = Some (Some ((st1, [] @ effs1), NeedMore))"
    "worker_queue k effs1 = routed_to k io (rd_routed ?st) fs"
    using drain_queue [of z ?st fs d cfg io "[]" k] assms(1,3) by auto
  have "receive_binary z cfg io (concat (p # ps)) st = Some ((st', effs), NeedMore)"
    by (rule receive_all_concat [OF assms(4)])
  then have "effs = effs1" using d(1) assms(2) by (simp add: receive_binary_def drain_buffer_def)
  then show ?thesis using d(2) by simp
qed

text \<open>The payloads that a worker hands to a channel, and those of a stream's DATA frames.\<close>

definition deliveries :: "chan_id \<Rightarrow> worker_effect list \<Rightarrow> byte list list" where
  "deliveries ch effs = concat (map (\<lambda>e. case e of Deliver s c p \<Rightarrow> if c = ch then [p] else [] | _ \<Rightarrow> []) effs)"

definition payloads :: "u32 \<Rightarrow> frame list \<Rightarrow> byte list list" where
  "payloads sid fs = concat (map (\<lambda>f. case f of Data s p fin \<Rightarrow> if s = sid \<and> p \<noteq> [] then [p] else [] | _ \<Rightarrow> []) fs)"

definition input_frames :: "worker_input list \<Rightarrow> frame list" where
  "input_frames inps = concat (map (\<lambda>i. case i of InFrame f sent ok \<Rightarrow> [f] | _ \<Rightarrow> []) inps)"

text \<open>The payloads up to the end of the stream.\<close>

fun payloads_to_fin :: "u32 \<Rightarrow> frame list \<Rightarrow> byte list list" where
  "payloads_to_fin sid [] = []"
| "payloads_to_fin sid (Data s p fin # fs) =
     (if s = sid then (if p \<noteq> [] then [p] else []) @ (if fin then [] else payloads_to_fin sid fs)
      else payloads_to_fin sid fs)"
| "payloads_to_fin sid (f # fs) = payloads_to_fin sid fs"

lemma deliveries_simps [simp]:
  "deliveries ch [] = []" "deliveries ch (xs @ ys) = deliveries ch xs @ deliveries ch ys"
  "deliveries ch (Deliver s c p # xs) = (if c = ch then [p] else []) @ deliveries ch xs"
  "deliveries ch (ToControl c' # xs) = deliveries ch xs" "deliveries ch (ToWindow c' # xs) = deliveries ch xs"
  "deliveries ch (Reply rid r # xs) = deliveries ch xs" "deliveries ch (update_effect sid upd) = []"
  by (auto simp: deliveries_def update_effect_def split: option.splits)

lemma payloads_simps [simp]:
  "payloads sid [] = []" "payloads sid (xs @ ys) = payloads sid xs @ payloads sid ys"
  "payloads sid (Data s p fin # fs) = (if s = sid \<and> p \<noteq> [] then [p] else []) @ payloads sid fs"
  by (simp_all add: payloads_def)

lemma input_frames_simps [simp]:
  "input_frames [] = []" "input_frames (InFrame f sent ok # inps) = f # input_frames inps"
  "input_frames (InReg r # inps) = input_frames inps"
  by (simp_all add: input_frames_def)

text \<open>At most one stream holds the channel, in the worker and in what it is told.\<close>

definition only_owner :: "chan_id \<Rightarrow> u32 \<Rightarrow> worker \<Rightarrow> bool" where
  "only_owner ch sid w \<longleftrightarrow> (\<forall>s st. stream_of w s = Some st \<longrightarrow> data_tx st = Some ch \<longrightarrow> s = sid)"

definition registers_for :: "chan_id \<Rightarrow> u32 \<Rightarrow> worker_input \<Rightarrow> bool" where
  "registers_for ch sid inp = (case inp of InReg (RegOpen s c rid win) \<Rightarrow> c = ch \<longrightarrow> s = sid | _ \<Rightarrow> True)"

text \<open>What one frame hands to a channel.\<close>

lemma payload_step_deliveries:
  assumes "payload_step iws s p st0 st1 effs"
  shows "deliveries ch effs = (if \<exists>st. st0 = Some st \<and> data_tx st = Some ch \<and> effs \<noteq> [] \<and> st1 \<noteq> None then [p] else [])"
    and "st1 = Some st' \<Longrightarrow> \<exists>st. st0 = Some st \<and> data_tx st' = data_tx st"
  using assms by (cases rule: payload_step.cases; auto)+

lemma dispatch_delivers:
  assumes "dispatch_frame_in_worker iws f sent ok w wins = (w', wins', new)" "deliveries ch new \<noteq> []"
  shows "\<exists>s p fin st. f = Data s p fin \<and> p \<noteq> [] \<and> stream_of w s = Some st \<and> data_tx st = Some ch \<and> deliveries ch new = [p]"
proof (cases f)
  case (Data s p fin)
  then have d: "dispatch_data iws s p fin sent ok w = (w', new)"
    using assms(1) by (auto simp: dispatch_frame_in_worker_def split: prod.splits)
  then have "p \<noteq> []" using assms(2) by (auto simp: dispatch_data_def)
  then obtain w1 ret where "dispatch_payload iws s p sent ok w = (w1, new, ret)"
    using d by (auto simp: dispatch_data_def split: prod.splits)
  from dispatch_payload_props(1) [OF this] obtain st1 where "payload_step iws s p (stream_of w s) st1 new" by blast
  note step = payload_step_deliveries(1) [OF this, of ch]
  then obtain st where "stream_of w s = Some st" "data_tx st = Some ch" "deliveries ch new = [p]"
    using assms(2) by (simp split: if_splits)
  then show ?thesis using Data \<open>p \<noteq> []\<close> by simp
next
  case (SynReply s hs fin)
  then have "dispatch_syn_reply s fin w = (w', new)"
    using assms(1) by (auto simp: dispatch_frame_in_worker_def split: prod.splits)
  from dispatch_syn_reply_props(2) [OF this] show ?thesis using assms(2) by (auto split: option.splits if_splits)
next
  case (RstStream s status)
  obtain w1 wins1 where rc: "remove_and_close s (w, wins) = (w1, wins1)" by force
  obtain w2 reply where tr: "take_reply s (Err (StreamReset s status)) w1 = (w2, reply)" by force
  have "new = reply" using assms(1) RstStream rc tr
    by (auto simp: dispatch_frame_in_worker_def dispatch_rst_stream_def)
  then show ?thesis using take_reply_props(3) [OF tr] assms(2) by (auto split: option.splits)
qed (use assms in \<open>auto simp: dispatch_frame_in_worker_def split: option.splits\<close>)

lemma dispatch_channels:
  assumes "dispatch_frame_in_worker iws f sent ok w wins = (w', wins', new)"
    and "stream_of w' s = Some st'" "data_tx st' = Some ch"
  shows "\<exists>st. stream_of w s = Some st \<and> data_tx st = Some ch"
proof (cases f)
  case (Data s' p fin)
  then have "dispatch_data iws s' p fin sent ok w = (w', new)"
    using assms(1) by (auto simp: dispatch_frame_in_worker_def split: prod.splits)
  from dispatch_data_props(1) [OF this] assms(2,3) show ?thesis
    by (auto split: if_splits dest!: payload_step_deliveries(2)) (metis payload_step_deliveries(2))?
next
  case (SynReply s' hs fin)
  then have "dispatch_syn_reply s' fin w = (w', new)"
    using assms(1) by (auto simp: dispatch_frame_in_worker_def split: prod.splits)
  from dispatch_syn_reply_props(1) [OF this]
  obtain w1 where "streams w1 = streams w" "w' = w1 \<or> w' = half_close s' w1" by metis
  then show ?thesis using assms(2,3) half_close_props(1) [of s' w1] by (auto simp: stream_of_def split: if_splits)
next
  case (RstStream s' status)
  obtain w1 wins1 where rc: "remove_and_close s' (w, wins) = (w1, wins1)" by force
  obtain w2 reply where tr: "take_reply s' (Err (StreamReset s' status)) w1 = (w2, reply)" by force
  have "w' = w2" using assms(1) RstStream rc tr
    by (auto simp: dispatch_frame_in_worker_def dispatch_rst_stream_def)
  then show ?thesis
    using assms(2,3) remove_and_close_props(1) [OF rc] take_reply_props(1) [OF tr] by (auto simp: stream_of_def split: if_splits)
qed (use assms in \<open>auto simp: dispatch_frame_in_worker_def split: option.splits\<close>)

lemma dispatch_deliveries:
  assumes "dispatch_frame_in_worker iws f sent ok w wins = (w', wins', new)" "only_owner ch sid w"
  shows "deliveries ch new = [] \<or> deliveries ch new = payloads sid [f]"
proof (cases "deliveries ch new = []")
  case False
  from dispatch_delivers [OF assms(1) this] show ?thesis using assms(2) by (auto simp: only_owner_def)
qed simp

lemma registration_deliveries:
  assumes "apply_registration reg w wins = (w', wins', new)"
  shows "deliveries ch new = []"
proof (cases reg)
  case (RegGoAway lg status)
  then have "fold (goaway_stream lg status) (bad_ids lg w) (w, wins, []) = (w', wins', new)"
    using assms by (simp add: apply_registration_def)
  from goaway_fold_effects [OF this] have "\<forall>e\<in>set new. (\<exists>c. e = ToControl c) \<or> (\<exists>rid r. e = Reply rid r)" by auto
  then show ?thesis by (induction new) auto
qed (use assms in \<open>auto simp: apply_registration_def split: prod.splits\<close>)

lemma registration_channels:
  assumes "apply_registration reg w wins = (w', wins', new)" "stream_of w' s = Some st'" "data_tx st' = Some ch"
  shows "(\<exists>st. stream_of w s = Some st \<and> data_tx st = Some ch) \<or> (\<exists>rid win. reg = RegOpen s ch rid win)"
proof (cases reg)
  case (RegOpen s' c rid win)
  then show ?thesis using assms by (auto simp: apply_registration_def stream_of_def split: if_splits)
next
  case (RegClose s')
  obtain w1 wins1 where rc: "remove_and_close s' (w, wins) = (w1, wins1)" by force
  then have "stream_of w' = stream_of w1" using assms(1) RegClose by (auto simp: apply_registration_def stream_of_def)
  then show ?thesis using assms(2,3) remove_and_close_props(1) [OF rc] by (auto split: if_splits)
next
  case (RegGoAway lg status)
  then have "fold (goaway_stream lg status) (bad_ids lg w) (w, wins, []) = (w', wins', new)"
    using assms(1) by (simp add: apply_registration_def)
  from goaway_fold_props [OF this] show ?thesis using assms(2,3) by (auto split: if_splits)
qed (use assms in \<open>auto simp: apply_registration_def\<close>)

lemma step_deliveries:
  assumes "worker_step iws inp (w, wins, effs) = (w', wins', effs')" "only_owner ch sid w" "registers_for ch sid inp"
  shows "\<exists>new. effs' = effs @ new \<and> (deliveries ch new = [] \<or> deliveries ch new = payloads sid (input_frames [inp]))"
    and "only_owner ch sid w'"
proof -
  show "\<exists>new. effs' = effs @ new \<and> (deliveries ch new = [] \<or> deliveries ch new = payloads sid (input_frames [inp]))"
    using assms(1) by (cases rule: worker_stepE)
      (use dispatch_deliveries [OF _ assms(2)] registration_deliveries in fastforce)+
  show "only_owner ch sid w'" unfolding only_owner_def
  proof (intro allI impI)
    fix s st' assume st': "stream_of w' s = Some st'" "data_tx st' = Some ch"
    from assms(1) show "s = sid"
    proof (cases rule: worker_stepE)
      case (reg r new)
      from registration_channels [OF reg(2) st'] show ?thesis
        using assms(2,3) reg(1) by (auto simp: only_owner_def registers_for_def)
    next
      case (frame f sent ok new)
      from dispatch_channels [OF frame(2) st'] show ?thesis using assms(2) by (auto simp: only_owner_def)
    qed
  qed
qed

lemma run_deliveries:
  assumes "worker_run iws inps (w, wins, effs) = (w', wins', effs')" "only_owner ch sid w"
    and "list_all (registers_for ch sid) inps"
  shows "\<exists>new. effs' = effs @ new \<and> subseq (deliveries ch new) (payloads sid (input_frames inps))"
  using assms
proof (induction inps arbitrary: w wins effs)
  case (Cons inp inps)
  obtain w1 wins1 effs1 where s: "worker_step iws inp (w, wins, effs) = (w1, wins1, effs1)" by (metis prod_cases3)
  from step_deliveries [OF s Cons.prems(2)] Cons.prems(3) obtain new1 where
    n1: "effs1 = effs @ new1" "deliveries ch new1 = [] \<or> deliveries ch new1 = payloads sid (input_frames [inp])"
    "only_owner ch sid w1" by auto
  obtain new2 where n2: "effs' = effs1 @ new2" "subseq (deliveries ch new2) (payloads sid (input_frames inps))"
    using Cons.IH [OF _ n1(3)] Cons.prems(1,3) s by (auto simp: worker_run_Cons)
  have "payloads sid (input_frames (inp # inps)) = payloads sid (input_frames [inp]) @ payloads sid (input_frames inps)"
    by (cases inp) (simp_all add: payloads_def)
  moreover have "subseq (deliveries ch new1) (payloads sid (input_frames [inp]))" using n1(2) by auto
  ultimately have "subseq (deliveries ch (new1 @ new2)) (payloads sid (input_frames (inp # inps)))"
    using n2(2) list_emb_append_mono by fastforce
  then show ?case using n1(1) n2(1) by (intro exI [of _ "new1 @ new2"]) simp
qed simp

text \<open>
  When every payload finds room and nothing but its own FIN ends the stream, every payload up to the
  FIN is handed over.
\<close>

definition keeps_open :: "u32 \<Rightarrow> worker_input \<Rightarrow> bool" where
  "keeps_open sid inp =
     (case inp of
        InReg (RegOpen s ch rid win) \<Rightarrow> s \<noteq> sid
      | InReg (RegClose s) \<Rightarrow> s \<noteq> sid
      | InReg (SettingsWindowDelta d) \<Rightarrow> True
      | InReg (RegGoAway last_good status) \<Rightarrow> sid \<le> last_good
      | InFrame f sent ok \<Rightarrow>
          (case f of
             Data s p fin \<Rightarrow> s = sid \<longrightarrow> sent = SendOk
           | SynReply s hs fin \<Rightarrow> s = sid \<longrightarrow> \<not> fin
           | RstStream s status \<Rightarrow> s \<noteq> sid
           | _ \<Rightarrow> True))"

definition has_channel :: "chan_id \<Rightarrow> u32 \<Rightarrow> worker \<Rightarrow> bool" where
  "has_channel ch sid w \<longleftrightarrow> (\<exists>st. stream_of w sid = Some st \<and> data_tx st = Some ch)"

definition ends_stream :: "u32 \<Rightarrow> worker_input \<Rightarrow> bool" where
  "ends_stream sid inp = (case inp of InFrame (Data s p fin) sent ok \<Rightarrow> s = sid \<and> fin | _ \<Rightarrow> False)"

lemma data_exact:
  assumes "dispatch_data iws s p fin sent ok w = (w', new)" "has_channel ch sid w" "s = sid \<longrightarrow> sent = SendOk"
    "only_owner ch sid w"
  shows "deliveries ch new = payloads sid [Data s p fin]" and "has_channel ch sid w' \<longleftrightarrow> \<not> (s = sid \<and> fin)"
proof -
  obtain st where st: "stream_of w sid = Some st" "data_tx st = Some ch" using assms(2) by (auto simp: has_channel_def)
  show "deliveries ch new = payloads sid [Data s p fin]"
  proof (cases "s = sid")
    case True
    then show ?thesis using assms(1,3) st
      by (auto simp: dispatch_data_def dispatch_payload_def stream_of_def split: if_splits prod.splits)
  next
    case False
    have "dispatch_frame_in_worker iws (Data s p fin) sent ok w undefined = (w', undefined, new)"
      using assms(1) by (simp add: dispatch_frame_in_worker_def)
    from dispatch_deliveries [OF this assms(4)] show ?thesis using False by auto
  qed
  show "has_channel ch sid w' \<longleftrightarrow> \<not> (s = sid \<and> fin)"
    using assms(1,3) st
    by (auto simp: dispatch_data_def dispatch_payload_def has_channel_def stream_of_def half_close_def
        split: if_splits prod.splits option.splits send_result.splits)
qed

lemma frame_exact:
  assumes d: "dispatch_frame_in_worker iws f sent ok w wins = (w', wins', new)" and k: "keeps_open sid (InFrame f sent ok)"
    and h: "has_channel ch sid w" and own: "only_owner ch sid w"
  shows "deliveries ch new = payloads sid [f] \<and> (has_channel ch sid w' \<longleftrightarrow> \<not> ends_stream sid (InFrame f sent ok))"
proof (cases f)
  case (Data s p fin)
  then have e: "dispatch_data iws s p fin sent ok w = (w', new)"
    using d by (auto simp: dispatch_frame_in_worker_def split: prod.splits)
  have "s = sid \<longrightarrow> sent = SendOk" using k Data by (simp add: keeps_open_def)
  from data_exact [OF e h this own] show ?thesis using Data by (simp add: ends_stream_def)
next
  case (SynReply s hs fin)
  then have "dispatch_syn_reply s fin w = (w', new)"
    using d by (auto simp: dispatch_frame_in_worker_def split: prod.splits)
  from dispatch_syn_reply_props(1) [OF this]
  obtain w1 where "streams w1 = streams w" "w' = (if fin then half_close s w1 else w1)" by metis
  then have "has_channel ch sid w'"
    using h k SynReply half_close_props(1) [of s w1] by (auto simp: has_channel_def keeps_open_def stream_of_def)
  then show ?thesis using dispatch_deliveries [OF d own] SynReply by (auto simp: payloads_def ends_stream_def)
next
  case (RstStream s status)
  obtain w1 wins1 where rc: "remove_and_close s (w, wins) = (w1, wins1)" by force
  obtain w2 reply where tr: "take_reply s (Err (StreamReset s status)) w1 = (w2, reply)" by force
  have "w' = w2" using d RstStream rc tr by (auto simp: dispatch_frame_in_worker_def dispatch_rst_stream_def)
  then have "has_channel ch sid w'"
    using h k RstStream remove_and_close_props(1) [OF rc] take_reply_props(1) [OF tr]
    by (auto simp: has_channel_def keeps_open_def stream_of_def)
  then show ?thesis using dispatch_deliveries [OF d own] RstStream by (auto simp: payloads_def ends_stream_def)
qed (use d h in \<open>auto simp: dispatch_frame_in_worker_def payloads_def ends_stream_def split: option.splits\<close>)

lemma registration_keeps:
  assumes "apply_registration reg w wins = (w', wins', new)" "keeps_open sid (InReg reg)" "has_channel ch sid w"
  shows "has_channel ch sid w'"
proof (cases reg)
  case (RegClose s)
  obtain w1 wins1 where rc: "remove_and_close s (w, wins) = (w1, wins1)" by force
  then have "stream_of w' = stream_of w1" using assms(1) RegClose by (auto simp: apply_registration_def stream_of_def)
  then show ?thesis using assms(2,3) RegClose remove_and_close_props(1) [OF rc] by (auto simp: has_channel_def keeps_open_def)
next
  case (RegGoAway lg status)
  then have "fold (goaway_stream lg status) (bad_ids lg w) (w, wins, []) = (w', wins', new)"
    using assms(1) by (simp add: apply_registration_def)
  from goaway_fold_props [OF this] show ?thesis
    using assms(2,3) RegGoAway by (auto simp: has_channel_def keeps_open_def in_bad_ids not_less)
qed (use assms in \<open>auto simp: apply_registration_def has_channel_def keeps_open_def stream_of_def\<close>)

lemma step_exact:
  assumes "worker_step iws inp (w, wins, effs) = (w', wins', effs')" "keeps_open sid inp" "has_channel ch sid w"
    and "only_owner ch sid w"
  shows "\<exists>new. effs' = effs @ new \<and> deliveries ch new = payloads sid (input_frames [inp])"
    and "has_channel ch sid w' \<longleftrightarrow> \<not> ends_stream sid inp"
proof -
  have "(\<exists>new. effs' = effs @ new \<and> deliveries ch new = payloads sid (input_frames [inp])) \<and>
    (has_channel ch sid w' \<longleftrightarrow> \<not> ends_stream sid inp)"
    using assms(1)
  proof (cases rule: worker_stepE)
    case (reg r new)
    then show ?thesis
      using registration_deliveries [OF reg(2), of ch] registration_keeps [OF reg(2) _ assms(3)] assms(2)
      by (simp add: ends_stream_def)
  next
    case (frame f sent ok new)
    then show ?thesis using frame_exact [OF frame(2) _ assms(3,4)] assms(2) by simp
  qed
  then show "\<exists>new. effs' = effs @ new \<and> deliveries ch new = payloads sid (input_frames [inp])"
    "has_channel ch sid w' \<longleftrightarrow> \<not> ends_stream sid inp" by simp_all
qed

text \<open>After its FIN the stream is silent.\<close>

lemma step_silent:
  assumes "worker_step iws inp (w, wins, effs) = (w', wins', effs')" "keeps_open sid inp" "\<not> has_channel ch sid w"
    and "only_owner ch sid w" "registers_for ch sid inp"
  shows "\<exists>new. effs' = effs @ new \<and> deliveries ch new = []" and "\<not> has_channel ch sid w'"
proof -
  have "(\<exists>new. effs' = effs @ new \<and> deliveries ch new = []) \<and> \<not> has_channel ch sid w'"
    using assms(1)
  proof (cases rule: worker_stepE)
    case (reg r new)
    then show ?thesis
      using registration_deliveries [OF reg(2), of ch] registration_channels [OF reg(2), of sid _ ch] assms(2,3)
      by (auto simp: has_channel_def keeps_open_def)
  next
    case (frame f sent ok new)
    have "deliveries ch new = []"
      using dispatch_delivers [OF frame(2), of ch] assms(3,4) by (auto simp: has_channel_def only_owner_def)
    then show ?thesis using frame(3) dispatch_channels [OF frame(2), of sid _ ch] assms(3) by (auto simp: has_channel_def)
  qed
  then show "\<exists>new. effs' = effs @ new \<and> deliveries ch new = []" "\<not> has_channel ch sid w'" by simp_all
qed

lemma run_exact:
  assumes "worker_run iws inps (w, wins, effs) = (w', wins', effs')" "only_owner ch sid w"
    and "list_all (registers_for ch sid) inps" "list_all (keeps_open sid) inps"
  shows "\<exists>new. effs' = effs @ new \<and>
    deliveries ch new = (if has_channel ch sid w then payloads_to_fin sid (input_frames inps) else [])"
  using assms
proof (induction inps arbitrary: w wins effs)
  case (Cons inp inps)
  obtain w1 wins1 effs1 where s: "worker_step iws inp (w, wins, effs) = (w1, wins1, effs1)" by (metis prod_cases3)
  have own: "only_owner ch sid w1" using step_deliveries(2) [OF s] Cons.prems by simp
  obtain new2 where n2: "effs' = effs1 @ new2"
    "deliveries ch new2 = (if has_channel ch sid w1 then payloads_to_fin sid (input_frames inps) else [])"
    using Cons.IH [OF _ own] Cons.prems s by (auto simp: worker_run_Cons)
  have k: "keeps_open sid inp" "registers_for ch sid inp" using Cons.prems by simp_all
  show ?case
  proof (cases "has_channel ch sid w")
    case True
    obtain new1 where n1: "effs1 = effs @ new1" "deliveries ch new1 = payloads sid (input_frames [inp])"
      using step_exact(1) [OF s k(1) True Cons.prems(2)] by blast
    have "payloads_to_fin sid (input_frames (inp # inps)) = payloads sid (input_frames [inp]) @
        (if ends_stream sid inp then [] else payloads_to_fin sid (input_frames inps))"
      by (cases inp) (auto simp: ends_stream_def payloads_def split: frame.splits)
    then show ?thesis using n1 n2 True step_exact(2) [OF s k(1) True Cons.prems(2)]
      by (intro exI [of _ "new1 @ new2"]) simp
  next
    case False
    from step_silent [OF s k(1) False Cons.prems(2) k(2)] obtain new1 where
      "effs1 = effs @ new1" "deliveries ch new1 = []" "\<not> has_channel ch sid w1" by blast
    then show ?thesis using n2 False by (intro exI [of _ "new1 @ new2"]) simp
  qed
qed simp

text \<open>What routing and the channels make of a list of frames.\<close>

lemma routed_subseq: "subseq (routed_to k io n fs) fs"
  by (induction fs arbitrary: n) auto

lemma payloads_mono: "subseq xs ys \<Longrightarrow> subseq (payloads sid xs) (payloads sid ys)"
proof (induction rule: list_emb.induct)
  case (list_emb_Cons xs ys y)
  then show ?case using payloads_simps(2) [of sid "[y]" ys] by (simp add: list_emb_append2)
next
  case (list_emb_Cons2 x y xs ys)
  then show ?case
    using payloads_simps(2) [of sid "[y]" xs] payloads_simps(2) [of sid "[y]" ys] by (simp add: list_emb_append_mono)
qed simp

lemma payloads_to_fin_routed:
  "(\<forall>j. snd (io j) (shard sid)) \<Longrightarrow> payloads_to_fin sid (routed_to (shard sid) io n fs) = payloads_to_fin sid fs"
proof (induction fs arbitrary: n)
  case (Cons f fs)
  have "for_worker (shard sid) (f, io n) \<longleftrightarrow> (case stream_keyed f of Some s \<Rightarrow> shard s = shard sid | None \<Rightarrow> False)"
    using Cons.prems by (auto simp: for_worker_def split: prod.splits option.splits) (metis snd_conv)+
  then show ?case using Cons.IH [OF Cons.prems] by (cases f) auto
qed simp

lemma payloads_to_fin_prefix: "prefix xs ys \<Longrightarrow> prefix (payloads_to_fin sid xs) (payloads_to_fin sid ys)"
proof -
  have "prefix (payloads_to_fin sid xs) (payloads_to_fin sid (xs @ zs))" for xs zs
    by (induction sid xs rule: payloads_to_fin.induct) auto
  then show "prefix xs ys \<Longrightarrow> prefix (payloads_to_fin sid xs) (payloads_to_fin sid ys)" by (auto simp: prefix_def)
qed

lemma prefix_concat: "prefix xs ys \<Longrightarrow> prefix (concat xs) (concat ys)"
  by (auto simp: prefix_def)

text \<open>
  C6.  What a user reads is what the peer sent.  Let the peer's bytes, cut into messages in any way, be the frames
  \<open>fs\<close>; let the worker of the stream have taken, at any moment, some of the frames that the reader queued for it,
  among any registrations; and let the user have taken some of the messages on the stream's channel, with
  any sequence of reads.  Then the bytes read and buffered are whole DATA payloads of that stream, in
  the order they were sent, none twice and none of another stream.  If moreover no queue was full and only its FIN
  ended the stream, they are a prefix of all the bytes the peer sent up to the FIN, and all of them once
  the queues have been emptied.
\<close>

theorem stream_bytes_from_peer:
  assumes "decodes_to z (rd_codec st) (concat (p # ps)) fs d" "frame_buf st = []" "list_all keeps_limit fs"
    and "receive_all z cfg io (p # ps) st = Some ((st', effs), NeedMore)"
    and "prefix (input_frames inps) (worker_queue (shard sid) effs)"
    and "worker_run iws inps (w, wins, []) = (w', wins', weffs)"
    and "only_owner ch sid w" "list_all (registers_for ch sid) inps"
    and "read_run ops (read_new, [], []) = Some (r, consumed, received)"
    and "received = concat (take n (deliveries ch weffs))"
  shows "(\<exists>ds. subseq ds (payloads sid fs) \<and> consumed @ buffered r = concat ds) \<and>
    ((\<forall>j. snd (io j) (shard sid)) \<and> list_all (keeps_open sid) inps \<and> has_channel ch sid w \<longrightarrow>
      prefix (consumed @ buffered r) (concat (payloads_to_fin sid fs)) \<and>
      (input_frames inps = worker_queue (shard sid) effs \<and> length (deliveries ch weffs) \<le> n \<longrightarrow>
        consumed @ buffered r = concat (payloads_to_fin sid fs)))"
proof -
  have q: "worker_queue (shard sid) effs = routed_to (shard sid) io (rd_routed st) fs"
    by (rule receive_queue [OF assms(1-4)])
  have rd: "consumed @ buffered r = concat (take n (deliveries ch weffs))"
    using stream_reads_faithful [OF assms(9)] assms(10) by simp
  have "subseq (deliveries ch weffs) (payloads sid (input_frames inps))"
    using run_deliveries [OF assms(6-8)] by auto
  also have "subseq (payloads sid (input_frames inps)) (payloads sid (worker_queue (shard sid) effs))"
    by (rule payloads_mono [OF prefix_imp_subseq [OF assms(5)]])
  also have "subseq (payloads sid (worker_queue (shard sid) effs)) (payloads sid fs)"
    unfolding q by (rule payloads_mono [OF routed_subseq])
  finally have "subseq (take n (deliveries ch weffs)) (payloads sid fs)"
    by (rule subseq_order.trans [OF prefix_imp_subseq [OF take_is_prefix]])
  moreover have "prefix (consumed @ buffered r) (concat (payloads_to_fin sid fs)) \<and>
      (input_frames inps = worker_queue (shard sid) effs \<and> length (deliveries ch weffs) \<le> n \<longrightarrow>
        consumed @ buffered r = concat (payloads_to_fin sid fs))"
    if "\<forall>j. snd (io j) (shard sid)" "list_all (keeps_open sid) inps" "has_channel ch sid w"
  proof -
    have all: "payloads_to_fin sid (worker_queue (shard sid) effs) = payloads_to_fin sid fs"
      unfolding q by (rule payloads_to_fin_routed [OF that(1)])
    have del: "deliveries ch weffs = payloads_to_fin sid (input_frames inps)"
      using run_exact [OF assms(6-8) that(2)] that(3) by auto
    have "prefix (deliveries ch weffs) (payloads_to_fin sid fs)"
      using payloads_to_fin_prefix [OF assms(5), of sid] del all by simp
    then have "prefix (concat (take n (deliveries ch weffs))) (concat (payloads_to_fin sid fs))"
      by (intro prefix_concat) (rule prefix_order.trans [OF take_is_prefix])
    moreover have "take n (deliveries ch weffs) = payloads_to_fin sid fs"
      if "input_frames inps = worker_queue (shard sid) effs" "length (deliveries ch weffs) \<le> n"
      using that del all by simp
    ultimately show ?thesis using rd by metis
  qed
  ultimately show ?thesis using rd by blast
qed

text \<open>A frame for stream 1 arrives, and the user reads two of its three bytes.\<close>

theorem stream_bytes_from_peer_witness:
  "prefix ([1, 2] @ buffered \<lparr>read_buf = Some [3], read_eof = False\<rparr>) (concat (payloads_to_fin 1 [Data 1 [1, 2, 3] False]))"
proof -
  let ?f = "encode_data 1 [1, 2, 3] False" and ?st = "example_state" and ?io = "\<lambda>_. (True, \<lambda>_. True)"
  let ?w = "fst (apply_registration (RegOpen 1 7 0 0) worker_new (\<lambda>_. sw_new 4))"
  let ?inps = "[InFrame (Data 1 [1, 2, 3] False) SendOk True]"
  have dec: "decodes_to stored (rd_codec ?st) (concat [?f]) [Data 1 [1, 2, 3] False] (rd_codec ?st)"
    using decodes_one [OF decode_encode_data [of "[1, 2, 3]" "rd_codec ?st" stored 1 False "[]"]]
    by (simp add: example_state_def reader_start_def with_max_frame_size_def example_config_def)
  have st: "frame_buf ?st = []" "list_all keeps_limit [Data 1 [1, 2, 3] False]"
    by (simp_all add: example_state_def reader_start_def keeps_limit_def)
  let ?st1 = "?st\<lparr>frame_buf := ?f\<rparr>"
  obtain st' effs where e: "run_loop (drain_round stored example_config ?io) (?st1, []) = Some (Some ((st', [] @ effs), NeedMore))"
    "worker_queue (shard 1) effs = routed_to (shard 1) ?io (rd_routed ?st1) [Data 1 [1, 2, 3] False]"
    using drain_queue [of stored ?st1 "[Data 1 [1, 2, 3] False]" "rd_codec ?st" example_config ?io "[]" "shard 1"] dec st by auto
  then have rec: "receive_all stored example_config ?io [?f] ?st = Some ((st', effs), NeedMore)"
    "prefix (input_frames ?inps) (worker_queue (shard 1) effs)"
    using st(1) by (simp_all add: receive_binary_def drain_buffer_def with_log_exit_def with_log_def for_worker_def)
  obtain w' wins' where run: "worker_run 4 ?inps (?w, \<lambda>_. sw_new 4, []) = (w', wins', [Deliver 1 7 [1, 2, 3], ToWindow (EncodeWindowUpdate 1 3)])"
    by (simp add: worker_run_def worker_step_def dispatch_frame_in_worker_def dispatch_data_def dispatch_payload_def
        apply_registration_def worker_new_def stream_credit_def update_effect_def)
  have own: "only_owner 7 1 ?w" "has_channel 7 1 ?w"
    by (auto simp: only_owner_def has_channel_def stream_of_def apply_registration_def worker_new_def split: if_splits)
  have rd: "read_run [OpRead 2 (RecvData [1, 2, 3])] (read_new, [], [])
      = Some (\<lparr>read_buf = Some [3], read_eof = False\<rparr>, [1, 2], [1, 2, 3])"
    by (simp add: read_step_def poll_read_channel_def read_new_def)
  from stream_bytes_from_peer [OF dec st rec run own(1) _ rd, of 1] show ?thesis
    using own(2) by (simp add: registers_for_def keeps_open_def)
qed

end
