(* ===== verification/Raw_Frames.thy ===== *)
theory Raw_Frames
  imports Framing Stream_Model
begin

text \<open>
  A stream does not use the codec for its DATA frames: \<open>poll_write_via_sender\<close> (\<^verbatim>\<open>crates/spdy-mux/src/stream.rs\<close>) puts the
  header together itself.  What it builds is what \<open>encode_data\<close> (\<^verbatim>\<open>codec.rs\<close>) would have built.
\<close>

lemma raw_data_frame_encode:
  assumes "length payload < 2 ^ 24"
  shows "raw_data_frame sid payload = encode_data sid payload False"
proof -
  have "unat (word_of_nat (length payload) AND 0x00FFFFFF :: u32) = length payload"
    using flags_len_payload [OF assms, of False] by (simp add: flags_len_def fin_flag_def)
  then have "(word_of_nat (length payload) AND 0x00FFFFFF :: u32) = word_of_nat (length payload)"
    using assms by (intro unsigned_word_eqI [where 'a = nat]) (simp add: unsigned_of_nat take_bit_nat_eq_self)
  then show ?thesis by (simp add: raw_data_frame_def encode_data_def flags_len_def fin_flag_def)
qed

lemma raw_data_frame_wf:
  assumes "length payload < 2 ^ 24" "length payload \<le> mfs"
  shows "wf_raw mfs (raw_data_frame sid payload)"
    and "raw_frame (raw_data_frame sid payload) = Data (sid AND 0x7FFFFFFF) payload False"
  using assms
  by (simp_all add: raw_data_frame_encode encode_data_def wf_raw_def raw_frame_def hdr_flags_at hdr_stream_id_at
      fin_flag_def)

end
