(* ===== verification/Session.thy ===== *)
theory Session
  imports Handle_Laws
begin

text \<open>
  A SPDY session: a pool of multiplexed connections (\<^verbatim>\<open>crates/spdy-mux/src/session.rs\<close>), with
  power-of-two-choices routing over a peak-EWMA latency estimate and a round-robin fallback, and
  the supervisor of one connection (\<^verbatim>\<open>mux/supervisor.rs\<close>).

  \<open>AtomicU64\<close> and \<open>AtomicUsize\<close> are 64-bit words.  Time is an argument: \<open>elapsed\<close> is what the RTT sample
  of the call measures.  Names that another component uses carry the prefix \<open>session_\<close>.

  \<open>session_open_stream_pair\<close> and what it calls are the call as it runs when no other thread touches the
  session meanwhile; \<open>Session_Shared\<close> has the call with arbitrary changes between its accesses, of which
  this is an instance.
\<close>

record session =
  pool :: "mux_handle list"
  metrics :: "u64 list"
  next_pick :: u64
  session_cancelled :: bool

section \<open>Load metrics\<close>

definition metrics_new :: u64 where
  "metrics_new = 1000000"

definition rtt_next :: "u64 \<Rightarrow> u64 \<Rightarrow> u64" where
  "rtt_next elapsed_ns prev =
     (if elapsed_ns > prev then elapsed_ns else (prev div 10) * 9 + elapsed_ns div 10)"

text \<open>
  The compare-and-swap loop: \<open>cell k\<close> is the value the \<open>k\<close>-th exchange finds and whether a weak exchange
  fails spuriously there; the loop returns the round and the value it stored.
\<close>

definition record_rtt_round :: "u64 \<Rightarrow> (nat \<Rightarrow> u64 \<times> bool) \<Rightarrow> u64 \<times> nat \<Rightarrow> (nat \<times> u64) + (u64 \<times> nat)" where
  "record_rtt_round elapsed_ns cell s =
     (let (prev, k) = s; (seen, spurious) = cell k in
      if seen = prev \<and> \<not> spurious then Inl (k, rtt_next elapsed_ns prev) else Inr (seen, k + 1))"

definition record_rtt_loop :: "u64 \<Rightarrow> (nat \<Rightarrow> u64 \<times> bool) \<Rightarrow> u64 \<Rightarrow> (nat \<times> u64) option" where
  "record_rtt_loop elapsed_ns cell loaded = run_loop (record_rtt_round elapsed_ns cell) (loaded, 0)"

definition saturating_add_u64 :: "u64 \<Rightarrow> u64 \<Rightarrow> u64" where
  "saturating_add_u64 a b = (if unat a + unat b < 2 ^ 64 then a + b else - 1)"

definition saturating_mul_u64 :: "u64 \<Rightarrow> u64 \<Rightarrow> u64" where
  "saturating_mul_u64 a b = (if unat a * unat b < 2 ^ 64 then a * b else - 1)"

definition rtt_cost :: "u64 \<Rightarrow> u64 \<Rightarrow> u64" where
  "rtt_cost inflight rtt = saturating_mul_u64 rtt (saturating_add_u64 inflight 1)"

definition rtt_sample_ns :: "nat \<Rightarrow> u64" where
  "rtt_sample_ns nanos = (if nanos < 2 ^ 64 then word_of_nat nanos else - 1)"

section \<open>Routing\<close>

definition handle_cost :: "session \<Rightarrow> nat \<Rightarrow> u64" where
  "handle_cost s idx =
     (if h_closed (pool s ! idx) then - 1 else rtt_cost (active_pairs (pool s ! idx)) (metrics s ! idx))"

definition pick_two :: "nat \<Rightarrow> session \<Rightarrow> (nat \<times> nat) \<times> session" where
  "pick_two pool_len s =
     (let seed = next_pick s;
          a = unat (seed mod word_of_nat pool_len);
          b = unat ((seed * 6364136223846793005 + 1) mod word_of_nat pool_len)
      in (if a = b then (a, (a + 1) mod pool_len) else (a, b), s\<lparr>next_pick := next_pick s + 1\<rparr>))"

definition try_open ::
  "nat \<Rightarrow> header list \<Rightarrow> header list \<Rightarrow> nat \<Rightarrow> session \<Rightarrow> session \<times> (spdy_error, (nat \<times> unopened_parts) option) result" where
  "try_open elapsed eh dh idx s =
     (if h_closed (pool s ! idx) then (s, Ok None)
      else let (h', r) = open_stream_pair eh dh (pool s ! idx); s1 = s\<lparr>pool := (pool s)[idx := h']\<rparr> in
      case r of
        Inr parts \<Rightarrow>
          (s1\<lparr>metrics := (metrics s)[idx := rtt_next (rtt_sample_ns elapsed) (metrics s ! idx)]\<rparr>, Ok (Some (idx, parts)))
      | Inl e \<Rightarrow> (case e of CapacityExhausted n l \<Rightarrow> (s1, Ok None) | _ \<Rightarrow> (s1, Err e)))"

text \<open>The loops over indices: the first stream or fatal error ends them.\<close>

primrec try_each ::
  "nat \<Rightarrow> header list \<Rightarrow> header list \<Rightarrow> nat list \<Rightarrow> session \<Rightarrow> session \<times> (spdy_error, (nat \<times> unopened_parts) option) result" where
  "try_each elapsed eh dh [] s = (s, Ok None)"
| "try_each elapsed eh dh (i # is') s =
     (let (s1, r) = try_open elapsed eh dh i s in
      case r of Inr None \<Rightarrow> try_each elapsed eh dh is' s1 | _ \<Rightarrow> (s1, r))"

primrec round_robin ::
  "nat \<Rightarrow> header list \<Rightarrow> header list \<Rightarrow> nat \<Rightarrow> session \<Rightarrow> session \<times> (spdy_error, (nat \<times> unopened_parts) option) result" where
  "round_robin elapsed eh dh 0 s = (s, Ok None)"
| "round_robin elapsed eh dh (Suc n) s =
     (let idx = unat (next_pick s mod word_of_nat (length (pool s)));
          (s1, r) = try_open elapsed eh dh idx (s\<lparr>next_pick := next_pick s + 1\<rparr>) in
      case r of Inr None \<Rightarrow> round_robin elapsed eh dh n s1 | _ \<Rightarrow> (s1, r))"

section \<open>Totals\<close>

definition session_capacity :: "session \<Rightarrow> nat" where
  "session_capacity s = sum_list (map (\<lambda>h. unat (max_concurrent h)) (filter (\<lambda>h. \<not> h_closed h) (pool s)))"

definition session_operating_capacity :: "session \<Rightarrow> nat" where
  "session_operating_capacity s = sum_list (map operating_capacity (filter (\<lambda>h. \<not> h_closed h) (pool s)))"

definition session_in_use :: "session \<Rightarrow> nat" where
  "session_in_use s = sum_list (map (\<lambda>h. unat (active_pairs h)) (pool s))"

definition session_available :: "session \<Rightarrow> nat" where
  "session_available s = session_capacity s - session_in_use s"

definition session_is_full :: "session \<Rightarrow> bool" where
  "session_is_full s \<longleftrightarrow> list_all (\<lambda>h. h_closed h \<or> unat (active_pairs h) \<ge> unat (max_concurrent h)) (pool s)"

definition session_is_drained :: "session \<Rightarrow> bool" where
  "session_is_drained s \<longleftrightarrow> list_all h_closed (pool s)"

text \<open>Cancelling the session cancels the child token of every handle.\<close>

definition session_close :: "session \<Rightarrow> session" where
  "session_close s = s\<lparr>session_cancelled := True, pool := map (\<lambda>h. h\<lparr>h_closed := True\<rparr>) (pool s)\<rparr>"

section \<open>Opening\<close>

definition preferred :: "session \<Rightarrow> nat \<times> nat \<Rightarrow> nat list" where
  "preferred s ab = (let (a, b) = ab in if handle_cost s a \<le> handle_cost s b then [a, b] else [b, a])"

text \<open>Power of two choices, when there are two handles to choose from.\<close>

definition two_choices ::
  "nat \<Rightarrow> header list \<Rightarrow> header list \<Rightarrow> session \<Rightarrow> session \<times> (spdy_error, (nat \<times> unopened_parts) option) result" where
  "two_choices elapsed eh dh s =
     (if length (pool s) \<ge> 2
      then (let (ab, s0) = pick_two (length (pool s)) s in try_each elapsed eh dh (preferred s0 ab) s0)
      else (s, Ok None))"

definition session_open_stream_pair ::
  "nat \<Rightarrow> header list \<Rightarrow> header list \<Rightarrow> session \<Rightarrow> session \<times> (spdy_error, nat \<times> unopened_parts) result" where
  "session_open_stream_pair elapsed eh dh s =
     (let (s1, r1) = two_choices elapsed eh dh s in
      case r1 of
        Inl e \<Rightarrow> (s1, Err e)
      | Inr (Some x) \<Rightarrow> (s1, Ok x)
      | Inr None \<Rightarrow>
          (let (s2, r2) = round_robin elapsed eh dh (length (pool s)) s1 in
           case r2 of
             Inl e \<Rightarrow> (s2, Err e)
           | Inr (Some x) \<Rightarrow> (s2, Ok x)
           | Inr None \<Rightarrow> (s2, Err (CapacityExhausted (session_in_use s2) (word_of_nat (session_capacity s2))))))"

text \<open>\<open>with_config\<close>: the results of the \<open>spawn\<close>s, in order.\<close>

definition session_with_config :: "(spdy_error, mux_handle) result list \<Rightarrow> (spdy_error, session) result" where
  "session_with_config results =
     (let healthy = concat (map (\<lambda>r. case r of Inr h \<Rightarrow> [h] | Inl e \<Rightarrow> []) results);
          errors = concat (map (\<lambda>r. case r of Inr h \<Rightarrow> [] | Inl e \<Rightarrow> [e]) results)
      in if results = [] then Err MuxClosed
         else if healthy = [] then Err (if errors = [] then MuxClosed else last errors)
         else Ok \<lparr>pool = healthy, metrics = replicate (length healthy) metrics_new, next_pick = 0,
                  session_cancelled = False\<rparr>)"

section \<open>The supervisor\<close>

text \<open>
  The seven tasks of a connection; \<open>supervise\<close> waits for the first to end, however it ends, and cancels
  the connection.
\<close>

datatype mux_task = WriterTask | ReaderTask | WorkerTask nat

datatype task_end = TaskReturned | TaskPanicked

definition mux_tasks :: "mux_task list" where
  "mux_tasks = WriterTask # ReaderTask # map WorkerTask [0..<FRAME_WORKERS]"

definition supervise :: "(mux_task \<times> task_end) list \<Rightarrow> mux_handle \<Rightarrow> mux_handle" where
  "supervise ended h = (if ended = [] then h else h\<lparr>h_closed := True\<rparr>)"

end
