(* ===== verification/Session_Laws.thy ===== *)
theory Session_Laws
  imports Session
begin

text \<open>
  What a session promises to a call that nothing interrupts: which handles it may try, that a stream
  takes one slot on one live handle, that an open fails only when every live handle is at its limit;
  and what the latency estimate can be.
\<close>

section \<open>One attempt\<close>

definition has_room :: "mux_handle \<Rightarrow> bool" where
  "has_room h \<longleftrightarrow> \<not> h_closed h \<and> (ucast (active_pairs h) :: u32) < operating_limit h \<and>
     (ucast (active_pairs h) :: u32) < hard_limit h"

definition takes_slot :: "mux_handle \<Rightarrow> mux_handle" where
  "takes_slot h = h\<lparr>active_pairs := active_pairs h + 1\<rparr>"

lemma limits_ignore_active [simp]:
  "operating_limit (h\<lparr>active_pairs := n\<rparr>) = operating_limit h"
  "hard_limit (h\<lparr>active_pairs := n\<rparr>) = hard_limit h"
  by (simp_all add: operating_limit_def hard_limit_def)

text \<open>Every way the reservation on one live handle can end.\<close>

lemma open_stream_pair_cases:
  assumes "\<not> h_closed h" "open_stream_pair eh dh h = (h', r)"
  shows "case r of
      Inr parts \<Rightarrow> \<not> goaway_received h \<and> has_room h \<and> h' = takes_slot h
    | Inl e \<Rightarrow> h' = h \<and> (if goaway_received h then e = MuxClosed
        else \<not> has_room h \<and> (\<exists>n l. e = CapacityExhausted n l))"
  using assms by (auto simp: open_stream_pair_def reserve_pair_def reserve_verdict_def release_pair_def
      has_room_def takes_slot_def Let_def not_less split: if_splits)

lemma try_open_cases:
  assumes "try_open elapsed eh dh idx s = (s', r)" "idx < length (pool s)"
  shows "next_pick s' = next_pick s \<and> session_cancelled s' = session_cancelled s \<and>
    (case r of
      Inr (Some (i, parts)) \<Rightarrow> i = idx \<and> \<not> goaway_received (pool s ! idx) \<and> has_room (pool s ! idx) \<and>
         pool s' = (pool s)[idx := takes_slot (pool s ! idx)]
    | Inr None \<Rightarrow> pool s' = pool s \<and> metrics s' = metrics s \<and> \<not> has_room (pool s ! idx)
    | Inl e \<Rightarrow> pool s' = pool s \<and> e = MuxClosed \<and> \<not> h_closed (pool s ! idx) \<and> goaway_received (pool s ! idx))"
proof (cases "h_closed (pool s ! idx)")
  case True
  then show ?thesis using assms by (auto simp: try_open_def has_room_def)
next
  case False
  obtain h' q where q: "open_stream_pair eh dh (pool s ! idx) = (h', q)" by force
  show ?thesis
    using open_stream_pair_cases [OF False q] assms False q
    by (auto simp: try_open_def Let_def split: sum.splits spdy_error.splits if_splits)
qed

section \<open>A sequence of attempts\<close>

text \<open>
  What a sequence of attempts on the indices \<open>is'\<close> does to a session: the result of the first that is
  not refused for lack of room, or a refusal by all of them.
\<close>

definition attempts :: "nat list \<Rightarrow> session \<Rightarrow> session \<Rightarrow> (spdy_error, (nat \<times> unopened_parts) option) result \<Rightarrow> bool" where
  "attempts is' s s' r \<longleftrightarrow>
     (case r of
       Inr (Some (i, parts)) \<Rightarrow> i \<in> set is' \<and> \<not> goaway_received (pool s ! i) \<and> has_room (pool s ! i) \<and>
         pool s' = (pool s)[i := takes_slot (pool s ! i)]
     | Inr None \<Rightarrow> pool s' = pool s \<and> (\<forall>i\<in>set is'. \<not> has_room (pool s ! i))
     | Inl e \<Rightarrow> pool s' = pool s \<and> e = MuxClosed \<and>
         (\<exists>i\<in>set is'. \<not> h_closed (pool s ! i) \<and> goaway_received (pool s ! i)))"

lemma attempts_Cons:
  assumes "try_open elapsed eh dh i s0 = (s1, r1)" "i < length (pool s)" "pool s0 = pool s"
    and "if r1 = Ok None then attempts is' s1 s' r else s' = s1 \<and> r = r1"
  shows "attempts (i # is') s s' r"
  using try_open_cases [OF assms(1)] assms(2-)
  by (auto simp: attempts_def split: sum.splits option.splits if_splits)

lemma try_each_attempts:
  assumes "try_each elapsed eh dh is' s = (s', r)" "\<forall>i\<in>set is'. i < length (pool s)"
  shows "attempts is' s s' r \<and> next_pick s' = next_pick s"
  using assms
proof (induction is' arbitrary: s)
  case Nil
  then show ?case by (auto simp: attempts_def)
next
  case (Cons i is')
  obtain s1 r1 where t: "try_open elapsed eh dh i s = (s1, r1)" by force
  have c: "next_pick s1 = next_pick s" "r1 = Ok None \<Longrightarrow> pool s1 = pool s"
    using try_open_cases [OF t] Cons.prems by auto
  have "(if r1 = Ok None then attempts is' s1 s' r else s' = s1 \<and> r = r1) \<and> next_pick s' = next_pick s"
    using Cons.IH [of s1] Cons.prems t c by (auto split: sum.splits option.splits)
  then show ?case using attempts_Cons [OF t] Cons.prems by auto
qed

text \<open>The indices that the round-robin loop visits from a counter value on.\<close>

definition rr_index :: "nat \<Rightarrow> u64 \<Rightarrow> nat" where
  "rr_index n seed = unat (seed mod word_of_nat n)"

primrec rr_indices :: "nat \<Rightarrow> nat \<Rightarrow> u64 \<Rightarrow> nat list" where
  "rr_indices n 0 seed = []"
| "rr_indices n (Suc k) seed = rr_index n seed # rr_indices n k (seed + 1)"

lemma rr_index_eq: "n < 2 ^ 64 \<Longrightarrow> rr_index n seed = unat seed mod n"
  by (simp add: rr_index_def unat_mod unat_of_nat take_bit_nat_eq_self)

lemma rr_indices_less: "0 < n \<Longrightarrow> n < 2 ^ 64 \<Longrightarrow> i \<in> set (rr_indices n k seed) \<Longrightarrow> i < n"
  by (induction k arbitrary: seed) (auto simp: rr_index_eq)

lemma unat_next:
  assumes "unat (x :: u64) + n + 1 < 2 ^ 64"
  shows "unat (x + 1) = unat x + 1"
proof -
  have "unat (x + 1) = (unat x + 1) mod 2 ^ 64" by (simp add: unat_word_ariths)
  also have "\<dots> = unat x + 1" using assms by (intro mod_less) linarith
  finally show ?thesis .
qed

lemma rr_indices_eq:
  assumes "n < 2 ^ 64" "unat seed + k < 2 ^ 64"
  shows "rr_indices n k seed = map (\<lambda>j. (unat seed + j) mod n) [0..<k]"
  using assms(2)
proof (induction k arbitrary: seed)
  case (Suc k)
  have u: "unat (seed + 1) = unat seed + 1"
    using unat_next [of seed k] Suc.prems by simp
  then show ?case
    using Suc.IH [of "seed + 1"] Suc.prems assms(1)
    by (simp add: rr_index_eq upt_conv_Cons map_Suc_upt [symmetric] comp_def del: upt_Suc)
qed simp

text \<open>\<open>n\<close> consecutive counter values reach every one of \<open>n\<close> indices.\<close>

lemma consecutive_mod_covers: "i < n \<Longrightarrow> \<exists>j<n. (k + j) mod n = (i::nat)"
proof -
  assume i: "i < n"
  let ?j = "(i + (n - k mod n)) mod n"
  have "(k + ?j) mod n = (k mod n + (i + (n - k mod n))) mod n"
    by (metis mod_add_left_eq mod_add_right_eq)
  also have "k mod n + (i + (n - k mod n)) = i + n" using mod_less_divisor [of n k] i by linarith
  finally have "(k + ?j) mod n = i" using i by simp
  then show ?thesis using i by (intro exI [of _ ?j]) auto
qed

lemma rr_indices_cover:
  assumes "n < 2 ^ 64" "unat seed + n < 2 ^ 64" "i < n"
  shows "i \<in> set (rr_indices n n seed)"
  using consecutive_mod_covers [OF assms(3), of "unat seed"] rr_indices_eq [OF assms(1,2)] by auto

lemma round_robin_attempts:
  assumes "round_robin elapsed eh dh k s = (s', r)" "length (pool s) = n" "0 < n" "n < 2 ^ 64"
  shows "attempts (rr_indices n k (next_pick s)) s s' r"
  using assms(1,2)
proof (induction k arbitrary: s)
  case 0
  then show ?case by (auto simp: attempts_def)
next
  case (Suc k)
  let ?i = "rr_index n (next_pick s)" and ?s0 = "s\<lparr>next_pick := next_pick s + 1\<rparr>"
  obtain s1 r1 where t: "try_open elapsed eh dh ?i ?s0 = (s1, r1)" by force
  have i: "?i < n" using assms by (simp add: rr_index_eq)
  have c: "next_pick s1 = next_pick s + 1" "r1 = Ok None \<Longrightarrow> pool s1 = pool s"
    using try_open_cases [OF t] i Suc.prems by auto
  have "if r1 = Ok None then attempts (rr_indices n k (next_pick s + 1)) s1 s' r else s' = s1 \<and> r = r1"
    using Suc.IH [of s1] Suc.prems t c by (auto simp: rr_index_def Let_def split: sum.splits option.splits)
  then show ?case using attempts_Cons [OF t, of s] i Suc.prems by simp
qed

section \<open>The choice of two\<close>

lemma pick_two_distinct:
  assumes "pick_two n s = ((a, b), s')" "2 \<le> n" "n < 2 ^ 64"
  shows "a < n \<and> b < n \<and> a \<noteq> b \<and> s' = s\<lparr>next_pick := next_pick s + 1\<rparr>"
proof -
  have m: "unat (x mod word_of_nat n) < n" for x :: u64
    using rr_index_eq [of n x] assms by (simp add: rr_index_def)
  have step: "(x + 1) mod n \<noteq> x" if "x < n" for x :: nat
    using that assms by (cases "x + 1 = n") auto
  have "a < n \<and> b < n \<and> a \<noteq> b"
    if "(if x = y then (x, (x + 1) mod n) else (x, y)) = (a, b)" "x < n" "y < n" for x y
    using that step [of x] mod_less_divisor [of n "x + 1"] by (cases "x = y") auto
  from this [OF _ m m] show ?thesis
    using assms(1) unfolding pick_two_def Let_def prod.inject by blast
qed

lemma attempts_cong: "pool s0 = pool s \<Longrightarrow> attempts is' s0 s' r = attempts is' s s' r"
  by (auto simp: attempts_def split: sum.splits option.splits)

lemma two_choices_attempts:
  assumes "two_choices elapsed eh dh s = (s1, r1)" "length (pool s) < 2 ^ 64"
  shows "\<exists>is'. (\<forall>i\<in>set is'. i < length (pool s)) \<and> attempts is' s s1 r1 \<and>
      (next_pick s1 = next_pick s \<or> next_pick s1 = next_pick s + 1)"
proof (cases "length (pool s) \<ge> 2")
  case True
  obtain a b s0 where p: "pick_two (length (pool s)) s = ((a, b), s0)" by (metis surj_pair)
  note d = pick_two_distinct [OF p True assms(2)]
  have r: "\<forall>i\<in>set (preferred s0 (a, b)). i < length (pool s0)" using d by (auto simp: preferred_def)
  have "try_each elapsed eh dh (preferred s0 (a, b)) s0 = (s1, r1)"
    using assms(1) True p by (simp add: two_choices_def)
  note e = try_each_attempts [OF this r]
  have "pool s0 = pool s" "next_pick s0 = next_pick s + 1" using d by simp_all
  then show ?thesis
    using e r attempts_cong [of s0 s] by (intro exI [of _ "preferred s0 (a, b)"]) simp
next
  case False
  then have "attempts [] s s1 r1 \<and> next_pick s1 = next_pick s"
    using assms by (auto simp: two_choices_def attempts_def)
  then show ?thesis by (intro exI [of _ "[]"]) auto
qed

section \<open>An open, as a whole\<close>

lemma open_cover:
  assumes "attempts (rr_indices n n seed) s s' (Ok None)" "length (pool s) = n" "unat seed + n < 2 ^ 64"
  shows "\<forall>h\<in>set (pool s). \<not> has_room h"
  using assms rr_indices_cover [of n seed] by (auto simp: attempts_def in_set_conv_nth)

lemma attempts_success:
  assumes "attempts is' s s' r" "r \<noteq> Ok None" "\<forall>i\<in>set is'. i < length (pool s)"
  shows "case r of
      Inr (Some (i, parts)) \<Rightarrow> i < length (pool s) \<and> \<not> goaway_received (pool s ! i) \<and> has_room (pool s ! i) \<and>
        pool s' = (pool s)[i := takes_slot (pool s ! i)]
    | Inr None \<Rightarrow> False
    | Inl e \<Rightarrow> pool s' = pool s \<and> e = MuxClosed \<and> (\<exists>h\<in>set (pool s). \<not> h_closed h \<and> goaway_received h)"
  using assms by (auto simp: attempts_def split: sum.splits option.splits)

lemma session_open_cases:
  assumes "session_open_stream_pair elapsed eh dh s = (s', r)" "length (pool s) = n" "0 < n" "n < 2 ^ 64"
  shows "case r of
      Inr (i, parts) \<Rightarrow> i < n \<and> \<not> goaway_received (pool s ! i) \<and> has_room (pool s ! i) \<and>
        pool s' = (pool s)[i := takes_slot (pool s ! i)]
    | Inl e \<Rightarrow> pool s' = pool s \<and>
        (e = MuxClosed \<and> (\<exists>h\<in>set (pool s). \<not> h_closed h \<and> goaway_received h) \<or>
         e = CapacityExhausted (session_in_use s) (word_of_nat (session_capacity s)) \<and>
         (unat (next_pick s) + n + 1 < 2 ^ 64 \<longrightarrow> (\<forall>h\<in>set (pool s). \<not> has_room h)))"
proof -
  obtain s1 r1 where f: "two_choices elapsed eh dh s = (s1, r1)" by force
  obtain is' where one: "\<forall>i\<in>set is'. i < n" "attempts is' s s1 r1"
      "next_pick s1 = next_pick s \<or> next_pick s1 = next_pick s + 1"
    using two_choices_attempts [OF f] assms by auto
  obtain s2 r2 where rr: "round_robin elapsed eh dh n s1 = (s2, r2)" by force
  have s1: "pool s1 = pool s" if "r1 = Ok None" using one(2) that by (auto simp: attempts_def)
  have two: "attempts (rr_indices n n (next_pick s1)) s s2 r2" if "r1 = Ok None"
    using round_robin_attempts [OF rr] s1 [OF that] assms attempts_cong [OF s1 [OF that]] by simp
  have seed: "unat (next_pick s1) + n < 2 ^ 64" if "unat (next_pick s) + n + 1 < 2 ^ 64"
    using one(3) unat_next [of "next_pick s" n] that by (elim disjE) simp_all
  note less = rr_indices_less [OF assms(3,4), of _ n "next_pick s1"]
  consider (early) "r1 \<noteq> Ok None" | (late) "r1 = Ok None" "r2 \<noteq> Ok None" | (none) "r1 = Ok None" "r2 = Ok None"
    by blast
  then show ?thesis
  proof cases
    case early
    then show ?thesis
      using attempts_success [OF one(2) early] one(1) assms(1,2) f
      by (auto simp: session_open_stream_pair_def split: sum.splits option.splits)
  next
    case late
    then show ?thesis
      using attempts_success [OF two [OF late(1)] late(2)] less assms(1,2) f rr
      by (auto simp: session_open_stream_pair_def split: sum.splits option.splits)
  next
    case none
    then have "pool s2 = pool s" using two by (auto simp: attempts_def)
    then show ?thesis
      using none assms(1,2) f rr two [OF none(1)] seed open_cover [OF _ assms(2), of "next_pick s1" s2]
      by (auto simp: session_open_stream_pair_def session_in_use_def session_capacity_def)
  qed
qed

section \<open>The latency estimate\<close>

lemma unat_mult_small: "unat (a :: u64) * unat b < 2 ^ 64 \<Longrightarrow> unat (a * b) = unat a * unat b"
  by (simp add: unat_word_ariths)

lemma unat_add_small: "unat (a :: u64) + unat b < 2 ^ 64 \<Longrightarrow> unat (a + b) = unat a + unat b"
  by (simp add: unat_word_ariths)

lemma unat_rtt_next:
  "unat (rtt_next e p) = (if e > p then unat e else (unat p div 10) * 9 + unat e div 10)"
proof (cases "e > p")
  case False
  let ?q = "unat p div 10"
  have pe: "unat e \<le> unat p" "unat p < 2 ^ 64" using False unsigned_less [of p, where 'a = nat] by (simp_all add: word_le_nat_alt not_less)
  have q: "unat (p div 10) = ?q" "unat (e div 10) = unat e div 10" by (simp_all add: unat_div)
  have m: "unat (p div 10 * 9) = ?q * 9"
    using unat_mult_small [of "p div 10" 9] pe q by simp
  have "?q * 9 + unat e div 10 \<le> unat p" using pe(1) by linarith
  then have "unat (p div 10 * 9 + e div 10) = ?q * 9 + unat e div 10"
    using unat_add_small [of "p div 10 * 9" "e div 10"] pe m q by simp
  then show ?thesis using False by (simp add: rtt_next_def)
qed (simp add: rtt_next_def)

lemma record_rtt_loop_linearises:
  assumes "record_rtt_loop e cell loaded = Some (k, v)"
  shows "\<exists>prev. cell k = (prev, False) \<and> v = rtt_next e prev"
proof -
  have "case (k, v) of (k, v) \<Rightarrow> \<exists>prev. cell k = (prev, False) \<and> v = rtt_next e prev"
    using assms unfolding record_rtt_loop_def
    by (rule run_loop_rule [where I = "\<lambda>_. True"])
      (auto simp: record_rtt_round_def Let_def split: prod.splits if_splits)
  then show ?thesis by simp
qed

lemma record_rtt_loop_returns:
  assumes "cell k = (x, sp)" "cell (k + 1) = (x, False)"
  shows "\<exists>r. record_rtt_loop e cell loaded = Some r"
  unfolding record_rtt_loop_def
proof (rule run_loop_returns [where I = "\<lambda>(prev, j). j \<le> k \<or> (j = k + 1 \<and> prev = x)"
      and R = "measure (\<lambda>(prev, j). k + 2 - j)"])
  fix s s' :: "u64 \<times> nat"
  assume i: "case s of (prev, j) \<Rightarrow> j \<le> k \<or> (j = k + 1 \<and> prev = x)" and r: "record_rtt_round e cell s = Inr s'"
  obtain prev j where s: "s = (prev, j)" by force
  have s': "s' = (fst (cell j), j + 1)" "\<not> (fst (cell j) = prev \<and> \<not> snd (cell j))"
    using r s by (auto simp: record_rtt_round_def Let_def split: prod.splits if_splits)
  then have "j \<le> k" using i s assms by auto
  then show "case s' of (prev, j) \<Rightarrow> j \<le> k \<or> (j = k + 1 \<and> prev = x)" "(s', s) \<in> measure (\<lambda>(prev, j). k + 2 - j)"
    using s s' assms by (auto simp: le_less)
qed auto

section \<open>Properties\<close>

text \<open>A pool of two connections, the first of them closed.\<close>

definition example_handle :: mux_handle where
  "example_handle = spawn_handle mux_config_default (\<lambda>_. sw_new 0)"

definition example_session :: session where
  "example_session = \<lparr>pool = [example_handle\<lparr>h_closed := True\<rparr>, example_handle], metrics = [metrics_new, metrics_new],
     next_pick = 0, session_cancelled = False\<rparr>"

lemma example_session_pool [simp]:
  "pool example_session = [example_handle\<lparr>h_closed := True\<rparr>, example_handle]" "next_pick example_session = 0"
  by (simp_all add: example_session_def)

lemma example_handle_simps [simp]:
  "h_closed example_handle = False" "goaway_received example_handle = False" "active_pairs example_handle = 0"
  "has_room example_handle"
  by (simp_all add: example_handle_def spawn_handle_def has_room_def operating_limit_def hard_limit_def
      mux_config_default_def)

text \<open>
  C27.  The latency estimate.  What the compare-and-swap loop stores is computed from the value it
  replaced, so no concurrent sample is lost; it never exceeds both the sample and that value, and
  is the exact decay, with no overflow; and the loop returns as soon as two exchanges in a row see
  the same value.
\<close>

theorem session_rtt_linearises:
  "(\<forall>k v. record_rtt_loop e cell loaded = Some (k, v) \<longrightarrow>
      (\<exists>prev. cell k = (prev, False) \<and> unat v \<le> max (unat e) (unat prev) \<and>
        unat v = (if unat prev < unat e then unat e else (unat prev div 10) * 9 + unat e div 10))) \<and>
   ((\<exists>k x sp. cell k = (x, sp) \<and> cell (k + 1) = (x, False)) \<longrightarrow> (\<exists>r. record_rtt_loop e cell loaded = Some r))"
proof (intro conjI allI impI)
  fix k v assume "record_rtt_loop e cell loaded = Some (k, v)"
  from record_rtt_loop_linearises [OF this] obtain prev where p: "cell k = (prev, False)" "v = rtt_next e prev" by auto
  have "unat prev div 10 * 9 + unat e div 10 \<le> unat prev" if "unat e \<le> unat prev" using that by linarith
  then show "\<exists>prev. cell k = (prev, False) \<and> unat v \<le> max (unat e) (unat prev) \<and>
        unat v = (if unat prev < unat e then unat e else (unat prev div 10) * 9 + unat e div 10)"
    using p unat_rtt_next [of e prev] by (intro exI [of _ prev]) (auto simp: word_less_nat_alt)
next
  assume "\<exists>k x sp. cell k = (x, sp) \<and> cell (k + 1) = (x, False)"
  then show "\<exists>r. record_rtt_loop e cell loaded = Some r" using record_rtt_loop_returns by blast
qed

theorem session_rtt_linearises_witness:
  "\<exists>r. record_rtt_loop 5 (\<lambda>k. (100, k = 0)) 100 = Some r"
  using session_rtt_linearises [of 5 "\<lambda>k. (100, k = 0)" 100] by fastforce


section \<open>A handle that was told to go away\<close>

text \<open>
  A live handle with room elsewhere is not always found: one that has received a GOAWAY
  answers \<open>MuxClosed\<close>, which \<open>try_open\<close> takes for fatal, and the open fails although the other handle
  has room.
\<close>

definition goaway_session :: session where
  "goaway_session = example_session\<lparr>pool := [example_handle\<lparr>goaway_received := True\<rparr>, example_handle]\<rparr>"

lemma session_goaway_aborts:
  "has_room (pool goaway_session ! 1) \<and> \<not> goaway_received (pool goaway_session ! 1) \<and>
   snd (session_open_stream_pair elapsed eh dh goaway_session) = Err MuxClosed"
  by (simp add: session_open_stream_pair_def two_choices_def pick_two_def preferred_def goaway_session_def
      example_session_def handle_cost_def try_open_def open_stream_pair_def)

end
