(* ===== verification/Session_Checked.thy ===== *)
theory Session_Checked
  imports Session_Laws "HOL-Library.Monad_Syntax"
begin

text \<open>
  The panics of \<^verbatim>\<open>crates/spdy-mux/src/session.rs\<close>.  Opening a stream indexes the slices \<open>pool\<close> and \<open>metrics\<close>
  and takes remainders by the size of the pool; out of range, or by zero, Rust panics.  The definitions here are
  those of \<open>Session\<close> with every such access checked, \<open>None\<close> being a panic.  The type of a session does not say
  that the two slices belong together: that is the well-formedness that the constructor
  establishes, that every operation keeps, and under which no operation panics.
\<close>

definition index_checked :: "'a list \<Rightarrow> nat \<Rightarrow> 'a option" where
  "index_checked xs i = (if i < length xs then Some (xs ! i) else None)"

definition rem_checked :: "u64 \<Rightarrow> nat \<Rightarrow> nat option" where
  "rem_checked x n = (if (word_of_nat n :: u64) = 0 then None else Some (unat (x mod word_of_nat n)))"

definition handle_cost_checked :: "session \<Rightarrow> nat \<Rightarrow> u64 option" where
  "handle_cost_checked s idx = do {
     mux \<leftarrow> index_checked (pool s) idx;
     if h_closed mux then Some (- 1)
     else do {
       rtt \<leftarrow> index_checked (metrics s) idx;
       Some (rtt_cost (active_pairs mux) rtt)
     }
   }"

definition pick_two_checked :: "nat \<Rightarrow> session \<Rightarrow> ((nat \<times> nat) \<times> session) option" where
  "pick_two_checked pool_len s = do {
     a \<leftarrow> rem_checked (next_pick s) pool_len;
     b \<leftarrow> rem_checked (next_pick s * 6364136223846793005 + 1) pool_len;
     Some (if a = b then (a, (a + 1) mod pool_len) else (a, b), s\<lparr>next_pick := next_pick s + 1\<rparr>)
   }"

text \<open>The log line after a successful open asks for the cost of the handle once more.\<close>

definition try_open_checked ::
  "nat \<Rightarrow> header list \<Rightarrow> header list \<Rightarrow> nat \<Rightarrow> session
    \<Rightarrow> (session \<times> (spdy_error, (nat \<times> unopened_parts) option) result) option" where
  "try_open_checked elapsed eh dh idx s = do {
     mux \<leftarrow> index_checked (pool s) idx;
     if h_closed mux then Some (s, Ok None)
     else do {
       rtt \<leftarrow> index_checked (metrics s) idx;
       let (h', r) = open_stream_pair eh dh mux;
       let s1 = s\<lparr>pool := (pool s)[idx := h']\<rparr>;
       case r of
         Inr parts \<Rightarrow> do {
           let s2 = s1\<lparr>metrics := (metrics s)[idx := rtt_next (rtt_sample_ns elapsed) rtt]\<rparr>;
           cost \<leftarrow> handle_cost_checked s2 idx;
           Some (s2, Ok (Some (idx, parts)))
         }
       | Inl e \<Rightarrow> Some (case e of CapacityExhausted n l \<Rightarrow> (s1, Ok None) | _ \<Rightarrow> (s1, Err e))
     }
   }"

primrec try_each_checked ::
  "nat \<Rightarrow> header list \<Rightarrow> header list \<Rightarrow> nat list \<Rightarrow> session
    \<Rightarrow> (session \<times> (spdy_error, (nat \<times> unopened_parts) option) result) option" where
  "try_each_checked elapsed eh dh [] s = Some (s, Ok None)"
| "try_each_checked elapsed eh dh (i # is') s = do {
     (s1, r) \<leftarrow> try_open_checked elapsed eh dh i s;
     case r of Inr None \<Rightarrow> try_each_checked elapsed eh dh is' s1 | _ \<Rightarrow> Some (s1, r)
   }"

primrec round_robin_checked ::
  "nat \<Rightarrow> header list \<Rightarrow> header list \<Rightarrow> nat \<Rightarrow> session
    \<Rightarrow> (session \<times> (spdy_error, (nat \<times> unopened_parts) option) result) option" where
  "round_robin_checked elapsed eh dh 0 s = Some (s, Ok None)"
| "round_robin_checked elapsed eh dh (Suc n) s = do {
     idx \<leftarrow> rem_checked (next_pick s) (length (pool s));
     (s1, r) \<leftarrow> try_open_checked elapsed eh dh idx (s\<lparr>next_pick := next_pick s + 1\<rparr>);
     case r of Inr None \<Rightarrow> round_robin_checked elapsed eh dh n s1 | _ \<Rightarrow> Some (s1, r)
   }"

definition two_choices_checked ::
  "nat \<Rightarrow> header list \<Rightarrow> header list \<Rightarrow> session
    \<Rightarrow> (session \<times> (spdy_error, (nat \<times> unopened_parts) option) result) option" where
  "two_choices_checked elapsed eh dh s =
     (if length (pool s) \<ge> 2
      then do {
        ((a, b), s0) \<leftarrow> pick_two_checked (length (pool s)) s;
        ca \<leftarrow> handle_cost_checked s0 a;
        cb \<leftarrow> handle_cost_checked s0 b;
        try_each_checked elapsed eh dh (if ca \<le> cb then [a, b] else [b, a]) s0
      }
      else Some (s, Ok None))"

definition session_open_checked ::
  "nat \<Rightarrow> header list \<Rightarrow> header list \<Rightarrow> session \<Rightarrow> (session \<times> (spdy_error, nat \<times> unopened_parts) result) option" where
  "session_open_checked elapsed eh dh s = do {
     (s1, r1) \<leftarrow> two_choices_checked elapsed eh dh s;
     case r1 of
       Inl e \<Rightarrow> Some (s1, Err e)
     | Inr (Some x) \<Rightarrow> Some (s1, Ok x)
     | Inr None \<Rightarrow> do {
         (s2, r2) \<leftarrow> round_robin_checked elapsed eh dh (length (pool s)) s1;
         Some (case r2 of
             Inl e \<Rightarrow> (s2, Err e)
           | Inr (Some x) \<Rightarrow> (s2, Ok x)
           | Inr None \<Rightarrow> (s2, Err (CapacityExhausted (session_in_use s2) (word_of_nat (session_capacity s2)))))
       }
   }"

section \<open>Well-formed sessions\<close>

definition wf_session :: "session \<Rightarrow> bool" where
  "wf_session s \<longleftrightarrow> pool s \<noteq> [] \<and> length (pool s) < 2 ^ 64 \<and> length (metrics s) = length (pool s)"

lemma wf_session_next [simp]: "wf_session (s\<lparr>next_pick := n\<rparr>) = wf_session s"
  by (simp add: wf_session_def)

lemma wf_sessionD: "wf_session s \<Longrightarrow> 0 < length (pool s) \<and> length (pool s) < 2 ^ 64 \<and> length (metrics s) = length (pool s)"
  by (simp add: wf_session_def)

lemma index_checked_Some [simp]: "i < length xs \<Longrightarrow> index_checked xs i = Some (xs ! i)"
  by (simp add: index_checked_def)

lemma rem_checked_Some: "0 < n \<Longrightarrow> n < 2 ^ 64 \<Longrightarrow> rem_checked x n = Some (rr_index n x)"
  by (auto simp: rem_checked_def rr_index_def word_of_nat_eq_0_iff dest: nat_dvd_not_less)

lemma handle_cost_checked_ok:
  "wf_session s \<Longrightarrow> i < length (pool s) \<Longrightarrow> handle_cost_checked s i = Some (handle_cost s i)"
  by (simp add: handle_cost_checked_def handle_cost_def wf_session_def)

lemma try_open_wf:
  assumes "wf_session s" "try_open elapsed eh dh i s = (s', r)"
  shows "wf_session s' \<and> length (pool s') = length (pool s)"
  using assms by (auto simp: wf_session_def try_open_def Let_def split: if_splits prod.splits sum.splits spdy_error.splits)

lemma try_open_checked_ok:
  assumes "wf_session s" "i < length (pool s)"
  shows "try_open_checked elapsed eh dh i s = Some (try_open elapsed eh dh i s)"
proof -
  obtain h' r where o: "open_stream_pair eh dh (pool s ! i) = (h', r)" by force
  have "wf_session (s\<lparr>pool := (pool s)[i := h'], metrics := (metrics s)[i := m]\<rparr>)" for m
    using assms by (simp add: wf_session_def)
  from handle_cost_checked_ok [OF this] show ?thesis
    using assms o wf_sessionD [OF assms(1)]
    by (auto simp: try_open_checked_def try_open_def Let_def split: sum.splits spdy_error.splits)
qed

lemma try_each_checked_ok:
  assumes "wf_session s" "\<forall>i\<in>set is'. i < length (pool s)" "try_each elapsed eh dh is' s = (s', r)"
  shows "try_each_checked elapsed eh dh is' s = Some (s', r) \<and> wf_session s' \<and> length (pool s') = length (pool s)"
  using assms
proof (induction is' arbitrary: s)
  case (Cons i is')
  obtain s1 r1 where t: "try_open elapsed eh dh i s = (s1, r1)" by force
  note w = try_open_wf [OF Cons.prems(1) t]
  have c: "try_open_checked elapsed eh dh i s = Some (s1, r1)"
    using try_open_checked_ok [of s i] Cons.prems t by simp
  show ?case
    using Cons.IH [of s1] Cons.prems w t c by (cases "r1 = Ok None") (auto split: sum.splits option.splits)
qed simp

lemma round_robin_checked_ok:
  assumes "wf_session s" "round_robin elapsed eh dh k s = (s', r)"
  shows "round_robin_checked elapsed eh dh k s = Some (s', r) \<and> wf_session s' \<and> length (pool s') = length (pool s)"
  using assms
proof (induction k arbitrary: s)
  case (Suc k)
  let ?n = "length (pool s)" and ?s0 = "s\<lparr>next_pick := next_pick s + 1\<rparr>"
  let ?i = "rr_index ?n (next_pick s)"
  have n: "0 < ?n" "?n < 2 ^ 64" using wf_sessionD [OF Suc.prems(1)] by auto
  have i: "?i < ?n" using n rr_index_eq [of ?n "next_pick s"] by simp
  obtain s1 r1 where t: "try_open elapsed eh dh ?i ?s0 = (s1, r1)" by force
  have w: "wf_session s1" "length (pool s1) = ?n" using try_open_wf [OF _ t] Suc.prems by simp_all
  have c: "try_open_checked elapsed eh dh ?i ?s0 = Some (s1, r1)"
    using try_open_checked_ok [of ?s0 ?i] Suc.prems i t by simp
  show ?case
    using Suc.IH [of s1] Suc.prems w t c rem_checked_Some [OF n, of "next_pick s"]
    by (cases "r1 = Ok None") (auto simp: rr_index_def Let_def split: sum.splits option.splits)
qed simp

lemma pick_two_checked_ok: "0 < n \<Longrightarrow> n < 2 ^ 64 \<Longrightarrow> pick_two_checked n s = Some (pick_two n s)"
  by (simp add: pick_two_checked_def pick_two_def rem_checked_Some rr_index_def Let_def)

lemma two_choices_checked_ok:
  assumes "wf_session s" "two_choices elapsed eh dh s = (s', r)"
  shows "two_choices_checked elapsed eh dh s = Some (s', r) \<and> wf_session s' \<and> length (pool s') = length (pool s)"
proof (cases "length (pool s) \<ge> 2")
  case True
  have n: "length (pool s) < 2 ^ 64" using wf_sessionD [OF assms(1)] by simp
  obtain a b s0 where p: "pick_two (length (pool s)) s = ((a, b), s0)" by (metis surj_pair)
  note d = pick_two_distinct [OF p True n]
  have w: "wf_session s0" "length (pool s0) = length (pool s)" using d assms(1) by simp_all
  have c: "handle_cost_checked s0 a = Some (handle_cost s0 a)" "handle_cost_checked s0 b = Some (handle_cost s0 b)"
    using d handle_cost_checked_ok [OF w(1)] w(2) by simp_all
  have t: "try_each elapsed eh dh (preferred s0 (a, b)) s0 = (s', r)"
    using assms(2) True p by (simp add: two_choices_def)
  have "\<forall>i\<in>set (preferred s0 (a, b)). i < length (pool s0)" using d w(2) by (auto simp: preferred_def)
  note e = try_each_checked_ok [OF w(1) this t]
  have "pick_two_checked (length (pool s)) s = Some ((a, b), s0)"
    using pick_two_checked_ok [OF conjunct1 [OF wf_sessionD [OF assms(1)]] n, of s] p by simp
  then have "two_choices_checked elapsed eh dh s = try_each_checked elapsed eh dh (preferred s0 (a, b)) s0"
    using c True by (simp add: two_choices_checked_def preferred_def)
  then show ?thesis using e w(2) by simp
qed (use assms in \<open>auto simp: two_choices_checked_def two_choices_def\<close>)

lemma session_open_checked_ok:
  assumes "wf_session s"
  shows "session_open_checked elapsed eh dh s = Some (session_open_stream_pair elapsed eh dh s) \<and>
    wf_session (fst (session_open_stream_pair elapsed eh dh s))"
proof -
  obtain s1 r1 where f: "two_choices elapsed eh dh s = (s1, r1)" by force
  note one = two_choices_checked_ok [OF assms f]
  obtain s2 r2 where rr: "round_robin elapsed eh dh (length (pool s)) s1 = (s2, r2)" by force
  have "wf_session s1" using one by simp
  note two = round_robin_checked_ok [OF this rr]
  show ?thesis using f one rr two
    by (auto simp: session_open_checked_def session_open_stream_pair_def split: sum.splits option.splits)
qed

lemma with_config_wf:
  "session_with_config results = Ok s \<Longrightarrow> length results < 2 ^ 64 \<Longrightarrow> wf_session s"
proof -
  assume ok: "session_with_config results = Ok s" and n: "length results < 2 ^ 64"
  let ?healthy = "concat (map (\<lambda>r. case r of Inr h \<Rightarrow> [h] | Inl e \<Rightarrow> []) results)"
  have "length ?healthy \<le> length results" by (induction results) (auto split: sum.splits)
  then have "length ?healthy < 2 ^ 64" using n by linarith
  then show "wf_session s" using ok by (auto simp: session_with_config_def wf_session_def Let_def split: if_splits)
qed

text \<open>The sessions that a program can hold: constructed, then changed by opens, by what the tasks do to its handles, and by closing.\<close>

inductive session_reach :: "session \<Rightarrow> bool" where
  construct: "session_with_config results = Ok s \<Longrightarrow> length results < 2 ^ 64 \<Longrightarrow> session_reach s"
| opened: "session_reach s \<Longrightarrow> session_reach (fst (session_open_stream_pair elapsed eh dh s))"
| tasks: "session_reach s \<Longrightarrow> i < length (pool s) \<Longrightarrow> session_reach (s\<lparr>pool := (pool s)[i := h]\<rparr>)"
| sampled: "session_reach s \<Longrightarrow> session_reach (s\<lparr>metrics := (metrics s)[i := m], next_pick := n\<rparr>)"
| closed: "session_reach s \<Longrightarrow> session_reach (session_close s)"

text \<open>
  C3.  A session is well-formed and never panics.  Every session that the program can hold, whatever the tasks of its
  connections and other callers have done to its handles, estimates and counter, has a handle and one latency
  estimate per handle; so opening a stream indexes neither slice out of range and never takes a remainder by
  zero: the checked definitions return, with the result of the unchecked ones, and keep the session well-formed.
\<close>

theorem session_never_panics:
  assumes "session_reach s"
  shows "pool s \<noteq> [] \<and> length (metrics s) = length (pool s) \<and>
    session_open_checked elapsed eh dh s = Some (session_open_stream_pair elapsed eh dh s)"
proof -
  have "wf_session s" using assms
  proof (induction rule: session_reach.induct)
    case (opened s elapsed eh dh)
    then show ?case using session_open_checked_ok by blast
  qed (auto simp: wf_session_def session_close_def dest: with_config_wf [unfolded wf_session_def])
  then show ?thesis using session_open_checked_ok [of s elapsed eh dh] by (simp add: wf_session_def)
qed

theorem session_never_panics_witness:
  "session_open_checked 7 [] [] (session_close \<lparr>pool = [example_handle], metrics = [metrics_new], next_pick = 0,
       session_cancelled = False\<rparr>)
    = Some (session_open_stream_pair 7 [] [] (session_close \<lparr>pool = [example_handle], metrics = [metrics_new],
       next_pick = 0, session_cancelled = False\<rparr>))"
proof -
  have "session_with_config [Err MuxClosed, Ok example_handle]
      = Ok \<lparr>pool = [example_handle], metrics = [metrics_new], next_pick = 0, session_cancelled = False\<rparr>"
    by (simp add: session_with_config_def)
  from session_reach.closed [OF session_reach.construct [OF this]]
  show ?thesis by (intro session_never_panics [THEN conjunct2, THEN conjunct2]) simp
qed

end
