(* ===== verification/Session_Shared.thy ===== *)
theory Session_Shared
  imports Session_Laws
begin

text \<open>
  Opening a stream on a session that other callers use at the same time
  (\<^verbatim>\<open>crates/spdy-mux/src/session.rs\<close>).  The counter \<open>next\<close>, the handles and the latency estimates are shared:
  \<open>env k\<close> is what other threads have done to the session before the \<open>k\<close>-th access of the call, where one
  access is a \<open>fetch_add\<close> on the counter, the evaluation of one cost, or one attempt on a handle (how attempts
  on one handle interleave is treated with the handle).  The call also returns, as a history, the
  handles it found: the index of each attempt and the handle at that moment.  With an environment that does
  nothing it is \<open>session_open_stream_pair\<close>, which the sequential theories use.
\<close>

type_synonym session_env = "nat \<Rightarrow> session \<Rightarrow> session"

type_synonym found_handles = "(nat \<times> mux_handle) list"

type_synonym shared_out = "session \<times> (spdy_error, (nat \<times> unopened_parts) option) result \<times> found_handles"

section \<open>The call\<close>

primrec try_each_shared ::
  "session_env \<Rightarrow> nat \<Rightarrow> header list \<Rightarrow> header list \<Rightarrow> nat list \<Rightarrow> nat \<Rightarrow> session \<Rightarrow> shared_out" where
  "try_each_shared env elapsed eh dh [] k s = (s, Ok None, [])"
| "try_each_shared env elapsed eh dh (i # is') k s =
     (let s0 = env k s; (s1, r) = try_open elapsed eh dh i s0 in
      case r of
        Inr None \<Rightarrow> (let (s2, r2, found) = try_each_shared env elapsed eh dh is' (k + 1) s1
                     in (s2, r2, (i, pool s0 ! i) # found))
      | _ \<Rightarrow> (s1, r, [(i, pool s0 ! i)]))"

primrec round_robin_shared ::
  "session_env \<Rightarrow> nat \<Rightarrow> header list \<Rightarrow> header list \<Rightarrow> nat \<Rightarrow> nat \<Rightarrow> session \<Rightarrow> shared_out" where
  "round_robin_shared env elapsed eh dh 0 k s = (s, Ok None, [])"
| "round_robin_shared env elapsed eh dh (Suc n) k s =
     (let s0 = env k s;
          idx = unat (next_pick s0 mod word_of_nat (length (pool s0)));
          s1 = env (k + 1) (s0\<lparr>next_pick := next_pick s0 + 1\<rparr>);
          (s2, r) = try_open elapsed eh dh idx s1 in
      case r of
        Inr None \<Rightarrow> (let (s3, r3, found) = round_robin_shared env elapsed eh dh n (k + 2) s2
                     in (s3, r3, (idx, pool s1 ! idx) # found))
      | _ \<Rightarrow> (s2, r, [(idx, pool s1 ! idx)]))"

definition two_choices_shared ::
  "session_env \<Rightarrow> nat \<Rightarrow> header list \<Rightarrow> header list \<Rightarrow> session \<Rightarrow> shared_out" where
  "two_choices_shared env elapsed eh dh s =
     (if length (pool s) \<ge> 2
      then (let ((a, b), s0) = pick_two (length (pool s)) (env 0 s);
                s1 = env 1 s0; s2 = env 2 s1;
                preferred = (if handle_cost s1 a \<le> handle_cost s2 b then [a, b] else [b, a])
            in try_each_shared env elapsed eh dh preferred 3 s2)
      else (s, Ok None, []))"

definition session_open_shared ::
  "session_env \<Rightarrow> nat \<Rightarrow> header list \<Rightarrow> header list \<Rightarrow> session
    \<Rightarrow> session \<times> (spdy_error, nat \<times> unopened_parts) result \<times> found_handles" where
  "session_open_shared env elapsed eh dh s =
     (let (s1, r1, found1) = two_choices_shared env elapsed eh dh s in
      case r1 of
        Inl e \<Rightarrow> (s1, Err e, found1)
      | Inr (Some x) \<Rightarrow> (s1, Ok x, found1)
      | Inr None \<Rightarrow>
          (let (s2, r2, found2) = round_robin_shared env elapsed eh dh (length (pool s)) 5 s1 in
           case r2 of
             Inl e \<Rightarrow> (s2, Err e, found1 @ found2)
           | Inr (Some x) \<Rightarrow> (s2, Ok x, found1 @ found2)
           | Inr None \<Rightarrow>
               (let s3 = env (5 + 2 * length (pool s)) s2
                in (s3, Err (CapacityExhausted (session_in_use s3) (word_of_nat (session_capacity s3))), found1 @ found2))))"

section \<open>What other threads do\<close>

text \<open>The slices of a session never change their length; the counter may be left alone.\<close>

definition keeps_pool :: "session_env \<Rightarrow> bool" where
  "keeps_pool env \<longleftrightarrow> (\<forall>k s. length (pool (env k s)) = length (pool s))"

definition private_counter :: "session_env \<Rightarrow> bool" where
  "private_counter env \<longleftrightarrow> (\<forall>k s. next_pick (env k s) = next_pick s)"

lemma keeps_poolD [simp]: "keeps_pool env \<Longrightarrow> length (pool (env k s)) = length (pool s)"
  by (simp add: keeps_pool_def)

lemma private_counterD [simp]: "private_counter env \<Longrightarrow> next_pick (env k s) = next_pick s"
  by (simp add: private_counter_def)

section \<open>Attempts\<close>







section \<open>A call that nobody interrupts\<close>






section \<open>Properties\<close>





section \<open>A call that misses a handle with room\<close>

text \<open>
  Three handles of which the third has room.  The two random choices fall on the first two; then other
  callers advance the counter by two between the rounds of the call, which visits the first
  handle three times and fails with \<open>CapacityExhausted\<close>.
\<close>

definition full_handle :: mux_handle where
  "full_handle = example_handle\<lparr>active_pairs := 1000\<rparr>"

definition busy_session :: session where
  "busy_session = \<lparr>pool = [full_handle, full_handle, example_handle], metrics = replicate 3 metrics_new, next_pick = 0,
     session_cancelled = False\<rparr>"

definition busy_env :: session_env where
  "busy_env k s = (if k \<in> {5, 7, 9} then s\<lparr>next_pick := next_pick s + 2\<rparr> else s)"

lemma full_example:
  "h_closed full_handle = False" "goaway_received full_handle = False" "active_pairs full_handle = 1000"
  "operating_limit full_handle \<le> 1000"
  by (simp_all add: full_handle_def example_handle_def spawn_handle_def operating_limit_def mux_config_default_def)

lemma try_open_busy:
  assumes "pool s = pool busy_session" "i < 2"
  shows "try_open elapsed eh dh i s = (s, Ok None)"
proof -
  have "pool s ! i = full_handle" "(pool s)[i := full_handle] = pool s"
    using assms by (auto simp: busy_session_def less_2_cases_iff)
  moreover have same: "full_handle\<lparr>active_pairs := 1000\<rparr> = full_handle" by (simp add: full_handle_def)
  ultimately show ?thesis
    by (simp add: try_open_def open_stream_pair_def reserve_pair_def reserve_verdict_def release_pair_def full_example same)
qed

lemma pick_two_busy: "pick_two 3 busy_session = ((0, 1), busy_session\<lparr>next_pick := 1\<rparr>)"
  by (simp add: pick_two_def busy_session_def)

lemma busy_pool [simp]: "length (pool busy_session) = 3" "pool (busy_session\<lparr>next_pick := m\<rparr>) = pool busy_session"
  by (simp_all add: busy_session_def)

lemma two_choices_busy:
  "\<exists>found. two_choices_shared busy_env elapsed eh dh busy_session = (busy_session\<lparr>next_pick := 1\<rparr>, Ok None, found) \<and>
     fst ` set found = {0, 1}"
proof -
  have "two_choices_shared busy_env elapsed eh dh busy_session =
      try_each_shared busy_env elapsed eh dh [0, 1] 3 (busy_session\<lparr>next_pick := 1\<rparr>)"
    by (simp add: two_choices_shared_def busy_env_def pick_two_busy)
      (simp add: handle_cost_def busy_session_def)
  then show ?thesis by (simp add: busy_env_def try_open_busy)
qed

lemma round_robin_busy:
  "\<exists>s' found. round_robin_shared busy_env elapsed eh dh 3 5 (busy_session\<lparr>next_pick := 1\<rparr>) = (s', Ok None, found) \<and>
     fst ` set found = {0}"
  by (simp add: numeral_3_eq_3 busy_env_def try_open_busy Let_def)

lemma session_open_can_miss_room:
  "has_room (pool busy_session ! 2) \<and> keeps_pool busy_env \<and>
   (\<exists>s' n l found. session_open_shared busy_env elapsed eh dh busy_session = (s', Err (CapacityExhausted n l), found) \<and>
     2 \<notin> fst ` set found)"
proof -
  have "has_room (pool busy_session ! 2)" "keeps_pool busy_env"
    by (simp_all add: busy_session_def keeps_pool_def busy_env_def)
  moreover obtain found1 where "two_choices_shared busy_env elapsed eh dh busy_session
      = (busy_session\<lparr>next_pick := 1\<rparr>, Ok None, found1)" "fst ` set found1 = {0, 1}"
    using two_choices_busy by blast
  moreover obtain s' found2 where "round_robin_shared busy_env elapsed eh dh 3 5 (busy_session\<lparr>next_pick := 1\<rparr>)
      = (s', Ok None, found2)" "fst ` set found2 = {0}"
    using round_robin_busy by blast
  ultimately show ?thesis by (simp add: session_open_shared_def Let_def image_Un)
qed

end
