(* ===== verification/Transport.thy ===== *)
theory Transport
  imports Reader Writer
begin

text \<open>
  The transports (\<^verbatim>\<open>crates/spdy-mux/src/transport.rs\<close>): the adapters that carry SPDY frames inside
  WebSocket messages (\<open>FastWs\<close>) or bare (\<open>RawSpdy\<close>), as the two implementations of the interfaces
  \<open>WsFrameWriter\<close> and \<open>WsFrameReader\<close>.

  The library \<open>fastwebsockets\<close> and the socket are not part of the repository.  What successive
  \<open>read_frame\<close> or \<open>read_buf\<close> calls return is an argument, a list; a read past its end waits, which is
  \<open>None\<close>.  On the write side the outcome of a call is an argument and the state is what the library or
  the socket has accepted.
\<close>

datatype transport_error = FastWebSocket string | TransportIo string

definition transport_error_display :: "transport_error \<Rightarrow> string" where
  "transport_error_display e =
     (case e of FastWebSocket s \<Rightarrow> ''fastwebsockets: '' @ s | TransportIo s \<Rightarrow> ''transport I/O: '' @ s)"

section \<open>Reading WebSocket messages\<close>

datatype ws_opcode = OpContinuation | OpText | OpBinary | OpClose | OpPing | OpPong

datatype ws_payload =
    PayloadBytes "byte list"
  | PayloadOwned "byte list"
  | PayloadBorrowed "byte list"
  | PayloadBorrowedMut "byte list"

datatype ws_read = WsFrame ws_opcode ws_payload | WsConnectionClosed | WsReadError string

definition payload_to_bytes :: "ws_payload \<Rightarrow> byte list" where
  "payload_to_bytes p =
     (case p of PayloadBytes b \<Rightarrow> b | PayloadOwned b \<Rightarrow> b | PayloadBorrowed b \<Rightarrow> b | PayloadBorrowedMut b \<Rightarrow> b)"

fun fast_read_message :: "ws_read list \<Rightarrow> (ws_read list \<times> (transport_error, ws_message) result option) option" where
  "fast_read_message [] = None"
| "fast_read_message (WsConnectionClosed # rs) = Some (rs, None)"
| "fast_read_message (WsReadError e # rs) = Some (rs, Some (Err (FastWebSocket e)))"
| "fast_read_message (WsFrame opcode payload # rs) =
     (case opcode of
        OpBinary \<Rightarrow> Some (rs, Some (Ok (WsBinary (payload_to_bytes payload))))
      | OpPing \<Rightarrow> Some (rs, Some (Ok (WsPing (payload_to_bytes payload))))
      | OpClose \<Rightarrow> Some (rs, Some (Ok WsClose))
      | OpPong \<Rightarrow> fast_read_message rs
      | OpText \<Rightarrow> fast_read_message rs
      | OpContinuation \<Rightarrow> fast_read_message rs)"

text \<open>
  The construction over an upgraded connection.  The halves of the stream and the objects of the library are
  opaque; what \<open>split_fastws\<close> calls of \<open>tokio\<close> and \<open>fastwebsockets\<close> is a record of operations.
\<close>

datatype ws_role = RoleServer | RoleClient

record ('s, 'rh, 'wh, 'wsr, 'wsw, 'frag) fastws_library =
  io_split :: "'s \<Rightarrow> 'rh \<times> 'wh"
  after_handshake_split :: "'rh \<Rightarrow> 'wh \<Rightarrow> ws_role \<Rightarrow> 'wsr \<times> 'wsw"
  set_auto_pong :: "bool \<Rightarrow> 'wsr \<Rightarrow> 'wsr"
  set_auto_close :: "bool \<Rightarrow> 'wsr \<Rightarrow> 'wsr"
  fragment_collector_new :: "'wsr \<Rightarrow> 'frag"

definition split_fastws :: "('s, 'rh, 'wh, 'wsr, 'wsw, 'frag) fastws_library \<Rightarrow> 's \<Rightarrow> 'wsw \<times> 'frag" where
  "split_fastws lib stream =
     (let (read_half, write_half) = io_split lib stream;
          (ws_read, ws_write) = after_handshake_split lib read_half write_half RoleClient;
          ws_read1 = set_auto_pong lib False ws_read;
          ws_read2 = set_auto_close lib False ws_read1
      in (ws_write, fragment_collector_new lib ws_read2))"

section \<open>Reading raw bytes\<close>

text \<open>
  \<open>RawOk b\<close> appends \<open>b\<close> to the buffer, and is the \<open>Ok(0)\<close> of the source when \<open>b\<close> is empty.  \<open>reserve\<close> gives at
  least the room asked for, and \<open>split\<close> takes the filled part out and leaves the rest of the capacity.
\<close>

definition RAW_READ_BUF_SIZE :: nat where "RAW_READ_BUF_SIZE = 16 * 1024"

datatype raw_read = RawOk "byte list" | RawError string

record raw_reader =
  raw_buf :: "byte list"
  raw_capacity :: nat
  raw_input :: "raw_read list"

definition raw_reader_new :: "raw_read list \<Rightarrow> raw_reader" where
  "raw_reader_new reads = \<lparr>raw_buf = [], raw_capacity = RAW_READ_BUF_SIZE, raw_input = reads\<rparr>"

definition raw_reserve :: "raw_reader \<Rightarrow> raw_reader" where
  "raw_reserve r =
     (if raw_capacity r = length (raw_buf r) then r\<lparr>raw_capacity := length (raw_buf r) + RAW_READ_BUF_SIZE\<rparr> else r)"

definition raw_read_message :: "raw_reader \<Rightarrow> (raw_reader \<times> (transport_error, ws_message) result option) option" where
  "raw_read_message r0 =
     (let r = raw_reserve r0 in
      case raw_input r of
        [] \<Rightarrow> None
      | RawOk b # reads \<Rightarrow>
          if b = [] then Some (r\<lparr>raw_input := reads\<rparr>, None)
          else Some (r\<lparr>raw_buf := [], raw_capacity := raw_capacity r - length (raw_buf r @ b), raw_input := reads\<rparr>,
                     Some (Ok (WsBinary (raw_buf r @ b))))
      | RawError e # reads \<Rightarrow> Some (r\<lparr>raw_input := reads\<rparr>, Some (Err (TransportIo e))))"

section \<open>Writing\<close>

text \<open>
  The WebSocket writer.  An outcome is the error of the library, if any; the state is what the
  library has accepted, and how much of it a flush has covered.
\<close>

datatype ws_write = WsWrite ws_opcode "byte list" | WsWriteClose u16 "byte list"

record fast_ws_writer =
  fw_frames :: "ws_write list"
  fw_flushed :: nat

definition fast_writer_new :: fast_ws_writer where
  "fast_writer_new = \<lparr>fw_frames = [], fw_flushed = 0\<rparr>"

definition fast_write_frame ::
  "string option \<Rightarrow> ws_write \<Rightarrow> fast_ws_writer \<Rightarrow> fast_ws_writer \<times> (transport_error, unit) result" where
  "fast_write_frame outcome f w =
     (case outcome of
        None \<Rightarrow> (w\<lparr>fw_frames := fw_frames w @ [f]\<rparr>, Ok ())
      | Some e \<Rightarrow> (w, Err (FastWebSocket e)))"

definition fast_write_binary ::
  "string option \<Rightarrow> byte list \<Rightarrow> fast_ws_writer \<Rightarrow> fast_ws_writer \<times> (transport_error, unit) result" where
  "fast_write_binary outcome payload w = fast_write_frame outcome (WsWrite OpBinary payload) w"

definition fast_write_pong ::
  "string option \<Rightarrow> byte list \<Rightarrow> fast_ws_writer \<Rightarrow> fast_ws_writer \<times> (transport_error, unit) result" where
  "fast_write_pong outcome payload w = fast_write_frame outcome (WsWrite OpPong payload) w"

definition fast_flush :: "string option \<Rightarrow> fast_ws_writer \<Rightarrow> fast_ws_writer \<times> (transport_error, unit) result" where
  "fast_flush outcome w =
     (case outcome of
        None \<Rightarrow> (w\<lparr>fw_flushed := length (fw_frames w)\<rparr>, Ok ())
      | Some e \<Rightarrow> (w, Err (FastWebSocket e)))"

definition fast_close :: "string option \<Rightarrow> fast_ws_writer \<Rightarrow> fast_ws_writer \<times> (transport_error, unit) result" where
  "fast_close outcome w = fast_write_frame outcome (WsWriteClose 1000 []) w"

text \<open>
  The raw writer.  \<open>write_all\<close> fails after some bytes have gone out, so an outcome is the number of those and
  the error.
\<close>

record raw_spdy_writer =
  rw_bytes :: "byte list"
  rw_flushed :: nat
  rw_shut_down :: bool

definition raw_writer_new :: raw_spdy_writer where
  "raw_writer_new = \<lparr>rw_bytes = [], rw_flushed = 0, rw_shut_down = False\<rparr>"

definition raw_write_binary ::
  "(nat \<times> string) option \<Rightarrow> byte list \<Rightarrow> raw_spdy_writer \<Rightarrow> raw_spdy_writer \<times> (transport_error, unit) result" where
  "raw_write_binary outcome payload w =
     (case outcome of
        None \<Rightarrow> (w\<lparr>rw_bytes := rw_bytes w @ payload\<rparr>, Ok ())
      | Some (n, e) \<Rightarrow> (w\<lparr>rw_bytes := rw_bytes w @ take n payload\<rparr>, Err (TransportIo e)))"

definition raw_write_pong :: "byte list \<Rightarrow> raw_spdy_writer \<Rightarrow> raw_spdy_writer \<times> (transport_error, unit) result" where
  "raw_write_pong payload w = (w, Ok ())"

definition raw_flush ::
  "(nat \<times> string) option \<Rightarrow> raw_spdy_writer \<Rightarrow> raw_spdy_writer \<times> (transport_error, unit) result" where
  "raw_flush outcome w =
     (case outcome of
        None \<Rightarrow> (w\<lparr>rw_flushed := length (rw_bytes w)\<rparr>, Ok ())
      | Some (n, e) \<Rightarrow> (w, Err (TransportIo e)))"

definition raw_close ::
  "(nat \<times> string) option \<Rightarrow> raw_spdy_writer \<Rightarrow> raw_spdy_writer \<times> (transport_error, unit) result" where
  "raw_close outcome w =
     (case outcome of
        None \<Rightarrow> (w\<lparr>rw_shut_down := True\<rparr>, Ok ())
      | Some (n, e) \<Rightarrow> (w, Err (TransportIo e)))"

definition split_raw_spdy :: "('s \<Rightarrow> raw_read list \<times> raw_spdy_writer) \<Rightarrow> 's \<Rightarrow> raw_spdy_writer \<times> raw_reader" where
  "split_raw_spdy split_io stream =
     (let (read_half, write_half) = split_io stream in (write_half, raw_reader_new read_half))"

text \<open>The calls that the writer task makes for its items, through either adapter.\<close>

definition fast_write ::
  "string option \<Rightarrow> wire_item \<Rightarrow> fast_ws_writer \<Rightarrow> fast_ws_writer \<times> (transport_error, unit) result" where
  "fast_write outcome item w =
     (case item of WireBinary b \<Rightarrow> fast_write_binary outcome b w | WirePong b \<Rightarrow> fast_write_pong outcome b w)"

definition raw_write ::
  "(nat \<times> string) option \<Rightarrow> wire_item \<Rightarrow> raw_spdy_writer \<Rightarrow> raw_spdy_writer \<times> (transport_error, unit) result" where
  "raw_write outcome item w =
     (case item of WireBinary b \<Rightarrow> raw_write_binary outcome b w | WirePong b \<Rightarrow> raw_write_pong b w)"

primrec write_items ::
  "('o \<Rightarrow> wire_item \<Rightarrow> 's \<Rightarrow> 's \<times> (transport_error, unit) result) \<Rightarrow> ('o \<times> wire_item) list \<Rightarrow> 's
    \<Rightarrow> 's \<times> (transport_error, unit) result" where
  "write_items write [] s = (s, Ok ())"
| "write_items write (call # calls) s =
     (case write (fst call) (snd call) s of
        (s', Inl e) \<Rightarrow> (s', Inl e)
      | (s', Inr u) \<Rightarrow> write_items write calls s')"

section \<open>The contract of a message sink\<close>

text \<open>
  What the writer task relies on: an accepted item has put its SPDY bytes behind those before it, PONGs
  have none, and a flush moves nothing.
\<close>

definition item_bytes :: "wire_item \<Rightarrow> byte list" where
  "item_bytes item = (case item of WireBinary b \<Rightarrow> b | WirePong b \<Rightarrow> [])"

locale message_sink =
  fixes put :: "'o \<Rightarrow> wire_item \<Rightarrow> 's \<Rightarrow> 's \<times> (transport_error, unit) result"
    and flush :: "'o \<Rightarrow> 's \<Rightarrow> 's \<times> (transport_error, unit) result"
    and sent :: "'s \<Rightarrow> byte list"
    and unflushed :: "'s \<Rightarrow> nat"
  assumes write_ok: "\<And>out item s s'. put out item s = (s', Ok ()) \<Longrightarrow> sent s' = sent s @ item_bytes item"
    and flush_sent: "\<And>out s s' r. flush out s = (s', r) \<Longrightarrow> sent s' = sent s"
    and flush_ok: "\<And>out s s'. flush out s = (s', Ok ()) \<Longrightarrow> unflushed s' = 0"
begin

lemma write_items_sent:
  "write_items put calls s = (s', Ok ()) \<Longrightarrow> sent s' = sent s @ concat (map (item_bytes \<circ> snd) calls)"
  by (induction calls arbitrary: s) (auto dest: write_ok split: prod.splits sum.splits)

lemma written_and_flushed:
  assumes "write_items put calls s = (s1, Ok ())" "flush out s1 = (s2, Ok ())"
  shows "sent s2 = sent s @ concat (map (item_bytes \<circ> snd) calls) \<and> unflushed s2 = 0"
  using write_items_sent [OF assms(1)] flush_sent [OF assms(2)] flush_ok [OF assms(2)] by simp

end

definition ws_binary_bytes :: "ws_write list \<Rightarrow> byte list" where
  "ws_binary_bytes fs = concat (map (\<lambda>f. case f of WsWrite OpBinary b \<Rightarrow> b | _ \<Rightarrow> []) fs)"

lemmas fast_write_defs = fast_write_def fast_write_binary_def fast_write_pong_def fast_write_frame_def
lemmas raw_write_defs = raw_write_def raw_write_binary_def raw_write_pong_def

interpretation fast_sink: message_sink fast_write fast_flush "\<lambda>w. ws_binary_bytes (fw_frames w)"
    "\<lambda>w. length (fw_frames w) - fw_flushed w"
  by unfold_locales
    (auto simp: fast_write_defs fast_flush_def item_bytes_def ws_binary_bytes_def split: option.splits wire_item.splits)

interpretation raw_sink: message_sink raw_write raw_flush rw_bytes "\<lambda>w. length (rw_bytes w) - rw_flushed w"
  by unfold_locales
    (auto simp: raw_write_defs raw_flush_def item_bytes_def split: option.splits wire_item.splits)

section \<open>The contract of a message source\<close>

text \<open>
  What the reader task relies on: \<open>left\<close> are the messages that a source will still deliver before it
  waits or ends; a read delivers the first of them, and waits, ends or fails only when none is left.
\<close>

locale message_source =
  fixes read :: "'s \<Rightarrow> ('s \<times> (transport_error, ws_message) result option) option"
    and left :: "'s \<Rightarrow> ws_message list"
    and inv :: "'s \<Rightarrow> bool"
  assumes read_message: "\<And>s s' m. inv s \<Longrightarrow> read s = Some (s', Some (Ok m)) \<Longrightarrow> inv s' \<and> left s = m # left s'"
    and read_wait: "\<And>s. inv s \<Longrightarrow> read s = None \<Longrightarrow> left s = []"
    and read_end: "\<And>s s'. inv s \<Longrightarrow> read s = Some (s', None) \<Longrightarrow> left s = []"
    and read_fail: "\<And>s s' e. inv s \<Longrightarrow> read s = Some (s', Some (Err e)) \<Longrightarrow> left s = []"
begin

text \<open>Up to \<open>n\<close> reads, stopping when one delivers no message.\<close>

primrec read_many :: "nat \<Rightarrow> 's \<Rightarrow> ws_message list" where
  "read_many 0 s = []"
| "read_many (Suc n) s = (case read s of Some (s', Some (Inr m)) \<Rightarrow> m # read_many n s' | _ \<Rightarrow> [])"

lemma read_many_exact: "inv s \<Longrightarrow> read_many n s = take n (left s)"
proof (induction n arbitrary: s)
  case (Suc n)
  then show ?case
    using read_wait read_end read_fail
    by (auto dest: read_message split: option.splits prod.splits sum.splits)
qed simp

end

text \<open>The messages in what the library or the socket returns, up to the end or an error.\<close>

fun ws_left :: "ws_read list \<Rightarrow> ws_message list" where
  "ws_left [] = []"
| "ws_left (WsConnectionClosed # rs) = []"
| "ws_left (WsReadError e # rs) = []"
| "ws_left (WsFrame opcode payload # rs) =
     (case opcode of
        OpBinary \<Rightarrow> [WsBinary (payload_to_bytes payload)]
      | OpPing \<Rightarrow> [WsPing (payload_to_bytes payload)]
      | OpClose \<Rightarrow> [WsClose]
      | _ \<Rightarrow> []) @ ws_left rs"

fun raw_left :: "raw_read list \<Rightarrow> byte list list" where
  "raw_left (RawOk b # rs) = (if b = [] then [] else b # raw_left rs)"
| "raw_left rs = []"

lemma fast_read_left:
  "case fast_read_message rs of
     Some (rs', Some (Inr m)) \<Rightarrow> ws_left rs = m # ws_left rs'
   | _ \<Rightarrow> ws_left rs = []"
  by (induction rs rule: fast_read_message.induct) (auto split: ws_opcode.splits option.splits prod.splits sum.splits)

interpretation fast: message_source fast_read_message ws_left "\<lambda>_. True"
proof unfold_locales
  show "True \<and> ws_left s = m # ws_left s'" if "fast_read_message s = Some (s', Some (Ok m))" for s s' m
    using that fast_read_left [of s] by simp
  show "ws_left s = []" if "fast_read_message s = None" for s
    using that fast_read_left [of s] by simp
  show "ws_left s = []" if "fast_read_message s = Some (s', None)" for s s'
    using that fast_read_left [of s] by simp
  show "ws_left s = []" if "fast_read_message s = Some (s', Some (Err e))" for s s' e
    using that fast_read_left [of s] by simp
qed

interpretation raw: message_source raw_read_message "\<lambda>r. map WsBinary (raw_left (raw_input r))" "\<lambda>r. raw_buf r = []"
  by unfold_locales
    (auto simp: raw_read_message_def raw_reserve_def Let_def split: list.splits raw_read.splits if_splits)

text \<open>Chunks that come from the socket are delivered as they are.\<close>

lemma raw_left_chunks: "[] \<notin> set chunks \<Longrightarrow> raw_left (map RawOk chunks) = chunks"
  by (induction chunks) auto

lemma raw_delivers_chunks:
  assumes "[] \<notin> set chunks"
  shows "raw.read_many (length chunks) (raw_reader_new (map RawOk chunks)) = map WsBinary chunks"
  using raw.read_many_exact [of "raw_reader_new (map RawOk chunks)" "length chunks"] assms
  by (simp add: raw_reader_new_def raw_left_chunks)

text \<open>
  A frame that the adapter absorbs does not end a read: a peer that answers only with PONGs keeps
  the reader task waiting, so that its idle timer runs on.
\<close>

lemma fast_absorbs_silently:
  "list_all (\<lambda>r. \<exists>p. r = WsFrame OpPong p) rs \<Longrightarrow> fast_read_message rs = None"
  by (induction rs) auto

text \<open>
  When the raw reader asks the socket for bytes its buffer has room, so that a read of no bytes can only
  be the end of the input.
\<close>

lemma raw_reserve_room:
  "raw_buf r = [] \<Longrightarrow> length (raw_buf (raw_reserve r)) < raw_capacity (raw_reserve r)"
  by (auto simp: raw_reserve_def RAW_READ_BUF_SIZE_def)

text \<open>What the peer's library returns for the frames that the WebSocket writer handed over.\<close>

definition ws_received :: "ws_write \<Rightarrow> ws_read" where
  "ws_received f =
     (case f of WsWrite opcode b \<Rightarrow> WsFrame opcode (PayloadBytes b) | WsWriteClose c b \<Rightarrow> WsFrame OpClose (PayloadBytes b))"

lemma fast_writes_frames:
  "write_items fast_write calls w = (w', Ok ()) \<Longrightarrow>
     fw_frames w' = fw_frames w @ map (\<lambda>c. case snd c of WireBinary b \<Rightarrow> WsWrite OpBinary b | WirePong b \<Rightarrow> WsWrite OpPong b) calls"
  by (induction calls arbitrary: w)
    (auto simp: fast_write_defs split: prod.splits sum.splits option.splits wire_item.splits)

lemma ws_left_received:
  "ws_left (map ws_received (map (\<lambda>c. case snd c of WireBinary b \<Rightarrow> WsWrite OpBinary b | WirePong b \<Rightarrow> WsWrite OpPong b) calls))
    = concat (map (\<lambda>c. case snd c of WireBinary b \<Rightarrow> [WsBinary b] | WirePong b \<Rightarrow> []) calls)"
  by (induction calls) (auto simp: ws_received_def payload_to_bytes_def split: wire_item.splits)

lemma fast_delivers_items:
  assumes "write_items fast_write calls fast_writer_new = (w', Ok ())"
  shows "fast.read_many (length calls) (map ws_received (fw_frames w'))
    = concat (map (\<lambda>c. case snd c of WireBinary b \<Rightarrow> [WsBinary b] | WirePong b \<Rightarrow> []) calls)"
proof -
  let ?ms = "concat (map (\<lambda>c. case snd c of WireBinary b \<Rightarrow> [WsBinary b] | WirePong b \<Rightarrow> []) calls)"
  have "length ?ms \<le> length calls" by (induction calls) (auto split: wire_item.splits)
  then show ?thesis
    using fast.read_many_exact [of "length calls" "map ws_received (fw_frames w')"]
      fast_writes_frames [OF assms] ws_left_received [of calls]
    by (simp add: fast_writer_new_def)
qed

end
