(* ===== verification/Pod_Watch.thy ===== *)
theory Pod_Watch
  imports Prelude
begin

text \<open>
  The pod watcher (\<^verbatim>\<open>crates/kube-portforward/src/pod_watch.rs\<close>): which pods are targetable, the cached
  identity of the ready pod, and the events sent to subscribers.

  The reflector of \<open>kube_runtime\<close> keeps the store of pods; what it holds when the code asks is part of
  the state, in the order in which \<open>state()\<close> lists it, and its events are arguments.  A pod is what the
  code reads of it: \<open>name_any()\<close>, the UID, whether a deletion timestamp is set, and the status.  The
  \<open>ArcSwapOption\<close> is a cell that each function reads or writes at one instant; \<open>broadcast\<close> sends are
  recorded in order.
\<close>

record pod_status =
  phase :: "string option"
  conditions :: "(string \<times> string) list option"

record pod =
  pod_name :: string
  pod_uid :: "string option"
  pod_deleting :: bool
  pod_status_of :: "pod_status option"

record ready_pod =
  rp_name :: string
  rp_uid :: "string option"

datatype pod_selector = SelName string | SelLabels string

datatype pod_readiness = PolicyReady | PolicyRunning

datatype pod_change = PodReady string | PodDied string

record pod_watcher =
  pw_store :: "pod list"
  latest_ready :: "ready_pod option"
  pw_selector :: pod_selector
  pw_readiness :: pod_readiness
  pw_cancelled :: bool
  pw_sent :: "pod_change list"

section \<open>Selection\<close>

definition matches_selector :: "pod \<Rightarrow> pod_selector \<Rightarrow> bool" where
  "matches_selector p sel = (case sel of SelName name \<Rightarrow> pod_name p = name | SelLabels s \<Rightarrow> True)"

definition is_pod_selected :: "pod \<Rightarrow> pod_selector \<Rightarrow> pod_readiness \<Rightarrow> bool" where
  "is_pod_selected p sel readiness =
     (if \<not> matches_selector p sel then False
      else case pod_status_of p of
        None \<Rightarrow> False
      | Some status \<Rightarrow>
          if phase status \<noteq> Some ''Running'' then False
          else case readiness of
            PolicyRunning \<Rightarrow> \<not> pod_deleting p
          | PolicyReady \<Rightarrow> \<not> pod_deleting p \<and>
              (case conditions status of
                 None \<Rightarrow> False
               | Some cs \<Rightarrow> list_ex (\<lambda>(t, s). t = ''Ready'' \<and> s = ''True'') cs))"

definition pod_identity :: "pod \<Rightarrow> ready_pod" where
  "pod_identity p = \<lparr>rp_name = pod_name p, rp_uid = pod_uid p\<rparr>"

section \<open>Construction\<close>

definition watcher_label_expr :: "pod_selector \<Rightarrow> string" where
  "watcher_label_expr sel = (case sel of SelLabels s \<Rightarrow> s | SelName n \<Rightarrow> [])"

definition pod_watcher_new :: "pod_selector \<Rightarrow> pod_readiness \<Rightarrow> pod_watcher" where
  "pod_watcher_new sel readiness =
     \<lparr>pw_store = [], latest_ready = None, pw_selector = sel, pw_readiness = readiness,
      pw_cancelled = False, pw_sent = []\<rparr>"

definition watcher_shutdown :: "pod_watcher \<Rightarrow> pod_watcher" where
  "watcher_shutdown pw = pw\<lparr>pw_cancelled := True\<rparr>"

section \<open>The pods of the API server\<close>

text \<open>
  A pod as the watch delivers it.  The reflector strips what the crate does not read before it stores a pod
  (the closure given to \<open>modify\<close>); \<open>watched_pod\<close> is the part that the definitions above read.
\<close>

record api_status = pod_status +
  container_statuses :: "string list option"
  init_container_statuses :: "string list option"
  ephemeral_container_statuses :: "string list option"

record api_pod =
  api_name :: string
  api_uid :: "string option"
  api_deletion_timestamp :: "nat option"
  managed_fields :: "string list"
  annotations :: "(string \<times> string) list"
  api_status_of :: "api_status option"

definition strip_pod :: "api_pod \<Rightarrow> api_pod" where
  "strip_pod p =
     p\<lparr>managed_fields := [], annotations := [],
       api_status_of := map_option (\<lambda>s. s\<lparr>container_statuses := None, init_container_statuses := None,
         ephemeral_container_statuses := None\<rparr>) (api_status_of p)\<rparr>"

definition watched_pod :: "api_pod \<Rightarrow> pod" where
  "watched_pod p =
     \<lparr>pod_name = api_name p, pod_uid = api_uid p, pod_deleting = (api_deletion_timestamp p \<noteq> None),
      pod_status_of = map_option pod_status.truncate (api_status_of p)\<rparr>"

section \<open>The two background tasks\<close>

definition update_latest :: "pod \<Rightarrow> pod_watcher \<Rightarrow> pod_watcher" where
  "update_latest p pw =
     (if \<not> is_pod_selected p (pw_selector pw) (pw_readiness pw) then pw
      else let changed = (case latest_ready pw of
                  Some cur \<Rightarrow> if rp_name cur = pod_name p then rp_uid cur \<noteq> pod_uid p else False
                | None \<Rightarrow> True)
           in if changed
              then pw\<lparr>latest_ready := Some (pod_identity p), pw_sent := pw_sent pw @ [PodReady (pod_name p)]\<rparr>
              else pw)"

definition handle_deleted_pod :: "string \<Rightarrow> string option \<Rightarrow> pod_watcher \<Rightarrow> pod_watcher" where
  "handle_deleted_pod name uid pw =
     (case latest_ready pw of
        Some c \<Rightarrow>
          if rp_name c = name \<and> rp_uid c = uid
          then pw\<lparr>latest_ready := None, pw_sent := pw_sent pw @ [PodDied name]\<rparr>
          else pw
      | None \<Rightarrow> pw)"

text \<open>What the reflector and subscriber loops receive; an error only delays the reflector.\<close>

datatype watch_event = WatchDelete pod | WatchOther | WatchError string | WatchEnd

definition reflector_event :: "watch_event \<Rightarrow> pod_watcher \<Rightarrow> pod_watcher \<times> bool" where
  "reflector_event ev pw =
     (case ev of
        WatchDelete p \<Rightarrow> (handle_deleted_pod (pod_name p) (pod_uid p) pw, False)
      | WatchOther \<Rightarrow> (pw, False)
      | WatchError e \<Rightarrow> (pw, False)
      | WatchEnd \<Rightarrow> (pw, True))"

definition subscriber_event :: "pod option \<Rightarrow> pod_watcher \<Rightarrow> pod_watcher \<times> bool" where
  "subscriber_event ev pw = (case ev of Some p \<Rightarrow> (update_latest p pw, False) | None \<Rightarrow> (pw, True))"

section \<open>Queries\<close>

text \<open>The scan of the store: \<open>Inl\<close> returns the cached pod, \<open>Inr\<close> carries the first ready one.\<close>

primrec ready_scan ::
  "pod_selector \<Rightarrow> pod_readiness \<Rightarrow> ready_pod option \<Rightarrow> pod list \<Rightarrow> ready_pod option \<Rightarrow> ready_pod + ready_pod option" where
  "ready_scan sel readiness cached [] first_ready = Inr first_ready"
| "ready_scan sel readiness cached (p # ps) first_ready =
     (if \<not> is_pod_selected p sel readiness then ready_scan sel readiness cached ps first_ready
      else case cached of
        Some c \<Rightarrow>
          if pod_name p = rp_name c \<and> pod_uid p = rp_uid c then Inl c
          else ready_scan sel readiness cached ps (if first_ready = None then Some (pod_identity p) else first_ready)
      | None \<Rightarrow>
          ready_scan sel readiness cached ps (if first_ready = None then Some (pod_identity p) else first_ready))"

definition ready_pod_query :: "pod_watcher \<Rightarrow> pod_watcher \<times> ready_pod option" where
  "ready_pod_query pw =
     (case ready_scan (pw_selector pw) (pw_readiness pw) (latest_ready pw) (pw_store pw) None of
        Inl c \<Rightarrow> (pw, Some c)
      | Inr (Some ready) \<Rightarrow> (pw\<lparr>latest_ready := Some ready\<rparr>, Some ready)
      | Inr None \<Rightarrow> (pw\<lparr>latest_ready := None\<rparr>, None))"

definition has_running_pods :: "pod_watcher \<Rightarrow> bool" where
  "has_running_pods pw = list_ex (\<lambda>p. is_pod_selected p (pw_selector pw) PolicyRunning) (pw_store pw)"

definition contains_identity :: "string \<Rightarrow> string option \<Rightarrow> pod_watcher \<Rightarrow> bool" where
  "contains_identity name uid pw = list_ex (\<lambda>p. pod_name p = name \<and> pod_uid p = uid) (pw_store pw)"

text \<open>
  Waiting: what ends each wait, with the watcher as it is then.  \<open>None\<close> says that the call is still
  waiting; \<open>Some (pw, r)\<close> that it returned \<open>r\<close>.
\<close>

datatype wait_event = WaitCancelled | WaitDeadline | WaitChange pod_change | WaitLagged | WaitClosed

primrec wait_loop :: "(wait_event \<times> pod_watcher) list \<Rightarrow> (pod_watcher \<times> ready_pod option) option" where
  "wait_loop [] = None"
| "wait_loop (e # es) =
     (case e of (ev, pw) \<Rightarrow>
       case ev of
         WaitCancelled \<Rightarrow> Some (pw, None)
       | WaitDeadline \<Rightarrow> Some (pw, None)
       | WaitClosed \<Rightarrow> Some (pw, None)
       | WaitChange (PodDied n) \<Rightarrow> wait_loop es
       | WaitChange (PodReady n) \<Rightarrow>
           (case ready_pod_query pw of (pw', Some p) \<Rightarrow> Some (pw', Some p) | (pw', None) \<Rightarrow> wait_loop es)
       | WaitLagged \<Rightarrow>
           (case ready_pod_query pw of (pw', Some p) \<Rightarrow> Some (pw', Some p) | (pw', None) \<Rightarrow> wait_loop es))"

definition wait_for_ready_pod ::
  "pod_watcher \<Rightarrow> (wait_event \<times> pod_watcher) list \<Rightarrow> (pod_watcher \<times> ready_pod option) option" where
  "wait_for_ready_pod pw events =
     (if pw_cancelled pw then Some (pw, None)
      else case ready_pod_query pw of
        (pw', Some p) \<Rightarrow> Some (pw', Some p)
      | (pw', None) \<Rightarrow> wait_loop events)"

end
