(* ===== verification/Pod_Watch_Laws.thy ===== *)
theory Pod_Watch_Laws
  imports Pod_Watch
begin

text \<open>
  What the pod watcher promises: a query answers with a pod that is targetable in the store at that
  moment, keeps to the cached one as long as it is, and the cache survives the deletion of an earlier
  incarnation of the same name.
\<close>

section \<open>Stripping\<close>

text \<open>What the reflector strips is nothing that a decision reads: a pod is selected, and known, as it was delivered.\<close>

lemma watched_strip_pod: "watched_pod (strip_pod p) = watched_pod p"
  by (cases "api_status_of p") (simp_all add: watched_pod_def strip_pod_def pod_status.truncate_def)

lemma strip_pod_selected:
  "is_pod_selected (watched_pod (strip_pod p)) sel readiness = is_pod_selected (watched_pod p) sel readiness"
  "pod_identity (watched_pod (strip_pod p)) = pod_identity (watched_pod p)"
  by (simp_all add: watched_strip_pod)

section \<open>Queries\<close>

abbreviation selected_by :: "pod_watcher \<Rightarrow> pod \<Rightarrow> bool" where
  "selected_by pw p \<equiv> is_pod_selected p (pw_selector pw) (pw_readiness pw)"

lemma ready_scan_spec:
  "ready_scan sel readiness cached ps first_ready =
     (if \<exists>c p. cached = Some c \<and> p \<in> set ps \<and> is_pod_selected p sel readiness \<and> pod_identity p = c
      then Inl (the cached)
      else Inr (if first_ready = None
                then map_option pod_identity (List.find (\<lambda>p. is_pod_selected p sel readiness) ps) else first_ready))"
  by (induction ps arbitrary: first_ready) (auto simp: pod_identity_def split: option.splits)

lemma find_selected:
  "List.find P ps = None \<longleftrightarrow> (\<forall>p\<in>set ps. \<not> P p)" "List.find P ps = Some p \<Longrightarrow> p \<in> set ps \<and> P p"
  by (auto simp: find_None_iff find_Some_iff)

lemma ready_pod_query_spec:
  assumes "ready_pod_query pw = (pw', r)"
  shows "pw' = pw\<lparr>latest_ready := r\<rparr>"
    and "r = (if \<exists>c. latest_ready pw = Some c \<and> (\<exists>p\<in>set (pw_store pw). selected_by pw p \<and> pod_identity p = c)
       then latest_ready pw else map_option pod_identity (List.find (selected_by pw) (pw_store pw)))"
proof -
  let ?hit = "\<exists>c. latest_ready pw = Some c \<and> (\<exists>p\<in>set (pw_store pw). selected_by pw p \<and> pod_identity p = c)"
  have "ready_scan (pw_selector pw) (pw_readiness pw) (latest_ready pw) (pw_store pw) None =
    (if ?hit then Inl (the (latest_ready pw)) else Inr (map_option pod_identity (List.find (selected_by pw) (pw_store pw))))"
    unfolding ready_scan_spec by auto
  then show "pw' = pw\<lparr>latest_ready := r\<rparr>"
    and "r = (if ?hit then latest_ready pw else map_option pod_identity (List.find (selected_by pw) (pw_store pw)))"
    using assms by (cases ?hit; auto simp: ready_pod_query_def split: option.splits)+
qed

lemma ready_pod_query_sound:
  assumes "ready_pod_query pw = (pw', Some c)"
  shows "\<exists>p\<in>set (pw_store pw). selected_by pw p \<and> pod_identity p = c"
  using ready_pod_query_spec(2) [OF assms] find_selected(2) [of "selected_by pw" "pw_store pw"]
  by (cases "List.find (selected_by pw) (pw_store pw)") (auto split: if_splits)

lemma wait_loop_sound:
  "wait_loop es = Some (pw', Some c) \<Longrightarrow> \<exists>(ev, pw)\<in>set es. \<exists>p\<in>set (pw_store pw). selected_by pw p \<and> pod_identity p = c"
proof (induction es)
  case (Cons e es)
  obtain ev pw where e: "e = (ev, pw)" by force
  have "(\<exists>pw'. ready_pod_query pw = (pw', Some c)) \<or> wait_loop es = Some (pw', Some c)"
    using Cons.prems e by (auto split: wait_event.splits pod_change.splits prod.splits option.splits)
  then show ?case using Cons.IH ready_pod_query_sound e by fastforce
qed simp

section \<open>Incarnations\<close>

text \<open>
  A StatefulSet replaces a pod under the same name.  In whatever order the two reach the watcher,
  once the new pod is known, the deletion of the old one neither clears it nor reports a death.
\<close>

lemma deletion_of_old_incarnation:
  assumes "latest_ready pw = Some c" "rp_uid c \<noteq> uid"
  shows "handle_deleted_pod name uid pw = pw"
  using assms by (simp add: handle_deleted_pod_def)

section \<open>Properties\<close>

text \<open>
  C33.  A ready pod is ready.  A query of the watcher, and a wait for a pod that returns one, answer with
  the identity of a pod that is in the store and targetable at that moment; the query answers
  \<open>None\<close> only when no pod is, prefers the pod it answered before as long as that is still targetable
  (name and UID), and remembers its answer.
\<close>

theorem ready_pod_faithful:
  assumes "ready_pod_query pw = (pw', r)"
  shows "(r = None \<longleftrightarrow> (\<forall>p\<in>set (pw_store pw). \<not> selected_by pw p)) \<and>
    (\<forall>c. r = Some c \<longrightarrow> (\<exists>p\<in>set (pw_store pw). selected_by pw p \<and> pod_identity p = c)) \<and>
    (\<forall>p\<in>set (pw_store pw). selected_by pw p \<and> latest_ready pw = Some (pod_identity p) \<longrightarrow> r = latest_ready pw) \<and>
    pw' = pw\<lparr>latest_ready := r\<rparr> \<and>
    (\<forall>es pw'' c. wait_for_ready_pod pw es = Some (pw'', Some c) \<longrightarrow>
      (\<exists>pw1\<in>insert pw (snd ` set es). \<exists>p\<in>set (pw_store pw1). selected_by pw1 p \<and> pod_identity p = c))"
proof (intro conjI allI impI)
  note s = ready_pod_query_spec [OF assms]
  show "r = None \<longleftrightarrow> (\<forall>p\<in>set (pw_store pw). \<not> selected_by pw p)"
    using s(2) by (auto simp: find_None_iff)
  show "\<forall>p\<in>set (pw_store pw). selected_by pw p \<and> latest_ready pw = Some (pod_identity p) \<longrightarrow> r = latest_ready pw"
    using s(2) by auto
  show "pw' = pw\<lparr>latest_ready := r\<rparr>" by (rule s(1))
  show "\<exists>p\<in>set (pw_store pw). selected_by pw p \<and> pod_identity p = c" if "r = Some c" for c
    using ready_pod_query_sound assms that by blast
  show "\<exists>pw1\<in>insert pw (snd ` set es). \<exists>p\<in>set (pw_store pw1). selected_by pw1 p \<and> pod_identity p = c"
    if w: "wait_for_ready_pod pw es = Some (pw'', Some c)" for es pw'' c
  proof -
    have "r = Some c \<or> wait_loop es = Some (pw'', Some c)"
      using w assms by (auto simp: wait_for_ready_pod_def split: if_splits option.splits)
    then show ?thesis
      using ready_pod_query_sound [of pw pw' c] wait_loop_sound [of es pw'' c] assms by fastforce
  qed
qed

definition example_pod :: "string \<Rightarrow> string \<Rightarrow> pod" where
  "example_pod name uid = \<lparr>pod_name = name, pod_uid = Some uid, pod_deleting = False,
     pod_status_of = Some \<lparr>phase = Some ''Running'', conditions = Some [(''Ready'', ''True'')]\<rparr>\<rparr>"

definition example_watcher :: pod_watcher where
  "example_watcher = (pod_watcher_new (SelLabels ''app=db'') PolicyReady)\<lparr>
     pw_store := [example_pod ''db-1'' ''u1'', example_pod ''db-0'' ''u2''], latest_ready := Some (pod_identity (example_pod ''db-0'' ''u2''))\<rparr>"

theorem ready_pod_faithful_witness:
  "snd (ready_pod_query example_watcher) = Some (pod_identity (example_pod ''db-0'' ''u2''))"
proof -
  have "selected_by example_watcher (example_pod ''db-0'' ''u2'')"
    by (simp add: example_watcher_def example_pod_def pod_watcher_new_def is_pod_selected_def matches_selector_def)
  then show ?thesis
    using ready_pod_faithful [of example_watcher "fst (ready_pod_query example_watcher)" "snd (ready_pod_query example_watcher)"]
    by (auto simp: example_watcher_def)
qed

end
