(* ===== verification/Kube_Types.thy ===== *)
theory Kube_Types
  imports Errors
begin

text \<open>
  The types that the parts of the crate \<open>kube-portforward\<close> share: its error
  (\<^verbatim>\<open>crates/kube-portforward/src/error.rs\<close>), the negotiated protocol (\<^verbatim>\<open>subprotocol.rs\<close>) and the recovery
  signal (\<^verbatim>\<open>recovery.rs\<close>).  Here a Rust \<open>String\<close> is a \<open>string\<close>, whose characters are its bytes; payloads
  that are errors of other crates keep their text.
\<close>

datatype kube_error =
    UpgradeFailed "nat option" string
  | ProtocolViolation string string
  | KCapacityExhausted nat nat
  | Configuration string
  | Network string
  | Cancelled
  | KubeError string
  | KubeIo string
  | SpdyError spdy_error

datatype subprotocol = Spdy31Tunnel | LegacySpdy

datatype recovery_signal =
    KeepaliveTimeout duration
  | ServerClose
  | NetworkError string
  | SignalUpgradeFailed "nat option" string

text \<open>
  A \<open>RecoveryCallback\<close> belongs to the user of the crate: it is a name, and what the code does with it is to call
  it with signals, in order.  Without one the builders put in a callback that ignores what it gets.
\<close>

type_synonym callback_id = nat

definition callback_calls :: "callback_id option \<Rightarrow> recovery_signal list \<Rightarrow> (callback_id \<times> recovery_signal) list" where
  "callback_calls cb signals = (case cb of None \<Rightarrow> [] | Some c \<Rightarrow> map (Pair c) signals)"

definition subprotocol_display :: "subprotocol \<Rightarrow> string" where
  "subprotocol_display p = (case p of Spdy31Tunnel \<Rightarrow> ''SPDY/3.1+ws'' | LegacySpdy \<Rightarrow> ''SPDY/3.1'')"

section \<open>Decimal numbers\<close>

text \<open>\<open>to_string\<close> of an unsigned integer.\<close>

definition digit_char :: "nat \<Rightarrow> char" where
  "digit_char d = char_of (48 + d)"

fun to_decimal :: "nat \<Rightarrow> string" where
  "to_decimal n = (if n < 10 then [digit_char n] else to_decimal (n div 10) @ [digit_char (n mod 10)])"

declare to_decimal.simps [simp del]

lemma of_char_digit: "d < 10 \<Longrightarrow> of_char (digit_char d) = 48 + d"
  by (simp add: digit_char_def)

text \<open>Reading the digits back.\<close>

definition from_decimal :: "string \<Rightarrow> nat" where
  "from_decimal s = foldl (\<lambda>n c. 10 * n + (of_char c - 48)) 0 s"

lemma from_to_decimal [simp]: "from_decimal (to_decimal n) = n"
proof (induction n rule: to_decimal.induct)
  case (1 n)
  then show ?case
    by (cases "n < 10") (simp_all add: to_decimal.simps [of n] from_decimal_def of_char_digit)
qed

lemma to_decimal_inj [simp]: "to_decimal m = to_decimal n \<longleftrightarrow> m = n"
  by (metis from_to_decimal)

lemma to_decimal_digits: "c \<in> set (to_decimal n) \<Longrightarrow> 48 \<le> (of_char c :: nat) \<and> (of_char c :: nat) < 58"
proof (induction n rule: to_decimal.induct)
  case (1 n)
  then show ?case
    by (cases "n < 10") (auto simp: to_decimal.simps [of n] of_char_digit)
qed

lemma length_to_decimal: "n < 10 ^ k \<Longrightarrow> 0 < k \<Longrightarrow> length (to_decimal n) \<le> k"
proof (induction n arbitrary: k rule: to_decimal.induct)
  case (1 n)
  show ?case
  proof (cases "n < 10")
    case False
    then obtain j where k: "k = Suc j" "0 < j" using "1.prems" by (cases k; cases "k - 1") auto
    then have "n div 10 < 10 ^ j" using "1.prems" by (simp add: div_less_iff_less_mult ac_simps)
    from "1.IH" [OF False this k(2)] show ?thesis using False k by (simp add: to_decimal.simps [of n])
  qed (use "1.prems" in \<open>simp add: to_decimal.simps [of n]\<close>)
qed

end
