(* ===== verification/Connect.thy ===== *)
theory Connect
  imports Kube_Types
begin

text \<open>
  The HTTP upgrade (\<^verbatim>\<open>crates/kube-portforward/src/connect.rs\<close>): the request for a pod's port-forward
  endpoint, the two upgrade paths with their checks of the answer, and the fallback from the first to
  the second.

  The crates \<open>http\<close>, \<open>hyper\<close> and \<open>kube\<close> are not part of the repository.  Of a cluster \<open>Uri\<close> the code reads
  the scheme and the authority; whether the assembled text parses as a \<open>Uri\<close>, what \<open>kube_client.send\<close>
  answers and what \<open>hyper::upgrade::on\<close> returns are arguments (\<open>http_env\<close>), and so is the random
  WebSocket key.  Header names are lower case, as the library keeps them.  An upgraded connection is a
  name.  Building a request from an accepted URI and constant headers cannot fail, so it has no error branch.
\<close>

definition SPDY_SUBPROTOCOL :: string where "SPDY_SUBPROTOCOL = ''SPDY/3.1+portforward.k8s.io''"
definition LEGACY_SPDY_UPGRADE :: string where "LEGACY_SPDY_UPGRADE = ''SPDY/3.1''"
definition LEGACY_STREAM_PROTOCOL :: string where "LEGACY_STREAM_PROTOCOL = ''portforward.k8s.io''"

type_synonym conn_id = nat

record spdy_upgraded =
  upgraded :: conn_id
  up_protocol :: subprotocol

record cluster_uri =
  uri_scheme :: "string option"
  uri_authority :: "string option"

record http_request =
  req_method :: string
  req_uri :: string
  req_headers :: "(string \<times> string) list"

text \<open>A header value that is not visible ASCII has no text.\<close>

record http_response =
  res_status :: nat
  res_headers :: "(string \<times> string option) list"

record http_env =
  env_parse_uri :: "string \<Rightarrow> (string, unit) result"
  env_send :: "http_request \<Rightarrow> (string, http_response) result"
  env_upgrade :: "http_response \<Rightarrow> (string, conn_id) result"
  env_ws_key :: string

section \<open>The request\<close>

definition is_ascii_control :: "char \<Rightarrow> bool" where
  "is_ascii_control c \<longleftrightarrow> (of_char c :: nat) < 32 \<or> (of_char c :: nat) = 127"

definition name_is_valid :: "string \<Rightarrow> bool" where
  "name_is_valid s \<longleftrightarrow> s \<noteq> [] \<and> list_all (\<lambda>c. (of_char c :: nat) < 128) s \<and>
     list_all (\<lambda>c. c \<notin> {CHR ''/'', CHR ''?'', CHR ''#''} \<and> \<not> is_ascii_control c) s"

definition portforward_path :: "string \<Rightarrow> string \<Rightarrow> string" where
  "portforward_path namespace pod =
     ''/api/v1/namespaces/'' @ namespace @ ''/pods/'' @ pod @ ''/portforward''"

definition portforward_uri ::
  "(string \<Rightarrow> (string, unit) result) \<Rightarrow> cluster_uri \<Rightarrow> string \<Rightarrow> string \<Rightarrow> (kube_error, string) result" where
  "portforward_uri parse cluster_url namespace pod =
     (if \<not> name_is_valid namespace \<or> \<not> name_is_valid pod
      then Err (Configuration ''invalid namespace or pod name: has a forbidden character or non-ASCII'')
      else case uri_scheme cluster_url of
        None \<Rightarrow> Err (Configuration ''cluster_url has no scheme'')
      | Some scheme \<Rightarrow>
          (case uri_authority cluster_url of
             None \<Rightarrow> Err (Configuration ''cluster_url has no authority'')
           | Some authority \<Rightarrow>
               (let text = scheme @ ''://'' @ authority @ portforward_path namespace pod in
                case parse text of
                  Inl e \<Rightarrow> Err (Configuration (''invalid port-forward URI: '' @ e))
                | Inr u \<Rightarrow> Ok text)))"

definition build_spdy_tunnel_request ::
  "(string \<Rightarrow> (string, unit) result) \<Rightarrow> cluster_uri \<Rightarrow> string \<Rightarrow> string \<Rightarrow> (kube_error, http_request) result" where
  "build_spdy_tunnel_request parse cluster_url namespace pod =
     (case portforward_uri parse cluster_url namespace pod of
        Inl e \<Rightarrow> Err e
      | Inr uri \<Rightarrow> Ok \<lparr>req_method = ''GET'', req_uri = uri,
          req_headers = [(''sec-websocket-protocol'', SPDY_SUBPROTOCOL)]\<rparr>)"

definition build_legacy_spdy_request ::
  "(string \<Rightarrow> (string, unit) result) \<Rightarrow> cluster_uri \<Rightarrow> string \<Rightarrow> string \<Rightarrow> (kube_error, http_request) result" where
  "build_legacy_spdy_request parse cluster_url namespace pod =
     (case portforward_uri parse cluster_url namespace pod of
        Inl e \<Rightarrow> Err e
      | Inr uri \<Rightarrow> Ok \<lparr>req_method = ''POST'', req_uri = uri,
          req_headers = [(''connection'', ''Upgrade''), (''upgrade'', LEGACY_SPDY_UPGRADE),
                         (''x-stream-protocol-version'', LEGACY_STREAM_PROTOCOL)]\<rparr>)"

section \<open>The upgrades\<close>

text \<open>\<open>HeaderMap::insert\<close>, and \<open>get(..).and_then(to_str).unwrap_or("")\<close>.\<close>

definition header_insert :: "string \<Rightarrow> string \<Rightarrow> (string \<times> string) list \<Rightarrow> (string \<times> string) list" where
  "header_insert k v hs = filter (\<lambda>h. fst h \<noteq> k) hs @ [(k, v)]"

definition header_text :: "string \<Rightarrow> http_response \<Rightarrow> string" where
  "header_text k res = (case map_of (res_headers res) k of Some (Some v) \<Rightarrow> v | _ \<Rightarrow> [])"

definition ascii_lower_char :: "char \<Rightarrow> char" where
  "ascii_lower_char c = (if 65 \<le> (of_char c :: nat) \<and> (of_char c :: nat) \<le> 90 then char_of (of_char c + 32 :: nat) else c)"

definition eq_ignore_ascii_case :: "string \<Rightarrow> string \<Rightarrow> bool" where
  "eq_ignore_ascii_case a b \<longleftrightarrow> map ascii_lower_char a = map ascii_lower_char b"

text \<open>\<open>{:?}\<close> of a header value that has a text: visible ASCII, blanks and tabs.\<close>

definition debug_char :: "char \<Rightarrow> string" where
  "debug_char c =
     (if c = CHR 0x22 \<or> c = CHR 0x5C then [CHR 0x5C, c] else if c = CHR 0x09 then [CHR 0x5C, CHR ''t''] else [c])"

definition debug_str :: "string \<Rightarrow> string" where
  "debug_str s = [CHR 0x22] @ concat (map debug_char s) @ [CHR 0x22]"

definition unexpected :: "string \<Rightarrow> string \<Rightarrow> string \<Rightarrow> string" where
  "unexpected what found wanted = what @ debug_str found @ '' (wanted '' @ debug_str wanted @ '')''"

text \<open>Each upgrade also says whether it poisoned the pooled HTTP connection that rejected it.\<close>

definition ws_upgrade_request :: "string \<Rightarrow> http_request \<Rightarrow> http_request" where
  "ws_upgrade_request key request =
     request\<lparr>req_headers := header_insert ''sec-websocket-key'' key (header_insert ''sec-websocket-version'' ''13''
        (header_insert ''upgrade'' ''websocket'' (header_insert ''connection'' ''Upgrade'' (req_headers request))))\<rparr>"

definition perform_ws_upgrade :: "http_env \<Rightarrow> http_request \<Rightarrow> bool \<times> (kube_error, conn_id) result" where
  "perform_ws_upgrade env request =
     (case env_send env (ws_upgrade_request (env_ws_key env) request) of
        Inl e \<Rightarrow> (False, Err (KubeError e))
      | Inr res \<Rightarrow>
          if res_status res \<noteq> 101
          then (True, Err (UpgradeFailed (Some (res_status res))
                 (''SPDY-over-WebSocket upgrade: expected 101, got '' @ to_decimal (res_status res))))
          else if header_text ''sec-websocket-protocol'' res \<noteq> SPDY_SUBPROTOCOL
          then (False, Err (ProtocolViolation ''SPDY-over-WebSocket subprotocol negotiation''
                 (unexpected ''server picked an unexpected subprotocol: ''
                   (header_text ''sec-websocket-protocol'' res) SPDY_SUBPROTOCOL)))
          else (case env_upgrade env res of
                  Inl e \<Rightarrow> (False, Err (Network (''failed to complete HTTP upgrade: '' @ e)))
                | Inr conn \<Rightarrow> (False, Ok conn)))"

definition perform_legacy_spdy_upgrade :: "http_env \<Rightarrow> http_request \<Rightarrow> bool \<times> (kube_error, conn_id) result" where
  "perform_legacy_spdy_upgrade env request =
     (case env_send env request of
        Inl e \<Rightarrow> (False, Err (KubeError e))
      | Inr res \<Rightarrow>
          if res_status res \<noteq> 101
          then (True, Err (UpgradeFailed (Some (res_status res))
                 (''legacy SPDY upgrade: expected 101, got '' @ to_decimal (res_status res))))
          else if \<not> eq_ignore_ascii_case (header_text ''upgrade'' res) LEGACY_SPDY_UPGRADE
          then (False, Err (ProtocolViolation ''legacy SPDY upgrade''
                 (unexpected ''server sent back an unexpected Upgrade header: '' (header_text ''upgrade'' res) LEGACY_SPDY_UPGRADE)))
          else if header_text ''x-stream-protocol-version'' res \<noteq> LEGACY_STREAM_PROTOCOL
          then (False, Err (ProtocolViolation ''legacy SPDY upgrade''
                 (unexpected ''server sent back an unexpected X-Stream-Protocol-Version: ''
                   (header_text ''x-stream-protocol-version'' res) LEGACY_STREAM_PROTOCOL)))
          else (case env_upgrade env res of
                  Inl e \<Rightarrow> (False, Err (Network (''failed to complete HTTP upgrade: '' @ e)))
                | Inr conn \<Rightarrow> (False, Ok conn)))"

definition upgrade_spdy_tunnel :: "http_env \<Rightarrow> cluster_uri \<Rightarrow> string \<Rightarrow> string \<Rightarrow> (kube_error, spdy_upgraded) result" where
  "upgrade_spdy_tunnel env cluster_url namespace pod = 
     (case build_spdy_tunnel_request (env_parse_uri env) cluster_url namespace pod of
        Inl e \<Rightarrow> Err e
      | Inr request \<Rightarrow>
          (case snd (perform_ws_upgrade env request) of
             Inl e \<Rightarrow> Err e
           | Inr conn \<Rightarrow> Ok \<lparr>upgraded = conn, up_protocol = Spdy31Tunnel\<rparr>))"

definition upgrade_legacy_spdy :: "http_env \<Rightarrow> cluster_uri \<Rightarrow> string \<Rightarrow> string \<Rightarrow> (kube_error, spdy_upgraded) result" where
  "upgrade_legacy_spdy env cluster_url namespace pod = 
     (case build_legacy_spdy_request (env_parse_uri env) cluster_url namespace pod of
        Inl e \<Rightarrow> Err e
      | Inr request \<Rightarrow>
          (case snd (perform_legacy_spdy_upgrade env request) of
             Inl e \<Rightarrow> Err e
           | Inr conn \<Rightarrow> Ok \<lparr>upgraded = conn, up_protocol = LegacySpdy\<rparr>))"

section \<open>The fallback\<close>

text \<open>
  \<open>display\<close> is the text that \<open>thiserror\<close> derives for an error.  The result carries the recovery signals sent;
  the two attempts have an environment each.
\<close>

definition should_fallback :: "kube_error \<Rightarrow> bool" where
  "should_fallback err = (case err of UpgradeFailed s m \<Rightarrow> True | ProtocolViolation c d \<Rightarrow> True | _ \<Rightarrow> False)"

definition fallback_status :: "kube_error \<Rightarrow> kube_error \<Rightarrow> nat option" where
  "fallback_status fallback_err ws_err =
     (case fallback_err of
        UpgradeFailed status m \<Rightarrow> status
      | _ \<Rightarrow> (case ws_err of UpgradeFailed status m \<Rightarrow> status | _ \<Rightarrow> None))"

definition upgrade_spdy_with_fallback ::
  "(kube_error \<Rightarrow> string) \<Rightarrow> http_env \<Rightarrow> http_env \<Rightarrow> cluster_uri \<Rightarrow> string \<Rightarrow> string
    \<Rightarrow> recovery_signal list \<times> (kube_error, spdy_upgraded) result" where
  "upgrade_spdy_with_fallback display env1 env2 cluster_url namespace pod =
     (case upgrade_spdy_tunnel env1 cluster_url namespace pod of
        Inr up \<Rightarrow> ([], Ok up)
      | Inl ws_err \<Rightarrow>
          if should_fallback ws_err then
            (case upgrade_legacy_spdy env2 cluster_url namespace pod of
               Inr up \<Rightarrow> ([], Ok up)
             | Inl fallback_err \<Rightarrow>
                 ([SignalUpgradeFailed (fallback_status fallback_err ws_err)
                    (''websocket upgrade rejected ('' @ display ws_err @ ''); legacy fallback also failed: '' @ display fallback_err)],
                  Err fallback_err))
          else
            ((case ws_err of
                KubeError e \<Rightarrow> [SignalUpgradeFailed None (display ws_err)]
              | Network e \<Rightarrow> [SignalUpgradeFailed None (display ws_err)]
              | _ \<Rightarrow> []),
             Err ws_err))"

end
