(* ===== verification/Connect_Laws.thy ===== *)
theory Connect_Laws
  imports Connect
begin

text \<open>
  What the upgrade promises: the request reaches the endpoint of the pod it names and no other, and
  the legacy protocol is tried exactly when the server has answered the first attempt and rejected it.
\<close>

section \<open>Paths\<close>

text \<open>The segments of a path, as a server splits it.\<close>

fun split_path :: "string \<Rightarrow> string list" where
  "split_path [] = [[]]"
| "split_path (c # cs) =
     (if c = CHR ''/'' then [] # split_path cs
      else case split_path cs of [] \<Rightarrow> [[c]] | s # ss \<Rightarrow> (c # s) # ss)"

lemma split_path_nonempty [simp]: "split_path s \<noteq> []"
  by (induction s rule: split_path.induct) (auto split: list.splits)

lemma split_path_segment: "CHR ''/'' \<notin> set s \<Longrightarrow> split_path (s @ CHR ''/'' # rest) = s # split_path rest"
  by (induction s) auto

lemma split_path_last: "CHR ''/'' \<notin> set s \<Longrightarrow> split_path s = [s]"
  by (induction s) auto

lemma name_is_valid_chars:
  assumes "name_is_valid s"
  shows "CHR ''/'' \<notin> set s" "CHR ''?'' \<notin> set s" "CHR ''#'' \<notin> set s" "s \<noteq> []"
  using assms by (auto simp: name_is_valid_def list_all_iff)

lemma portforward_path_segments:
  assumes "name_is_valid namespace" "name_is_valid pod"
  shows "split_path (portforward_path namespace pod)
    = [[], ''api'', ''v1'', ''namespaces'', namespace, ''pods'', pod, ''portforward'']"
proof -
  have eq: "portforward_path namespace pod = [] @ CHR ''/'' # (''api'' @ CHR ''/'' # (''v1'' @ CHR ''/'' #
    (''namespaces'' @ CHR ''/'' # (namespace @ CHR ''/'' # (''pods'' @ CHR ''/'' # (pod @ CHR ''/'' # ''portforward''))))))"
    by (simp add: portforward_path_def)
  note n = name_is_valid_chars(1) [OF assms(1)] name_is_valid_chars(1) [OF assms(2)]
  have lit: "CHR ''/'' \<notin> set ''api''" "CHR ''/'' \<notin> set ''v1''" "CHR ''/'' \<notin> set ''namespaces''"
    "CHR ''/'' \<notin> set ''pods''" "CHR ''/'' \<notin> set ''portforward''" "CHR ''/'' \<notin> set []" by simp_all
  show ?thesis unfolding eq
    by (simp only: split_path_segment [OF n(1)] split_path_segment [OF n(2)] split_path_segment [OF lit(1)]
        split_path_segment [OF lit(2)] split_path_segment [OF lit(3)] split_path_segment [OF lit(4)]
        split_path_segment [OF lit(6)] split_path_last [OF lit(5)])
qed

lemma portforward_path_plain:
  assumes "name_is_valid namespace" "name_is_valid pod"
  shows "CHR ''?'' \<notin> set (portforward_path namespace pod)" "CHR ''#'' \<notin> set (portforward_path namespace pod)"
  using name_is_valid_chars [OF assms(1)] name_is_valid_chars [OF assms(2)] by (auto simp: portforward_path_def)

lemma portforward_uri_Ok:
  assumes "portforward_uri parse url namespace pod = Ok u"
  obtains scheme authority where "uri_scheme url = Some scheme" "uri_authority url = Some authority"
    "u = scheme @ ''://'' @ authority @ portforward_path namespace pod" "name_is_valid namespace" "name_is_valid pod"
  using assms by (auto simp: portforward_uri_def Let_def split: if_splits option.splits sum.splits)

section \<open>Properties\<close>

text \<open>
  C34.  The request goes to the pod it names.  Whenever a request is built, for either protocol, its
  URI is the scheme and authority of the cluster followed by a path whose segments are exactly
  those of the port-forward endpoint with the given namespace and pod, without a query or a fragment:
  no name can add, remove or change a segment; and a name that could is refused.
\<close>

theorem request_path_exact:
  assumes "build = build_spdy_tunnel_request \<or> build = build_legacy_spdy_request"
  shows "case build parse url namespace pod of
      Inr req \<Rightarrow> (\<exists>scheme authority path. uri_scheme url = Some scheme \<and> uri_authority url = Some authority \<and>
        req_uri req = scheme @ ''://'' @ authority @ path \<and>
        split_path path = [[], ''api'', ''v1'', ''namespaces'', namespace, ''pods'', pod, ''portforward''] \<and>
        CHR ''?'' \<notin> set path \<and> CHR ''#'' \<notin> set path)
    | Inl e \<Rightarrow> \<exists>m. e = Configuration m"
proof (cases "portforward_uri parse url namespace pod")
  case (Inl e)
  then have "\<exists>m. e = Configuration m"
    by (auto simp: portforward_uri_def Let_def split: if_splits option.splits sum.splits)
  then show ?thesis using assms Inl by (auto simp: build_spdy_tunnel_request_def build_legacy_spdy_request_def)
next
  case (Inr u)
  obtain scheme authority where u: "uri_scheme url = Some scheme" "uri_authority url = Some authority"
    "u = scheme @ ''://'' @ authority @ portforward_path namespace pod" "name_is_valid namespace" "name_is_valid pod"
    using portforward_uri_Ok [OF Inr] by metis
  have "\<exists>req. build parse url namespace pod = Ok req \<and> req_uri req = u"
    using assms Inr by (auto simp: build_spdy_tunnel_request_def build_legacy_spdy_request_def)
  then show ?thesis
    using u portforward_path_segments [OF u(4,5)] portforward_path_plain [OF u(4,5)] by auto
qed

theorem request_path_exact_witness:
  "\<exists>path. ''https://k8s:6443/api/v1/namespaces/default/pods/web-0/portforward'' = ''https'' @ ''://'' @ ''k8s:6443'' @ path \<and>
     split_path path = [[], ''api'', ''v1'', ''namespaces'', ''default'', ''pods'', ''web-0'', ''portforward'']"
proof -
  let ?url = "\<lparr>uri_scheme = Some ''https'', uri_authority = Some ''k8s:6443''\<rparr>"
  have "build_legacy_spdy_request (\<lambda>_. Ok ()) ?url ''default'' ''web-0'' = Ok \<lparr>req_method = ''POST'',
     req_uri = ''https://k8s:6443/api/v1/namespaces/default/pods/web-0/portforward'',
     req_headers = [(''connection'', ''Upgrade''), (''upgrade'', LEGACY_SPDY_UPGRADE),
                         (''x-stream-protocol-version'', LEGACY_STREAM_PROTOCOL)]\<rparr>"
    by (simp add: build_legacy_spdy_request_def portforward_uri_def portforward_path_def name_is_valid_def is_ascii_control_def)
  with request_path_exact [where build = build_legacy_spdy_request and url = ?url
      and parse = "\<lambda>_. Ok ()" and namespace = "''default''" and pod = "''web-0''"] show ?thesis by auto
qed

text \<open>What counts as a rejection: the server answered, and did not switch to the tunnelled protocol.\<close>

definition ws_rejected :: "http_env \<Rightarrow> cluster_uri \<Rightarrow> string \<Rightarrow> string \<Rightarrow> bool" where
  "ws_rejected env url namespace pod \<longleftrightarrow>
     (\<exists>req res. build_spdy_tunnel_request (env_parse_uri env) url namespace pod = Ok req \<and>
        env_send env (ws_upgrade_request (env_ws_key env) req) = Ok res \<and>
        (res_status res \<noteq> 101 \<or> header_text ''sec-websocket-protocol'' res \<noteq> SPDY_SUBPROTOCOL))"

lemma build_tunnel_error:
  "build_spdy_tunnel_request parse url namespace pod = Err e \<Longrightarrow> \<exists>m. e = Configuration m"
  by (auto simp: build_spdy_tunnel_request_def portforward_uri_def Let_def split: if_splits option.splits sum.splits)

lemma tunnel_result:
  shows "upgrade_spdy_tunnel env url namespace pod = Err e \<Longrightarrow> should_fallback e = ws_rejected env url namespace pod \<and>
      (ws_rejected env url namespace pod \<or> (\<exists>m. e = Configuration m \<or> e = KubeError m \<or> e = Network m))"
    and "upgrade_spdy_tunnel env url namespace pod = Ok up \<Longrightarrow> \<not> ws_rejected env url namespace pod \<and> up_protocol up = Spdy31Tunnel"
  by (auto simp: upgrade_spdy_tunnel_def perform_ws_upgrade_def ws_rejected_def should_fallback_def
      dest!: build_tunnel_error split: sum.splits if_splits)

lemma legacy_protocol: "upgrade_legacy_spdy env url namespace pod = Ok up \<Longrightarrow> up_protocol up = LegacySpdy"
  by (auto simp: upgrade_legacy_spdy_def split: sum.splits)

lemma fallback_exact:
  assumes "upgrade_spdy_with_fallback display env1 env2 url namespace pod = (signals, r)"
  shows "r = (if ws_rejected env1 url namespace pod then upgrade_legacy_spdy env2 url namespace pod
              else upgrade_spdy_tunnel env1 url namespace pod) \<and>
    (case r of
       Inr up \<Rightarrow> signals = [] \<and> up_protocol up = (if ws_rejected env1 url namespace pod then LegacySpdy else Spdy31Tunnel)
     | Inl e \<Rightarrow> length signals = (if \<not> ws_rejected env1 url namespace pod \<and> (\<exists>m. e = Configuration m) then 0 else 1))"
proof (cases "upgrade_spdy_tunnel env1 url namespace pod")
  case (Inl e)
  note t = tunnel_result(1) [OF Inl]
  show ?thesis
  proof (cases "ws_rejected env1 url namespace pod")
    case True
    show ?thesis
    proof (cases "upgrade_legacy_spdy env2 url namespace pod")
      case legacy: (Inl e2)
      then have "r = Err e2" "length signals = 1"
        using t assms Inl True by (auto simp: upgrade_spdy_with_fallback_def)
      then show ?thesis using True legacy by simp
    next
      case legacy: (Inr up)
      then have "r = Ok up" "signals = []"
        using t assms Inl True by (auto simp: upgrade_spdy_with_fallback_def)
      then show ?thesis using True legacy legacy_protocol [OF legacy] by simp
    qed
  next
    case False
    then have "\<not> should_fallback e" "\<exists>m. e = Configuration m \<or> e = KubeError m \<or> e = Network m" using t by auto
    then have "r = Err e" "length signals = (if \<exists>m. e = Configuration m then 0 else 1)"
      using assms Inl by (auto simp: upgrade_spdy_with_fallback_def)
    then show ?thesis using False Inl by simp
  qed
next
  case (Inr up)
  then have "r = Ok up" "signals = []" using assms by (auto simp: upgrade_spdy_with_fallback_def)
  then show ?thesis using tunnel_result(2) [OF Inr] Inr by simp
qed

text \<open>
  C35.  The fallback is exact.  The legacy protocol is tried when, and only when, the server answered the
  WebSocket attempt with a rejection (another status than 101, or another subprotocol); a stream is
  returned with the protocol that was in fact negotiated; and a failure that concerns the server or
  the network reaches the recovery callback exactly once, a configuration error never.
\<close>

theorem upgrade_fallback_exact:
  assumes "upgrade_spdy_with_fallback display env1 env2 url namespace pod = (signals, r)"
  shows "r = (if ws_rejected env1 url namespace pod then upgrade_legacy_spdy env2 url namespace pod
              else upgrade_spdy_tunnel env1 url namespace pod) \<and>
    (case r of
       Inr up \<Rightarrow> signals = [] \<and> up_protocol up = (if ws_rejected env1 url namespace pod then LegacySpdy else Spdy31Tunnel)
     | Inl e \<Rightarrow> length signals = (if \<not> ws_rejected env1 url namespace pod \<and> (\<exists>m. e = Configuration m) then 0 else 1))"
  using fallback_exact [OF assms] .

lemma upgrade_header_case: "eq_ignore_ascii_case ''spdy/3.1'' LEGACY_SPDY_UPGRADE"
  by code_simp

definition example_env :: "http_response \<Rightarrow> http_env" where
  "example_env res = \<lparr>env_parse_uri = \<lambda>_. Ok (), env_send = \<lambda>_. Ok res, env_upgrade = \<lambda>_. Ok 9, env_ws_key = ''key''\<rparr>"

definition example_cluster :: cluster_uri where
  "example_cluster = \<lparr>uri_scheme = Some ''https'', uri_authority = Some ''k8s:6443''\<rparr>"

theorem upgrade_fallback_exact_witness:
  "snd (upgrade_spdy_with_fallback (\<lambda>_. []) (example_env \<lparr>res_status = 400, res_headers = []\<rparr>)
     (example_env \<lparr>res_status = 101, res_headers = [(''upgrade'', Some ''spdy/3.1''),
        (''x-stream-protocol-version'', Some LEGACY_STREAM_PROTOCOL)]\<rparr>) example_cluster ''default'' ''web-0'')
   = Ok \<lparr>upgraded = 9, up_protocol = LegacySpdy\<rparr>"
proof -
  have "ws_rejected (example_env \<lparr>res_status = 400, res_headers = []\<rparr>) example_cluster ''default'' ''web-0''"
    by (simp add: ws_rejected_def example_env_def example_cluster_def build_spdy_tunnel_request_def portforward_uri_def
        name_is_valid_def is_ascii_control_def)
  moreover have "upgrade_legacy_spdy (example_env \<lparr>res_status = 101, res_headers = [(''upgrade'', Some ''spdy/3.1''),
        (''x-stream-protocol-version'', Some LEGACY_STREAM_PROTOCOL)]\<rparr>) example_cluster ''default'' ''web-0''
      = Ok \<lparr>upgraded = 9, up_protocol = LegacySpdy\<rparr>"
    by (simp add: upgrade_legacy_spdy_def build_legacy_spdy_request_def perform_legacy_spdy_upgrade_def portforward_uri_def
        name_is_valid_def is_ascii_control_def example_env_def example_cluster_def header_text_def upgrade_header_case)
  ultimately show ?thesis
    using conjunct1 [OF upgrade_fallback_exact [OF prod.collapse [symmetric]]] by simp
qed

end
