(* ===== verification/Kube_Session.thy ===== *)
theory Kube_Session
  imports Session Stream_Model Kube_Types Connect
begin

text \<open>
  A port-forward session (\<^verbatim>\<open>crates/kube-portforward/src/session.rs\<close>), its streams (\<^verbatim>\<open>stream.rs\<close>), and how a
  client opens one (\<^verbatim>\<open>client.rs\<close>).

  A stream of this crate is a stream of the multiplexer; it is kept with the index of the handle that
  it was opened on, whose clone it holds in the source.  \<open>k_next_chan\<close> supplies the names of the channels
  that \<open>open_stream_pair\<close> creates.  Whether a data channel is closed is an argument (\<open>rx\<close>), the time that an
  open takes another.  The lock-free queue of spare streams is a list, first in first out.
\<close>

record kstream =
  ks_handle :: nat
  ks_stream :: stream

record ksession =
  k_inner :: session
  k_protocol :: subprotocol
  k_port :: u16
  next_request_id :: u32
  spare_streams :: "kstream list"
  replenishing :: bool
  k_next_chan :: chan_id

definition SPARE_STREAM_CAP :: nat where "SPARE_STREAM_CAP = 16"
definition SPARE_STREAM_LOW_WATERMARK :: nat where "SPARE_STREAM_LOW_WATERMARK = 8"

definition ksession_from_spdy :: "session \<Rightarrow> subprotocol \<Rightarrow> u16 \<Rightarrow> ksession" where
  "ksession_from_spdy s proto port =
     \<lparr>k_inner = s, k_protocol = proto, k_port = port, next_request_id = 0, spare_streams = [],
      replenishing = False, k_next_chan = 0\<rparr>"

section \<open>Opening\<close>

text \<open>The UTF-8 bytes of a string.\<close>

definition str_bytes :: "string \<Rightarrow> rstring" where
  "str_bytes s = map of_char s"

definition pair_headers :: "string \<Rightarrow> u16 \<Rightarrow> u32 \<Rightarrow> header list" where
  "pair_headers streamtype port request_id =
     [(str_bytes ''streamtype'', str_bytes streamtype),
      (str_bytes ''port'', str_bytes (to_decimal (unat port))),
      (str_bytes ''requestid'', str_bytes (to_decimal (unat request_id)))]"

definition portforward_headers :: "ksession \<Rightarrow> ksession \<times> header list \<times> header list" where
  "portforward_headers ks =
     (let request_id = next_request_id ks in
      (ks\<lparr>next_request_id := request_id + 1\<rparr>,
       pair_headers ''error'' (k_port ks) request_id, pair_headers ''data'' (k_port ks) request_id))"

definition open_new_stream :: "nat \<Rightarrow> ksession \<Rightarrow> ksession \<times> (kube_error, kstream) result" where
  "open_new_stream elapsed ks =
     (let (ks1, eh, dh) = portforward_headers ks;
          (s', r) = session_open_stream_pair elapsed eh dh (k_inner ks1);
          ks2 = ks1\<lparr>k_inner := s'\<rparr>
      in case r of
           Inl e \<Rightarrow> (ks2, Err (SpdyError e))
         | Inr (i, parts) \<Rightarrow>
             (ks2\<lparr>k_next_chan := k_next_chan ks2 + 2\<rparr>,
              Ok \<lparr>ks_handle = i, ks_stream = new_unopened parts (k_next_chan ks2) (k_next_chan ks2 + 1)\<rparr>))"

text \<open>Dropping a stream runs its guards on the handle it belongs to.\<close>

definition drop_kstream :: "kstream \<Rightarrow> ksession \<Rightarrow> ksession \<times> handle_effect list" where
  "drop_kstream s ks =
     (let p = pool (k_inner ks); (h', effs) = drop_stream (s_phase (ks_stream s)) (p ! ks_handle s)
      in (ks\<lparr>k_inner := (k_inner ks)\<lparr>pool := p[ks_handle s := h']\<rparr>\<rparr>, effs))"

definition spare_read_closed :: "(kstream \<Rightarrow> bool) \<Rightarrow> kstream \<Rightarrow> ksession \<Rightarrow> bool" where
  "spare_read_closed rx s ks = is_read_closed (rx s) (ks_stream s) (pool (k_inner ks) ! ks_handle s)"

text \<open>The loop over the spare streams: stale ones are discarded, the first live one is taken.\<close>

primrec pop_spares :: "(kstream \<Rightarrow> bool) \<Rightarrow> kstream list \<Rightarrow> ksession \<Rightarrow> ksession \<times> kstream option" where
  "pop_spares rx [] ks = (ks\<lparr>spare_streams := []\<rparr>, None)"
| "pop_spares rx (s # ss) ks =
     (if \<not> spare_read_closed rx s ks then (ks\<lparr>spare_streams := ss\<rparr>, Some s)
      else pop_spares rx ss (fst (drop_kstream s ks)))"

definition ksession_connect :: "(kstream \<Rightarrow> bool) \<Rightarrow> nat \<Rightarrow> ksession \<Rightarrow> ksession \<times> (kube_error, kstream) result" where
  "ksession_connect rx elapsed ks =
     (case pop_spares rx (spare_streams ks) ks of
        (ks1, Some s) \<Rightarrow> (ks1, Ok s)
      | (ks1, None) \<Rightarrow> open_new_stream elapsed ks1)"

section \<open>Streams\<close>

text \<open>
  The stream of this crate and its halves wrap those of the multiplexer; each method calls the method of
  the same name, which acts on the handle that the stream belongs to.
\<close>

definition on_handle ::
  "nat \<Rightarrow> ('s \<Rightarrow> mux_handle \<Rightarrow> 's \<times> mux_handle \<times> handle_effect list \<times> 'a) \<Rightarrow> 's \<Rightarrow> ksession
    \<Rightarrow> ksession \<times> 's \<times> handle_effect list \<times> 'a" where
  "on_handle i f s ks =
     (let p = pool (k_inner ks); (s', h', effs, r) = f s (p ! i)
      in (ks\<lparr>k_inner := (k_inner ks)\<lparr>pool := p[i := h']\<rparr>\<rparr>, s', effs, r))"

definition on_kstream ::
  "(stream \<Rightarrow> mux_handle \<Rightarrow> stream \<times> mux_handle \<times> handle_effect list \<times> 'a) \<Rightarrow> kstream \<Rightarrow> ksession
    \<Rightarrow> ksession \<times> kstream \<times> handle_effect list \<times> 'a" where
  "on_kstream f s ks =
     (let (ks', st, effs, r) = on_handle (ks_handle s) f (ks_stream s) ks in (ks', s\<lparr>ks_stream := st\<rparr>, effs, r))"

definition kstream_poll_read ::
  "open_env \<Rightarrow> recv_result \<Rightarrow> nat \<Rightarrow> kstream \<Rightarrow> ksession \<Rightarrow> ksession \<times> kstream \<times> handle_effect list \<times> (io_error, byte list) result poll" where
  "kstream_poll_read oe recv cap = on_kstream (stream_poll_read oe recv cap)"

definition kstream_poll_fill_buf ::
  "open_env \<Rightarrow> (nat \<Rightarrow> recv_result) \<Rightarrow> kstream \<Rightarrow> ksession
    \<Rightarrow> (ksession \<times> kstream \<times> handle_effect list \<times> (io_error, byte list) result poll) option" where
  "kstream_poll_fill_buf oe recv s ks =
     (case stream_poll_fill_buf oe recv (ks_stream s) (pool (k_inner ks) ! ks_handle s) of
        None \<Rightarrow> None
      | Some out \<Rightarrow> Some (on_kstream (\<lambda>_ _. out) s ks))"

definition kstream_consume :: "nat \<Rightarrow> kstream \<Rightarrow> kstream" where
  "kstream_consume amt s = s\<lparr>ks_stream := stream_consume amt (ks_stream s)\<rparr>"

definition kstream_poll_write ::
  "open_env \<Rightarrow> window_env \<Rightarrow> reserve_result \<Rightarrow> bool \<Rightarrow> nat \<Rightarrow> byte list \<Rightarrow> kstream \<Rightarrow> ksession
    \<Rightarrow> ksession \<times> kstream \<times> handle_effect list \<times> (io_error, nat) result poll" where
  "kstream_poll_write oe env reserve ok task buf = on_kstream (stream_poll_write oe env reserve ok task buf)"

definition kstream_poll_flush :: "kstream \<Rightarrow> (io_error, unit) result poll" where
  "kstream_poll_flush s = stream_poll_flush (ks_stream s)"

definition kstream_poll_shutdown ::
  "open_env \<Rightarrow> reserve_result \<Rightarrow> bool \<Rightarrow> kstream \<Rightarrow> ksession \<Rightarrow> ksession \<times> kstream \<times> handle_effect list \<times> (io_error, unit) result poll" where
  "kstream_poll_shutdown oe reserve ok = on_kstream (stream_poll_shutdown oe reserve ok)"

definition kstream_split :: "kstream \<Rightarrow> open_phase \<times> data_stream \<times> error_stream" where
  "kstream_split s = stream_split (ks_stream s)"

text \<open>The halves, with the phase that they share.\<close>

definition kdata_poll_read ::
  "open_env \<Rightarrow> recv_result \<Rightarrow> nat \<Rightarrow> nat \<Rightarrow> open_phase \<times> data_stream \<Rightarrow> ksession
    \<Rightarrow> ksession \<times> (open_phase \<times> data_stream) \<times> handle_effect list \<times> (io_error, byte list) result poll" where
  "kdata_poll_read oe recv cap i = on_handle i (\<lambda>(ph, d) h.
     case data_poll_read oe recv cap ph d h of (ph', d', h', effs, r) \<Rightarrow> ((ph', d'), h', effs, r))"

definition kdata_poll_fill_buf ::
  "open_env \<Rightarrow> (nat \<Rightarrow> recv_result) \<Rightarrow> nat \<Rightarrow> open_phase \<times> data_stream \<Rightarrow> ksession
    \<Rightarrow> (ksession \<times> (open_phase \<times> data_stream) \<times> handle_effect list \<times> (io_error, byte list) result poll) option" where
  "kdata_poll_fill_buf oe recv i s ks =
     (case data_poll_fill_buf oe recv (fst s) (snd s) (pool (k_inner ks) ! i) of
        None \<Rightarrow> None
      | Some (ph', d', h', effs, r) \<Rightarrow> Some (on_handle i (\<lambda>_ _. ((ph', d'), h', effs, r)) s ks))"

definition kdata_consume :: "nat \<Rightarrow> open_phase \<times> data_stream \<Rightarrow> open_phase \<times> data_stream" where
  "kdata_consume amt s = (fst s, data_consume amt (snd s))"

definition kdata_poll_write ::
  "open_env \<Rightarrow> window_env \<Rightarrow> reserve_result \<Rightarrow> bool \<Rightarrow> nat \<Rightarrow> byte list \<Rightarrow> nat \<Rightarrow> open_phase \<times> data_stream \<Rightarrow> ksession
    \<Rightarrow> ksession \<times> (open_phase \<times> data_stream) \<times> handle_effect list \<times> (io_error, nat) result poll" where
  "kdata_poll_write oe env reserve ok task buf i = on_handle i (\<lambda>(ph, d) h.
     case data_poll_write oe env reserve ok task buf ph d h of (ph', d', h', effs, r) \<Rightarrow> ((ph', d'), h', effs, r))"

definition kdata_poll_shutdown ::
  "open_env \<Rightarrow> reserve_result \<Rightarrow> bool \<Rightarrow> nat \<Rightarrow> open_phase \<times> data_stream \<Rightarrow> ksession
    \<Rightarrow> ksession \<times> (open_phase \<times> data_stream) \<times> handle_effect list \<times> (io_error, unit) result poll" where
  "kdata_poll_shutdown oe reserve ok i = on_handle i (\<lambda>(ph, d) h.
     case data_poll_shutdown oe reserve ok ph d h of (ph', d', h', effs, r) \<Rightarrow> ((ph', d'), h', effs, r))"

definition kerror_poll_read ::
  "open_env \<Rightarrow> recv_result \<Rightarrow> nat \<Rightarrow> nat \<Rightarrow> open_phase \<times> error_stream \<Rightarrow> ksession
    \<Rightarrow> ksession \<times> (open_phase \<times> error_stream) \<times> handle_effect list \<times> (io_error, byte list) result poll" where
  "kerror_poll_read oe recv cap i = on_handle i (\<lambda>(ph, e) h.
     case error_poll_read oe recv cap ph e h of (ph', e', h', effs, r) \<Rightarrow> ((ph', e'), h', effs, r))"

section \<open>Totals\<close>

definition ks_is_full :: "ksession \<Rightarrow> bool" where
  "ks_is_full ks = session_is_full (k_inner ks)"

definition ks_is_drained :: "ksession \<Rightarrow> bool" where
  "ks_is_drained ks = session_is_drained (k_inner ks)"

definition ks_is_cancelled :: "ksession \<Rightarrow> bool" where
  "ks_is_cancelled ks = session_cancelled (k_inner ks)"

definition ks_capacity :: "ksession \<Rightarrow> nat" where
  "ks_capacity ks = session_capacity (k_inner ks)"

definition ks_operating_capacity :: "ksession \<Rightarrow> nat" where
  "ks_operating_capacity ks = session_operating_capacity (k_inner ks)"

definition ks_in_use :: "ksession \<Rightarrow> nat" where
  "ks_in_use ks = session_in_use (k_inner ks)"

definition ks_available :: "ksession \<Rightarrow> nat" where
  "ks_available ks = session_available (k_inner ks)"

definition spare_count :: "ksession \<Rightarrow> nat" where
  "spare_count ks = length (spare_streams ks)"

definition needs_replenish :: "ksession \<Rightarrow> bool" where
  "needs_replenish ks \<longleftrightarrow> spare_count ks \<le> SPARE_STREAM_LOW_WATERMARK"

text \<open>Tripping the session's cancellation token, which is what closing does to the shared state.\<close>

definition ksession_cancel :: "ksession \<Rightarrow> ksession" where
  "ksession_cancel ks = ks\<lparr>k_inner := session_close (k_inner ks)\<rparr>"

section \<open>Replenishing\<close>

lemma open_new_stream_spares [simp]: "spare_streams (fst (open_new_stream elapsed ks)) = spare_streams ks"
  by (simp add: open_new_stream_def portforward_headers_def Let_def split: prod.splits sum.splits)

function replenish_loop :: "nat \<Rightarrow> ksession \<Rightarrow> ksession" where
  "replenish_loop elapsed ks =
     (if \<not> length (spare_streams ks) < SPARE_STREAM_CAP then ks
      else if ks_is_full ks \<or> ks_is_cancelled ks then ks
      else let (ks1, r) = open_new_stream elapsed ks in
      case r of
        Inl e \<Rightarrow> ks1
      | Inr s \<Rightarrow>
          if length (spare_streams ks1) < SPARE_STREAM_CAP
          then replenish_loop elapsed (ks1\<lparr>spare_streams := spare_streams ks1 @ [s]\<rparr>)
          else fst (drop_kstream s ks1))"
  by pat_completeness auto

termination
proof (relation "measure (\<lambda>(elapsed, ks). SPARE_STREAM_CAP - length (spare_streams ks))")
  fix elapsed ks x xa y x2
  assume a: "\<not> \<not> length (spare_streams ks) < SPARE_STREAM_CAP" "x = open_new_stream elapsed ks" "(xa, y) = x"
  then have "spare_streams xa = spare_streams ks"
    using open_new_stream_spares [of elapsed ks] by (metis fst_conv)
  then show "((elapsed, xa\<lparr>spare_streams := spare_streams xa @ [x2]\<rparr>), elapsed, ks)
      \<in> measure (\<lambda>(elapsed, ks). SPARE_STREAM_CAP - length (spare_streams ks))"
    using a(1) by simp
qed simp

declare replenish_loop.simps [simp del]

text \<open>The flag keeps a second replenisher out; the guard clears it however the loop ends.\<close>

definition replenish_guard_drop :: "ksession \<Rightarrow> ksession" where
  [simp]: "replenish_guard_drop ks = ks\<lparr>replenishing := False\<rparr>"

definition replenish_spare_streams :: "nat \<Rightarrow> ksession \<Rightarrow> ksession" where
  "replenish_spare_streams elapsed ks =
     (if replenishing ks then ks
      else replenish_guard_drop (replenish_loop elapsed (ks\<lparr>replenishing := True\<rparr>)))"

section \<open>The client\<close>

definition DEFAULT_SPDY_POOL_SIZE :: nat where "DEFAULT_SPDY_POOL_SIZE = 6"

record kclient =
  kc_kube :: nat
  kc_cluster_url :: cluster_uri

record client_builder =
  cb_kube :: "nat option"
  cb_cluster_url :: "cluster_uri option"

definition client_builder_default :: client_builder where
  "client_builder_default = \<lparr>cb_kube = None, cb_cluster_url = None\<rparr>"

definition client_builder_kube_client :: "nat \<Rightarrow> client_builder \<Rightarrow> client_builder" where
  "client_builder_kube_client c b = b\<lparr>cb_kube := Some c\<rparr>"

definition client_builder_cluster_url :: "cluster_uri \<Rightarrow> client_builder \<Rightarrow> client_builder" where
  "client_builder_cluster_url u b = b\<lparr>cb_cluster_url := Some u\<rparr>"

definition client_builder_build :: "client_builder \<Rightarrow> (kube_error, kclient) result" where
  "client_builder_build b =
     (case cb_kube b of
        None \<Rightarrow> Err (Configuration ''kube_client is required'')
      | Some k \<Rightarrow>
          (case cb_cluster_url b of
             None \<Rightarrow> Err (Configuration ''cluster_url is required'')
           | Some u \<Rightarrow> Ok \<lparr>kc_kube = k, kc_cluster_url = u\<rparr>))"

text \<open>The session builder; a token that is given may be tripped already.\<close>

record session_builder =
  sb_client :: kclient
  sb_namespace :: string
  sb_pod :: string
  sb_port :: u16
  sb_cancel :: "bool option"
  sb_recovery_callback :: "callback_id option"
  sb_pool_size :: nat

definition client_session :: "kclient \<Rightarrow> string \<Rightarrow> string \<Rightarrow> u16 \<Rightarrow> session_builder" where
  "client_session c namespace pod port =
     \<lparr>sb_client = c, sb_namespace = namespace, sb_pod = pod, sb_port = port, sb_cancel = None,
      sb_recovery_callback = None, sb_pool_size = DEFAULT_SPDY_POOL_SIZE\<rparr>"

definition session_cancellation_token :: "bool \<Rightarrow> session_builder \<Rightarrow> session_builder" where
  "session_cancellation_token tripped b = b\<lparr>sb_cancel := Some tripped\<rparr>"

definition spdy_pool_size :: "nat \<Rightarrow> session_builder \<Rightarrow> session_builder" where
  "spdy_pool_size n b = b\<lparr>sb_pool_size := max n 1\<rparr>"

definition session_on_recovery :: "callback_id \<Rightarrow> session_builder \<Rightarrow> session_builder" where
  "session_on_recovery cb b = b\<lparr>sb_recovery_callback := Some cb\<rparr>"

text \<open>One of the further upgrades, over the protocol that the probe settled on.\<close>

definition extra_upgrade :: "subprotocol \<Rightarrow> http_env \<Rightarrow> cluster_uri \<Rightarrow> string \<Rightarrow> string \<Rightarrow> (kube_error, spdy_upgraded) result" where
  "extra_upgrade proto env url namespace pod =
     (case proto of
        Spdy31Tunnel \<Rightarrow> upgrade_spdy_tunnel env url namespace pod
      | LegacySpdy \<Rightarrow> upgrade_legacy_spdy env url namespace pod)"

text \<open>
  The upgrades run in parallel; \<open>tasks\<close> lists their environments in the order they finish, \<open>None\<close> for a
  task that panics.  Those that fail are left out.  \<open>spawn\<close> is what \<open>MuxHandle::spawn\<close> makes of a connection.
\<close>

definition extra_upgrades ::
  "subprotocol \<Rightarrow> http_env option list \<Rightarrow> cluster_uri \<Rightarrow> string \<Rightarrow> string \<Rightarrow> conn_id list" where
  "extra_upgrades proto tasks url namespace pod =
     concat (map (\<lambda>t. case t of
          None \<Rightarrow> []
        | Some env \<Rightarrow> (case extra_upgrade proto env url namespace pod of Inl e \<Rightarrow> [] | Inr up \<Rightarrow> [upgraded up])) tasks)"

definition open_spdy_session ::
  "(kube_error \<Rightarrow> string) \<Rightarrow> http_env \<Rightarrow> http_env \<Rightarrow> http_env option list \<Rightarrow> (conn_id \<Rightarrow> (spdy_error, mux_handle) result)
    \<Rightarrow> cluster_uri \<Rightarrow> string \<Rightarrow> string \<Rightarrow> u16 \<Rightarrow> nat \<Rightarrow> recovery_signal list \<times> (kube_error, ksession) result" where
  "open_spdy_session display env1 env2 tasks spawn url namespace pod port n =
     (let (signals, first) = upgrade_spdy_with_fallback display env1 env2 url namespace pod in
      case first of
        Inl e \<Rightarrow> (signals, Err e)
      | Inr up \<Rightarrow>
          (let extra = (if n > 1 then extra_upgrades (up_protocol up) (take (n - 1) tasks) url namespace pod else []) in
           case session_with_config (map spawn (upgraded up # extra)) of
             Inl e \<Rightarrow> (signals, Err (SpdyError e))
           | Inr s \<Rightarrow> (signals, Ok (ksession_from_spdy s (up_protocol up) port))))"

text \<open>
  A session opened under a token that is tripped is cancelled from the start.  The signals go to the callback that
  was given, if any.
\<close>

definition session_builder_open ::
  "(kube_error \<Rightarrow> string) \<Rightarrow> http_env \<Rightarrow> http_env \<Rightarrow> http_env option list \<Rightarrow> (conn_id \<Rightarrow> (spdy_error, mux_handle) result)
    \<Rightarrow> session_builder \<Rightarrow> (callback_id \<times> recovery_signal) list \<times> (kube_error, ksession) result" where
  "session_builder_open display env1 env2 tasks spawn b =
     (let (signals, r) = open_spdy_session display env1 env2 tasks spawn (kc_cluster_url (sb_client b)) (sb_namespace b)
            (sb_pod b) (sb_port b) (sb_pool_size b)
      in (callback_calls (sb_recovery_callback b) signals, case r of
            Inl e \<Rightarrow> Err e
          | Inr ks \<Rightarrow> Ok (if sb_cancel b = Some True then ksession_cancel ks else ks)))"

end
