(* ===== verification/Kube_Session_Laws.thy ===== *)
theory Kube_Session_Laws
  imports Kube_Session Session_Laws Stream_Laws Framing
begin

text \<open>
  What a port-forward session promises: slots of the multiplexer are never leaked, whatever happens to
  the spare streams, and every pair of streams it opens carries the port of the session and a request
  identifier of its own, in a form that the codec transports unchanged.
\<close>

section \<open>Slots\<close>

text \<open>A stream, spare or in use, belongs to a handle of the pool and still holds its slot.\<close>

definition spare_ok :: "ksession \<Rightarrow> kstream \<Rightarrow> bool" where
  "spare_ok ks s \<longleftrightarrow> ks_handle s < length (pool (k_inner ks)) \<and> phase_ok (s_phase (ks_stream s))"

definition ks_inv :: "ksession \<Rightarrow> bool" where
  "ks_inv ks \<longleftrightarrow> 0 < length (pool (k_inner ks)) \<and> length (pool (k_inner ks)) < 2 ^ 64 \<and>
     list_all (spare_ok ks) (spare_streams ks) \<and> length (spare_streams ks) \<le> SPARE_STREAM_CAP"

definition spares_on :: "nat \<Rightarrow> kstream list \<Rightarrow> nat" where
  "spares_on i ss = length (filter (\<lambda>s. ks_handle s = i) ss)"

text \<open>The slots of a handle that are with users of the session rather than with its spare streams.\<close>

definition user_slots :: "ksession \<Rightarrow> nat \<Rightarrow> u64" where
  "user_slots ks i = active_pairs (pool (k_inner ks) ! i) - word_of_nat (spares_on i (spare_streams ks))"

lemma spares_on_simps [simp]:
  "spares_on i [] = 0" "spares_on i (s # ss) = (if ks_handle s = i then Suc (spares_on i ss) else spares_on i ss)"
  "spares_on i (ss @ ts) = spares_on i ss + spares_on i ts"
  by (simp_all add: spares_on_def)

lemma spare_ok_cong: "length (pool (k_inner ks')) = length (pool (k_inner ks)) \<Longrightarrow> spare_ok ks' = spare_ok ks"
  by (simp add: spare_ok_def fun_eq_iff)

lemma spare_ok_updates [simp]:
  "spare_ok (ks\<lparr>spare_streams := ss\<rparr>) = spare_ok ks" "spare_ok (ks\<lparr>replenishing := b\<rparr>) = spare_ok ks"
  by (simp_all add: spare_ok_def fun_eq_iff)

lemma ks_inv_cong:
  "length (pool (k_inner ks')) = length (pool (k_inner ks)) \<Longrightarrow> spare_streams ks' = spare_streams ks \<Longrightarrow> ks_inv ks' = ks_inv ks"
  by (simp add: ks_inv_def spare_ok_cong [of ks' ks])

lemma session_open_length:
  assumes "session_open_stream_pair elapsed eh dh s = (s', r)" "0 < length (pool s)" "length (pool s) < 2 ^ 64"
  shows "length (pool s') = length (pool s)"
  using session_open_cases [OF assms(1) refl assms(2,3)] by (auto split: sum.splits)

lemma open_new_stream_slots:
  assumes "open_new_stream elapsed ks = (ks', r)" "ks_inv ks"
  shows "ks_inv ks' \<and> spare_streams ks' = spare_streams ks \<and> k_port ks' = k_port ks \<and>
    (case r of
       Inr s \<Rightarrow> spare_ok ks' s \<and>
         (\<forall>i<length (pool (k_inner ks)). active_pairs (pool (k_inner ks') ! i)
            = active_pairs (pool (k_inner ks) ! i) + (if i = ks_handle s then 1 else 0))
     | Inl e \<Rightarrow> pool (k_inner ks') = pool (k_inner ks))"
proof -
  let ?eh = "pair_headers ''error'' (k_port ks) (next_request_id ks)"
  let ?dh = "pair_headers ''data'' (k_port ks) (next_request_id ks)"
  obtain s' q where o: "session_open_stream_pair elapsed ?eh ?dh (k_inner ks) = (s', q)" by force
  have n: "0 < length (pool (k_inner ks))" "length (pool (k_inner ks)) < 2 ^ 64" using assms(2) by (simp_all add: ks_inv_def)
  note c = session_open_cases [OF o refl n]
  have len: "length (pool s') = length (pool (k_inner ks))" using c by (auto split: sum.splits)
  show ?thesis
  proof (cases q)
    case (Inl e)
    then have e: "ks' = ks\<lparr>next_request_id := next_request_id ks + 1, k_inner := s'\<rparr>" "r = Err (SpdyError e)"
      using assms(1) o by (simp_all add: open_new_stream_def portforward_headers_def Let_def)
    have "pool s' = pool (k_inner ks)" using c Inl by simp
    then show ?thesis using e assms(2) ks_inv_cong [of ks' ks] by simp
  next
    case (Inr x)
    obtain i parts where x: "x = (i, parts)" by force
    have p: "i < length (pool (k_inner ks))" "pool s' = (pool (k_inner ks))[i := takes_slot (pool (k_inner ks) ! i)]"
      using c Inr x by auto
    have e: "ks' = ks\<lparr>next_request_id := next_request_id ks + 1, k_inner := s', k_next_chan := k_next_chan ks + 2\<rparr>"
      "r = Ok \<lparr>ks_handle = i, ks_stream = new_unopened parts (k_next_chan ks) (k_next_chan ks + 1)\<rparr>"
      using assms(1) o Inr x by (simp_all add: open_new_stream_def portforward_headers_def Let_def)
    have "ks_inv ks'" using assms(2) len e(1) ks_inv_cong [of ks' ks] by simp
    then show ?thesis
      using e p by (auto simp: spare_ok_def new_unopened_def phase_ok_def pair_release_guard_new_def takes_slot_def nth_list_update)
  qed
qed

lemma open_new_stream_length:
  assumes "open_new_stream elapsed ks = (ks', r)" "ks_inv ks"
  shows "length (pool (k_inner ks')) = length (pool (k_inner ks))"
  using assms(2) session_open_length [of elapsed _ _ "k_inner ks"] assms(1)
  by (auto simp: open_new_stream_def portforward_headers_def Let_def ks_inv_def split: prod.splits sum.splits)

lemma drop_kstream_slots:
  assumes "spare_ok ks s"
  shows "pool (k_inner (fst (drop_kstream s ks)))
      = (pool (k_inner ks))[ks_handle s := release_pair (pool (k_inner ks) ! ks_handle s)]"
    and "spare_streams (fst (drop_kstream s ks)) = spare_streams ks"
  using assms by (auto simp: drop_kstream_def drop_stream_def drop_guard_def drop_release_guard_def spare_ok_def phase_ok_def Let_def split: open_phase.splits)

lemma pop_spares_slots:
  assumes "pop_spares rx ss ks = (ks', r)" "list_all (spare_ok ks) ss"
  shows "length (pool (k_inner ks')) = length (pool (k_inner ks)) \<and> k_port ks' = k_port ks \<and>
    (\<exists>dropped rest. ss = dropped @ rest \<and> spare_streams ks' = (if r = None then rest else tl rest) \<and>
       (r = None \<longrightarrow> rest = []) \<and> (\<forall>s. r = Some s \<longrightarrow> rest \<noteq> [] \<and> hd rest = s) \<and>
       (\<forall>i<length (pool (k_inner ks)). active_pairs (pool (k_inner ks') ! i)
          = active_pairs (pool (k_inner ks) ! i) - word_of_nat (spares_on i dropped)))"
  using assms
proof (induction ss arbitrary: ks)
  case Nil
  then show ?case by (auto intro!: exI [of _ "[]"])
next
  case (Cons s ss)
  show ?case
  proof (cases "spare_read_closed rx s ks")
    case False
    then show ?thesis using Cons.prems by (intro conjI exI [of _ "[]"] exI [of _ "s # ss"]) auto
  next
    case True
    let ?ks1 = "fst (drop_kstream s ks)"
    have s: "spare_ok ks s" "list_all (spare_ok ks) ss" using Cons.prems by simp_all
    have len: "length (pool (k_inner ?ks1)) = length (pool (k_inner ks))" "k_port ?ks1 = k_port ks"
      using drop_kstream_slots(1) [OF s(1)] by (simp_all add: drop_kstream_def Let_def split: prod.splits)
    have "pop_spares rx ss ?ks1 = (ks', r)" "list_all (spare_ok ?ks1) ss"
      using True Cons.prems(1) s(2) spare_ok_cong [OF len(1)] by simp_all
    from Cons.IH [OF this] obtain dropped rest where d: "ss = dropped @ rest"
      "spare_streams ks' = (if r = None then rest else tl rest)" "r = None \<longrightarrow> rest = []"
      "\<forall>s. r = Some s \<longrightarrow> rest \<noteq> [] \<and> hd rest = s"
      "\<forall>i<length (pool (k_inner ?ks1)). active_pairs (pool (k_inner ks') ! i)
          = active_pairs (pool (k_inner ?ks1) ! i) - word_of_nat (spares_on i dropped)"
      and l: "length (pool (k_inner ks')) = length (pool (k_inner ?ks1))" "k_port ks' = k_port ?ks1" by blast
    have "active_pairs (pool (k_inner ks') ! i) = active_pairs (pool (k_inner ks) ! i) - word_of_nat (spares_on i (s # dropped))"
      if "i < length (pool (k_inner ks))" for i
      using d(5) that len drop_kstream_slots(1) [OF s(1)] by (auto simp: nth_list_update release_pair_def)
    then show ?thesis using d(1-4) l len by (intro conjI exI [of _ "s # dropped"] exI [of _ rest]) auto
  qed
qed

lemma connect_slots:
  assumes "ksession_connect rx elapsed ks = (ks', r)" "ks_inv ks"
  shows "ks_inv ks' \<and> (case r of
      Inr s \<Rightarrow> spare_ok ks' s \<and> (\<forall>i<length (pool (k_inner ks)). user_slots ks' i = user_slots ks i + (if i = ks_handle s then 1 else 0))
    | Inl e \<Rightarrow> \<forall>i<length (pool (k_inner ks)). user_slots ks' i = user_slots ks i)"
proof -
  obtain ks1 q where p: "pop_spares rx (spare_streams ks) ks = (ks1, q)" by force
  have ok: "list_all (spare_ok ks) (spare_streams ks)" using assms(2) by (simp add: ks_inv_def)
  from pop_spares_slots [OF p this] obtain dropped rest where len: "length (pool (k_inner ks1)) = length (pool (k_inner ks))"
    and d: "spare_streams ks = dropped @ rest" "spare_streams ks1 = (if q = None then rest else tl rest)"
      "q = None \<longrightarrow> rest = []" "\<forall>s. q = Some s \<longrightarrow> rest \<noteq> [] \<and> hd rest = s"
    and a: "\<forall>i<length (pool (k_inner ks)). active_pairs (pool (k_inner ks1) ! i)
          = active_pairs (pool (k_inner ks) ! i) - word_of_nat (spares_on i dropped)" by blast
  show ?thesis
  proof (cases q)
    case None
    have inv1: "ks_inv ks1" using assms(2) len d None by (simp add: ks_inv_def spare_ok_cong [OF len])
    have o: "open_new_stream elapsed ks1 = (ks', r)" using assms(1) p None by (simp add: ksession_connect_def)
    have u: "user_slots ks1 i = user_slots ks i" if "i < length (pool (k_inner ks))" for i
      using a d None that by (simp add: user_slots_def)
    show ?thesis
      using open_new_stream_slots [OF o inv1] u len by (cases r) (auto simp: user_slots_def algebra_simps)
  next
    case (Some s)
    then obtain rest' where rest: "rest = s # rest'" using d(4) by (cases rest) auto
    have e: "ks' = ks1" "r = Ok s" using assms(1) p Some by (simp_all add: ksession_connect_def)
    have "ks_inv ks1" using assms(2) d rest Some len by (auto simp: ks_inv_def spare_ok_cong [OF len])
    moreover have "spare_ok ks1 s" using ok d rest by (simp add: spare_ok_cong [OF len])
    moreover have "user_slots ks1 i = user_slots ks i + (if i = ks_handle s then 1 else 0)"
      if "i < length (pool (k_inner ks))" for i
      using a d rest Some that by (simp add: user_slots_def)
    ultimately show ?thesis using e by simp
  qed
qed

lemma replenish_loop_slots:
  "ks_inv ks \<Longrightarrow> ks_inv (replenish_loop elapsed ks) \<and> length (pool (k_inner (replenish_loop elapsed ks))) = length (pool (k_inner ks)) \<and>
     (\<forall>i<length (pool (k_inner ks)). user_slots (replenish_loop elapsed ks) i = user_slots ks i)"
proof (induction elapsed ks rule: replenish_loop.induct)
  case (1 elapsed ks)
  obtain ks1 r where o: "open_new_stream elapsed ks = (ks1, r)" by force
  note P = open_new_stream_slots [OF o "1.prems"]
  show ?case
  proof (cases "\<not> length (spare_streams ks) < SPARE_STREAM_CAP \<or> ks_is_full ks \<or> ks_is_cancelled ks")
    case True
    then show ?thesis using "1.prems" by (subst (1 2 3) replenish_loop.simps) auto
  next
    case False
    show ?thesis
    proof (cases r)
      case (Inl e)
      then have "replenish_loop elapsed ks = ks1" using False o by (subst replenish_loop.simps) simp
      then show ?thesis using P Inl by (simp add: user_slots_def)
    next
      case (Inr s)
      let ?ks2 = "ks1\<lparr>spare_streams := spare_streams ks1 @ [s]\<rparr>"
      have sp: "spare_streams ks1 = spare_streams ks" "length (spare_streams ks1) < SPARE_STREAM_CAP" using P False by auto
      have l: "replenish_loop elapsed ks = replenish_loop elapsed ?ks2"
        using False o Inr sp by (subst replenish_loop.simps) simp
      have len: "length (pool (k_inner ks1)) = length (pool (k_inner ks))" using open_new_stream_length [OF o "1.prems"] .
      have inv2: "ks_inv ?ks2"
        using P Inr sp(2) by (auto simp: ks_inv_def)
      have "user_slots ?ks2 i = user_slots ks i" if "i < length (pool (k_inner ks))" for i
        using P Inr sp(1) that by (simp add: user_slots_def)
      then show ?thesis using "1.IH" [OF _ _ refl _ Inr _ inv2] False o sp(2) l len by simp
    qed
  qed
qed

lemma replenish_slots:
  assumes "ks_inv ks"
  shows "ks_inv (replenish_spare_streams elapsed ks) \<and>
    (\<forall>i<length (pool (k_inner ks)). user_slots (replenish_spare_streams elapsed ks) i = user_slots ks i)"
proof (cases "replenishing ks")
  case False
  let ?ks = "ks\<lparr>replenishing := True\<rparr>"
  have "ks_inv ?ks" using assms by (simp add: ks_inv_def)
  from replenish_loop_slots [OF this, of elapsed] show ?thesis
    using False by (auto simp: replenish_spare_streams_def ks_inv_def user_slots_def)
qed (use assms in \<open>simp add: replenish_spare_streams_def\<close>)

section \<open>A session in use\<close>

text \<open>
  The operations of a session and its users, in the order they take effect: a connect hands a stream out,
  the replenisher runs, or a user reads, writes, shuts down or drops one of the streams it holds.
\<close>

datatype ks_op =
    KConnect "kstream \<Rightarrow> bool" nat
  | KReplenish nat
  | KRead nat open_env recv_result nat
  | KWrite nat open_env window_env reserve_result bool nat "byte list"
  | KShutdown nat open_env reserve_result bool
  | KDrop nat

definition use_held ::
  "nat \<Rightarrow> (kstream \<Rightarrow> ksession \<Rightarrow> ksession \<times> kstream \<times> handle_effect list \<times> 'a) \<Rightarrow> ksession \<times> kstream list \<Rightarrow> ksession \<times> kstream list" where
  "use_held n f st =
     (let (ks, held) = st in
      if n < length held then (case f (held ! n) ks of (ks', s', effs, r) \<Rightarrow> (ks', held[n := s'])) else st)"

fun ks_step :: "ks_op \<Rightarrow> ksession \<times> kstream list \<Rightarrow> ksession \<times> kstream list" where
  "ks_step (KConnect rx elapsed) (ks, held) =
     (case ksession_connect rx elapsed ks of (ks', Inr s) \<Rightarrow> (ks', s # held) | (ks', Inl e) \<Rightarrow> (ks', held))"
| "ks_step (KReplenish elapsed) (ks, held) = (replenish_spare_streams elapsed ks, held)"
| "ks_step (KRead n oe recv cap) st = use_held n (kstream_poll_read oe recv cap) st"
| "ks_step (KWrite n oe env reserve ok task buf) st = use_held n (kstream_poll_write oe env reserve ok task buf) st"
| "ks_step (KShutdown n oe reserve ok) st = use_held n (kstream_poll_shutdown oe reserve ok) st"
| "ks_step (KDrop n) (ks, held) =
     (if n < length held then (fst (drop_kstream (held ! n) ks), take n held @ drop (Suc n) held) else (ks, held))"

definition slots_exact :: "nat \<Rightarrow> ksession \<times> kstream list \<Rightarrow> bool" where
  "slots_exact n st = (case st of (ks, held) \<Rightarrow>
     ks_inv ks \<and> length (pool (k_inner ks)) = n \<and> list_all (spare_ok ks) held \<and>
     (\<forall>i<n. user_slots ks i = word_of_nat (spares_on i held)))"

lemma connect_length:
  assumes "ksession_connect rx elapsed ks = (ks', r)" "ks_inv ks"
  shows "length (pool (k_inner ks')) = length (pool (k_inner ks))"
proof -
  obtain ks1 q where p: "pop_spares rx (spare_streams ks) ks = (ks1, q)" by force
  have "list_all (spare_ok ks) (spare_streams ks)" using assms(2) by (simp add: ks_inv_def)
  note P = pop_spares_slots [OF p this]
  then have l: "length (pool (k_inner ks1)) = length (pool (k_inner ks))" by simp
  show ?thesis
  proof (cases q)
    case None
    then have "spare_streams ks1 = []" using P by auto
    then have "ks_inv ks1" using assms(2) l by (simp add: ks_inv_def)
    then show ?thesis using open_new_stream_length [of elapsed ks1] assms(1) p None l by (simp add: ksession_connect_def)
  qed (use assms(1) p l in \<open>simp add: ksession_connect_def\<close>)
qed

lemma replenish_length:
  "ks_inv ks \<Longrightarrow> length (pool (k_inner (replenish_spare_streams elapsed ks))) = length (pool (k_inner ks))"
  using replenish_loop_slots [of "ks\<lparr>replenishing := True\<rparr>" elapsed]
  by (auto simp: replenish_spare_streams_def ks_inv_def)

lemma spares_on_remove:
  "n < length ss \<Longrightarrow> spares_on i ss = spares_on i (take n ss @ drop (Suc n) ss) + (if ks_handle (ss ! n) = i then 1 else 0)"
  using arg_cong [OF id_take_nth_drop [of n ss], of "spares_on i"] by simp

text \<open>An operation that keeps the slot of its stream keeps all slots.\<close>

lemma on_kstream_slots:
  assumes f: "\<And>s h s' h' effs r. f s h = (s', h', effs, r) \<Longrightarrow> phase_ok (s_phase s) \<Longrightarrow> active_pairs h' = active_pairs h \<and> phase_ok (s_phase s')"
    and "slots_exact n st"
  shows "slots_exact n (use_held k (on_kstream f) st)"
proof -
  obtain ks held where st: "st = (ks, held)" by force
  have inv: "ks_inv ks" "length (pool (k_inner ks)) = n" "list_all (spare_ok ks) held"
    "\<forall>i<n. user_slots ks i = word_of_nat (spares_on i held)" using assms(2) st by (simp_all add: slots_exact_def)
  show ?thesis
  proof (cases "k < length held")
    case True
    let ?s = "held ! k" and ?p = "pool (k_inner ks)"
    obtain s' h' effs r where o: "f (ks_stream ?s) (?p ! ks_handle ?s) = (s', h', effs, r)" by (metis prod_cases4)
    define ks' where "ks' = ks\<lparr>k_inner := (k_inner ks)\<lparr>pool := ?p[ks_handle ?s := h']\<rparr>\<rparr>"
    have use: "use_held k (on_kstream f) st = (ks', held[k := ?s\<lparr>ks_stream := s'\<rparr>])"
      using True o st by (simp add: use_held_def on_kstream_def on_handle_def ks'_def)
    have ok: "spare_ok ks ?s" using inv(3) True by (simp add: list_all_length)
    then have keep: "active_pairs h' = active_pairs (?p ! ks_handle ?s)" "phase_ok (s_phase s')"
      using f [OF o] by (simp_all add: spare_ok_def)
    have l: "length (pool (k_inner ks')) = length ?p" "spare_streams ks' = spare_streams ks" by (simp_all add: ks'_def)
    have "user_slots ks' i = user_slots ks i" if "i < n" for i
      using keep(1) inv(2) that by (cases "i = ks_handle ?s") (simp_all add: user_slots_def ks'_def)
    moreover have "spares_on i (held[k := ?s\<lparr>ks_stream := s'\<rparr>]) = spares_on i held" for i
    proof -
      have "map ks_handle (held[k := ?s\<lparr>ks_stream := s'\<rparr>]) = map ks_handle held"
        by (simp add: map_update list_update_same_conv True)
      then have "length (filter (\<lambda>h. h = i) (map ks_handle (held[k := ?s\<lparr>ks_stream := s'\<rparr>]))) = length (filter (\<lambda>h. h = i) (map ks_handle held))"
        by simp
      then show ?thesis by (simp add: spares_on_def filter_map comp_def)
    qed
    moreover have "list_all (spare_ok ks') (held[k := ?s\<lparr>ks_stream := s'\<rparr>])"
      using inv(3) ok keep(2) by (intro list_all_update) (simp_all add: spare_ok_cong [OF l(1)] spare_ok_def)
    ultimately show ?thesis using inv ks_inv_cong [OF l] l(1) by (simp add: use slots_exact_def)
  qed (use assms(2) st in \<open>simp add: use_held_def\<close>)
qed

lemma stream_polls_keep:
  "stream_poll_read oe recv cap s h = (s', h', effs, r1) \<Longrightarrow> phase_ok (s_phase s) \<Longrightarrow> active_pairs h' = active_pairs h \<and> phase_ok (s_phase s')"
  "stream_poll_write oe env reserve ok task buf s h = (s', h', effs, r2) \<Longrightarrow> phase_ok (s_phase s) \<Longrightarrow> active_pairs h' = active_pairs h \<and> phase_ok (s_phase s')"
  "stream_poll_shutdown oe reserve ok s h = (s', h', effs, r3) \<Longrightarrow> phase_ok (s_phase s) \<Longrightarrow> active_pairs h' = active_pairs h \<and> phase_ok (s_phase s')"
  using stream_step_props [of "SRead oe recv cap" s h s' h' effs] stream_step_props [of "SWrite oe env reserve ok task buf" s h s' h' effs]
    stream_step_props [of "SShutdown oe reserve ok" s h s' h' effs] by (simp_all add: stream_step_def)

lemma slots_exact_step: "slots_exact n st \<Longrightarrow> slots_exact n (ks_step op st)"
proof (cases "(op, st)" rule: ks_step.cases)
  case (1 rx elapsed ks held)
  assume a: "slots_exact n st"
  obtain ks' r where c: "ksession_connect rx elapsed ks = (ks', r)" by force
  have inv: "ks_inv ks" using a 1 by (simp add: slots_exact_def)
  note l = connect_length [OF c inv]
  show ?thesis using connect_slots [OF c inv] a 1 c l
    by (cases r) (auto simp: slots_exact_def spare_ok_cong [OF l])
next
  case (2 elapsed ks held)
  assume a: "slots_exact n st"
  then have inv: "ks_inv ks" using 2 by (simp add: slots_exact_def)
  note l = replenish_length [OF this, of elapsed]
  show ?thesis using replenish_slots [OF inv, of elapsed] a 2 l by (auto simp: slots_exact_def spare_ok_cong [OF l])
next
  case (3 k oe recv cap ks)
  assume a: "slots_exact n st"
  then show ?thesis using 3 on_kstream_slots [OF stream_polls_keep(1) a] by (simp add: kstream_poll_read_def)
next
  case (4 k oe env reserve ok task buf ks)
  assume a: "slots_exact n st"
  then show ?thesis using 4 on_kstream_slots [OF stream_polls_keep(2) a] by (simp add: kstream_poll_write_def)
next
  case (5 k oe reserve ok ks)
  assume a: "slots_exact n st"
  then show ?thesis using 5 on_kstream_slots [OF stream_polls_keep(3) a] by (simp add: kstream_poll_shutdown_def)
next
  case (6 k ks held)
  assume a: "slots_exact n st"
  show ?thesis
  proof (cases "k < length held")
    case True
    let ?s = "held ! k"
    have s: "spare_ok ks ?s" using a 6 True by (simp add: slots_exact_def list_all_length)
    note d = drop_kstream_slots [OF s]
    have l: "length (pool (k_inner (fst (drop_kstream ?s ks)))) = length (pool (k_inner ks))" by (simp add: d)
    have "user_slots (fst (drop_kstream ?s ks)) i = user_slots ks i - (if ks_handle ?s = i then 1 else 0)"
      if "i < length (pool (k_inner ks))" for i
      using that by (simp add: user_slots_def d nth_list_update release_pair_def)
    moreover have "list_all (spare_ok ks) (take k held @ drop (Suc k) held)"
      using a 6 by (auto simp: slots_exact_def list_all_iff dest: in_set_takeD in_set_dropD)
    ultimately show ?thesis
      using a 6 True ks_inv_cong [OF l d(2)] spares_on_remove [OF True]
      by (auto simp: slots_exact_def spare_ok_cong [OF l] l)
  qed (use a 6 in simp)
qed

lemma slots_exact_run: "slots_exact n st \<Longrightarrow> slots_exact n (fold ks_step ops st)"
  by (induction ops arbitrary: st) (simp_all add: slots_exact_step)

text \<open>
  C36.  No slot leaks.  A session starts with idle connections and an empty queue of spare streams.  However
  connects, replenishing, reads, writes, shutdowns and drops follow each other, whether they succeed or fail, on
  every connection the multiplexer counts exactly the streams that are spare and those that users hold; the queue never exceeds its capacity,
  and every spare stream belongs to a connection of the session and still holds its slot.
\<close>

theorem ksession_slots_exact:
  assumes "0 < length (pool s)" "length (pool s) < 2 ^ 64" "\<forall>h \<in> set (pool s). active_pairs h = 0"
    and "fold ks_step ops (ksession_from_spdy s proto port, []) = (ks, held)"
  shows "(\<forall>i<length (pool s). active_pairs (pool (k_inner ks) ! i)
            = word_of_nat (spares_on i (spare_streams ks) + spares_on i held)) \<and>
    length (spare_streams ks) \<le> SPARE_STREAM_CAP \<and>
    list_all (spare_ok ks) (spare_streams ks)"
proof -
  have "slots_exact (length (pool s)) (ksession_from_spdy s proto port, [])"
    using assms(1-3) by (simp add: slots_exact_def ksession_from_spdy_def ks_inv_def user_slots_def)
  from slots_exact_run [OF this, of ops] show ?thesis
    using assms(4) by (auto simp: slots_exact_def ks_inv_def user_slots_def algebra_simps)
qed

theorem ksession_slots_exact_witness:
  "let (ks, held) = fold ks_step [KReplenish 5, KConnect (\<lambda>s. False) 5, KConnect (\<lambda>s. False) 5, KDrop 1]
         (ksession_from_spdy example_session Spdy31Tunnel 8080, [])
   in active_pairs (pool (k_inner ks) ! 0) = word_of_nat (spares_on 0 (spare_streams ks) + spares_on 0 held) \<and>
      active_pairs (pool (k_inner ks) ! 1) = word_of_nat (spares_on 1 (spare_streams ks) + spares_on 1 held)"
proof -
  obtain ks held where e: "fold ks_step [KReplenish 5, KConnect (\<lambda>s. False) 5, KConnect (\<lambda>s. False) 5, KDrop 1]
         (ksession_from_spdy example_session Spdy31Tunnel 8080, []) = (ks, held)" by force
  have "\<forall>i<2. active_pairs (pool (k_inner ks) ! i) = word_of_nat (spares_on i (spare_streams ks) + spares_on i held)"
    using ksession_slots_exact [OF _ _ _ e] by (simp flip: numeral_2_eq_2)
  then show ?thesis unfolding e by simp
qed

section \<open>Headers\<close>

lemma valid_utf8_ascii: "list_all (\<lambda>b. b < 0x80) s \<Longrightarrow> valid_utf8 s"
  by (induction s) (auto simp: valid_utf8.simps [of "_ # _"] utf8_seq_def byte_get_def)

lemma unat_of_char: "unat (of_char c :: byte) = of_char c"
proof -
  have "take_bit 8 (of_char c :: nat) = of_char c" by (simp add: take_bit_eq_mod)
  then show ?thesis
    by (simp add: unsigned_of_nat flip: of_nat_of_char [where 'a = byte])
qed

lemma str_bytes_inj: "str_bytes s = str_bytes t \<longleftrightarrow> s = t"
proof -
  have "inj (of_char :: char \<Rightarrow> byte)" by (metis injI of_char_eq_iff unat_of_char)
  then show ?thesis by (simp add: str_bytes_def inj_map_eq_map)
qed

text \<open>Text made of lower case letters and digits: what the headers consist of.\<close>

definition plain_text :: "string \<Rightarrow> bool" where
  "plain_text s \<longleftrightarrow> list_all (\<lambda>c. (of_char c :: nat) < 65 \<or> 90 < (of_char c :: nat) \<and> (of_char c :: nat) < 128) s"

lemma plain_bytes:
  assumes "plain_text s"
  shows "valid_utf8 (str_bytes s)" "to_ascii_lowercase (str_bytes s) = str_bytes s"
proof -
  have "b < 0x80 \<and> ascii_lower b = b" if "b \<in> set (str_bytes s)" for b
  proof -
    obtain c where "c \<in> set s" "b = of_char c" using \<open>b \<in> set (str_bytes s)\<close> by (auto simp: str_bytes_def)
    then have "unat b < 65 \<or> 90 < unat b \<and> unat b < 128" using assms by (simp add: plain_text_def list_all_iff unat_of_char)
    then show ?thesis by (auto simp: ascii_lower_def word_less_nat_alt word_le_nat_alt)
  qed
  then show "valid_utf8 (str_bytes s)" "to_ascii_lowercase (str_bytes s) = str_bytes s"
    by (auto simp: list_all_iff to_ascii_lowercase_def intro!: valid_utf8_ascii map_idI)
qed

lemma plain_decimal: "plain_text (to_decimal n)"
  using to_decimal_digits [of _ n] by (fastforce simp: plain_text_def list_all_iff)

lemma length_str_bytes [simp]: "length (str_bytes s) = length s"
  by (simp add: str_bytes_def)

lemma plain_words [simp]:
  "plain_text ''streamtype''" "plain_text ''port''" "plain_text ''requestid''" "plain_text ''error''" "plain_text ''data''"
  by (simp_all add: plain_text_def)

lemma pair_headers_wf:
  assumes "plain_text kind" "length kind \<le> 5"
  shows "wf_headers (pair_headers kind port rid)" "map lower_header (pair_headers kind port rid) = pair_headers kind port rid"
proof -
  have "unat port < 10 ^ 5" "unat rid < 10 ^ 10"
    using unsigned_less [of port, where 'a = nat] unsigned_less [of rid, where 'a = nat] by simp_all
  then have len: "length (to_decimal (unat port)) \<le> 5" "length (to_decimal (unat rid)) \<le> 10"
    by (simp_all add: length_to_decimal)
  show "wf_headers (pair_headers kind port rid)"
    using len assms plain_bytes(1) [OF plain_decimal]
    by (auto simp: wf_headers_def wf_header_def pair_headers_def header_block_def plain_bytes(1) length_u32_to_be)
  show "map lower_header (pair_headers kind port rid) = pair_headers kind port rid"
    using assms plain_bytes(2) by (simp add: pair_headers_def lower_header_def)
qed

text \<open>The error and data headers of the open that follows \<open>n\<close> others.\<close>

definition nth_open_headers :: "nat \<Rightarrow> ksession \<Rightarrow> header list \<times> header list" where
  "nth_open_headers n ks = snd (portforward_headers (((fst \<circ> portforward_headers) ^^ n) ks))"

lemma opens_request_id:
  "next_request_id (((fst \<circ> portforward_headers) ^^ n) ks) = next_request_id ks + word_of_nat n \<and>
   k_port (((fst \<circ> portforward_headers) ^^ n) ks) = k_port ks"
  by (induction n) (auto simp: portforward_headers_def Let_def)

lemma nth_open_headers_eq:
  "nth_open_headers n ks = (pair_headers ''error'' (k_port ks) (next_request_id ks + word_of_nat n),
     pair_headers ''data'' (k_port ks) (next_request_id ks + word_of_nat n))"
  by (simp add: nth_open_headers_def portforward_headers_def Let_def opens_request_id)

lemma pair_headers_lookup [simp]:
  "map_of (pair_headers kind port rid) (str_bytes ''streamtype'') = Some (str_bytes kind)"
  "map_of (pair_headers kind port rid) (str_bytes ''port'') = Some (str_bytes (to_decimal (unat port)))"
  "map_of (pair_headers kind port rid) (str_bytes ''requestid'') = Some (str_bytes (to_decimal (unat rid)))"
  by (simp_all add: pair_headers_def str_bytes_inj)

lemma word_of_nat_inj32: "m < 2 ^ 32 \<Longrightarrow> n < 2 ^ 32 \<Longrightarrow> (word_of_nat m :: u32) = word_of_nat n \<longleftrightarrow> m = n"
  by (auto simp: word_of_nat_eq_iff take_bit_nat_eq_self)

lemma pair_headers_transfer:
  assumes "zlib_transfers z R" "codec_sync z R c d" "plain_text kind" "length kind \<le> 5"
  shows "\<exists>c' d' bytes. encode_syn_stream z c sid (pair_headers kind port rid) fin = Some (c', Ok bytes) \<and>
    decode_frame z d (bytes @ rest) = Some (d', rest, Ok (Some (SynStream sid (pair_headers kind port rid) fin))) \<and>
    codec_sync z R c' d'"
proof -
  have w: "list_all wf_header (pair_headers kind port rid)" "length (header_block (pair_headers kind port rid)) \<le> 768"
    using pair_headers_wf(1) [OF assms(3,4), of port rid] by (simp_all add: wf_headers_def)
  show ?thesis using syn_stream_transfer [OF assms(1,2) w, of sid fin rest] pair_headers_wf(2) [OF assms(3,4), of port rid] by auto
qed

text \<open>
  C37.  What the kubelet reads.  The headers of the \<open>n\<close>-th open of a session name the kind of the stream,
  error or data, and the port of the session in decimal, and both carry the same request identifier,
  by which the kubelet pairs them; two opens of the same session use different identifiers, for the first
  \<open>2 ^ 32\<close> opens.  The headers are well-formed and already in lower case, and their block is short, so
  that they cross the codec unchanged to a peer whose zlib stream is in step.
\<close>

theorem ksession_headers_cross:
  assumes "m < 2 ^ 32" "n < 2 ^ 32" "nth_open_headers n ks = (eh, dh)"
  shows "map_of eh (str_bytes ''streamtype'') = Some (str_bytes ''error'') \<and>
    map_of dh (str_bytes ''streamtype'') = Some (str_bytes ''data'') \<and>
    map_of eh (str_bytes ''port'') = Some (str_bytes (to_decimal (unat (k_port ks)))) \<and>
    map_of dh (str_bytes ''port'') = map_of eh (str_bytes ''port'') \<and>
    map_of dh (str_bytes ''requestid'') = map_of eh (str_bytes ''requestid'') \<and>
    (map_of (fst (nth_open_headers m ks)) (str_bytes ''requestid'') = map_of eh (str_bytes ''requestid'') \<longleftrightarrow> m = n) \<and>
    (\<forall>hs \<in> {eh, dh}. list_all wf_header hs \<and> length (header_block hs) \<le> 768 \<and> map lower_header hs = hs) \<and>
    (zlib_transfers z R \<and> codec_sync z R c d \<longrightarrow>
      (\<forall>hs \<in> {eh, dh}. \<exists>c' d' bytes. encode_syn_stream z c sid hs fin = Some (c', Ok bytes) \<and>
        decode_frame z d (bytes @ rest) = Some (d', rest, Ok (Some (SynStream sid hs fin))) \<and> codec_sync z R c' d'))"
proof -
  have h: "eh = pair_headers ''error'' (k_port ks) (next_request_id ks + word_of_nat n)"
    "dh = pair_headers ''data'' (k_port ks) (next_request_id ks + word_of_nat n)"
    using assms(3) by (simp_all add: nth_open_headers_eq)
  have "\<forall>hs \<in> {eh, dh}. list_all wf_header hs \<and> length (header_block hs) \<le> 768 \<and> map lower_header hs = hs"
    using pair_headers_wf by (auto simp: h wf_headers_def)
  moreover have "\<forall>hs \<in> {eh, dh}. \<exists>c' d' bytes. encode_syn_stream z c sid hs fin = Some (c', Ok bytes) \<and>
      decode_frame z d (bytes @ rest) = Some (d', rest, Ok (Some (SynStream sid hs fin))) \<and> codec_sync z R c' d'"
    if "zlib_transfers z R" "codec_sync z R c d"
    using pair_headers_transfer [OF that] by (auto simp: h)
  ultimately show ?thesis
    by (simp add: h nth_open_headers_eq str_bytes_inj word_of_nat_inj32 [OF assms(1,2)] flip: word_unat_eq_iff)
qed

theorem ksession_headers_cross_witness:
  "let (eh, dh) = nth_open_headers 2 (ksession_from_spdy example_session Spdy31Tunnel 8080) in
   map_of eh (str_bytes ''port'') = Some (str_bytes ''8080'') \<and>
   map_of dh (str_bytes ''requestid'') = map_of eh (str_bytes ''requestid'') \<and>
   map_of (fst (nth_open_headers 1 (ksession_from_spdy example_session Spdy31Tunnel 8080))) (str_bytes ''requestid'')
     \<noteq> map_of eh (str_bytes ''requestid'') \<and>
   (\<exists>c' d' bytes. encode_syn_stream stored (with_max_frame_size stored 1024) 1 dh False = Some (c', Ok bytes) \<and>
     decode_frame stored (with_max_frame_size stored 1024) (bytes @ []) = Some (d', [], Ok (Some (SynStream 1 dh False))))"
proof -
  let ?ks = "ksession_from_spdy example_session Spdy31Tunnel 8080"
  obtain eh dh where e: "nth_open_headers 2 ?ks = (eh, dh)" by force
  have "to_decimal (unat (k_port ?ks)) = ''8080''"
    by (simp add: ksession_from_spdy_def to_decimal.simps digit_char_def char_of_eq_iff)
  then show ?thesis
    using ksession_headers_cross [OF _ _ e, of 1 stored stored_rel "with_max_frame_size stored 1024"
        "with_max_frame_size stored 1024" 1 False "[]"] stored_transfers stored_sync_new [of 1024 1024]
    unfolding e by (simp del: append_Nil2) blast
qed

end
