(* ===== verification/Forwarder_Pool.thy ===== *)
theory Forwarder_Pool
  imports Complex_Main Kube_Session Pod_Watch
begin

text \<open>
  The session pool of a forwarder (\<^verbatim>\<open>crates/kube-portforward/src/forwarder/pool.rs\<close>), the sections of
  \<^verbatim>\<open>prefetch.rs\<close> and \<^verbatim>\<open>lifecycle.rs\<close> that run under its lock, and the builder (\<^verbatim>\<open>builder.rs\<close>).

  An \<open>Arc<Session>\<close> is an index into the list of all sessions that were ever opened, so that two clones
  are equal; next to each session the list keeps the pod that its open was addressed to, which
  the code does not store and no definition reads except the specification.  Each function below is
  what one critical section does to the pool; the loops that cancel sessions after the lock is
  released are steps of their own in the theory of the forwarder.  Instants and durations are
  nanoseconds.
\<close>

section \<open>Single precision\<close>

text \<open>
  The prefetch threshold is an \<open>f32\<close>.  A finite value is a rational number that the format represents;
  \<open>f32_round\<close> is the rounding of the format (to nearest, ties to even, with gradual underflow), for
  non-negative values below its overflow threshold.
\<close>

datatype f32 = Finite rat | PosInf | NegInf | NaN

definition two_power :: "int \<Rightarrow> rat" where
  "two_power e = (if e \<ge> 0 then 2 ^ nat e else 1 / 2 ^ nat (- e))"

definition f32_exponent :: "rat \<Rightarrow> int" where
  "f32_exponent x = (case filter (\<lambda>e. two_power e \<le> x) (rev [-126..127]) of [] \<Rightarrow> -126 | e # es \<Rightarrow> e)"

definition round_half_even :: "rat \<Rightarrow> int" where
  "round_half_even x =
     (let f = floor x; d = x - of_int f in if d < 1 / 2 \<or> d = 1 / 2 \<and> even f then f else f + 1)"

definition f32_round :: "rat \<Rightarrow> rat" where
  "f32_round x = (let ulp = two_power (f32_exponent x - 23) in of_int (round_half_even (x / ulp)) * ulp)"

definition f32_of_usize :: "nat \<Rightarrow> rat" where
  "f32_of_usize n = f32_round (of_nat n)"

definition f32_clamp01 :: "f32 \<Rightarrow> f32" where
  "f32_clamp01 r = (case r of Finite x \<Rightarrow> Finite (max 0 (min 1 x)) | PosInf \<Rightarrow> Finite 1 | NegInf \<Rightarrow> Finite 0 | NaN \<Rightarrow> NaN)"

text \<open>\<open>(in_use as f32) < (capacity as f32) * threshold\<close>; the product with an infinity has its sign, as \<open>capacity\<close> is positive.\<close>

definition below_threshold :: "nat \<Rightarrow> nat \<Rightarrow> f32 \<Rightarrow> bool" where
  "below_threshold used capacity threshold =
     (case threshold of
        Finite t \<Rightarrow> f32_of_usize used < f32_round (f32_of_usize capacity * t)
      | PosInf \<Rightarrow> True | NegInf \<Rightarrow> False | NaN \<Rightarrow> False)"

section \<open>Configuration\<close>

definition DEFAULT_MAX_SESSIONS :: nat where "DEFAULT_MAX_SESSIONS = 128"
definition DEFAULT_PRUNE_INTERVAL :: duration where "DEFAULT_PRUNE_INTERVAL = 30 * 10 ^ 9"
definition DEFAULT_PRUNE_IDLE_AGE :: duration where "DEFAULT_PRUNE_IDLE_AGE = 60 * 10 ^ 9"
definition DEFAULT_PREFETCH_THRESHOLD :: f32 where "DEFAULT_PREFETCH_THRESHOLD = Finite (f32_round (3 / 5))"
definition CONNECTION_SLOT_PERMITS :: nat where "CONNECTION_SLOT_PERMITS = 50"

record forwarder_config =
  max_sessions :: nat
  prune_interval :: duration
  prune_idle_age :: duration
  prefetch_threshold :: f32

definition forwarder_config_default :: forwarder_config where
  "forwarder_config_default =
     \<lparr>max_sessions = DEFAULT_MAX_SESSIONS, prune_interval = DEFAULT_PRUNE_INTERVAL,
      prune_idle_age = DEFAULT_PRUNE_IDLE_AGE, prefetch_threshold = DEFAULT_PREFETCH_THRESHOLD\<rparr>"

text \<open>The builder; \<open>fb_cancel\<close> says whether a token was given, and whether it is tripped.\<close>

record forwarder_builder =
  fb_namespace :: string
  fb_selector :: "pod_selector option"
  fb_readiness :: pod_readiness
  fb_config :: forwarder_config
  fb_cancel :: "bool option"
  fb_recovery_callback :: "callback_id option"

definition forwarder_builder_new :: "string \<Rightarrow> forwarder_builder" where
  "forwarder_builder_new namespace =
     \<lparr>fb_namespace = namespace, fb_selector = None, fb_readiness = PolicyReady, fb_config = forwarder_config_default,
      fb_cancel = None, fb_recovery_callback = None\<rparr>"

definition builder_pod_selector :: "pod_selector \<Rightarrow> forwarder_builder \<Rightarrow> forwarder_builder" where
  "builder_pod_selector sel b = b\<lparr>fb_selector := Some sel\<rparr>"

definition builder_pod_readiness :: "pod_readiness \<Rightarrow> forwarder_builder \<Rightarrow> forwarder_builder" where
  "builder_pod_readiness readiness b = b\<lparr>fb_readiness := readiness\<rparr>"

definition builder_max_sessions :: "nat \<Rightarrow> forwarder_builder \<Rightarrow> forwarder_builder" where
  "builder_max_sessions n b = b\<lparr>fb_config := (fb_config b)\<lparr>max_sessions := n\<rparr>\<rparr>"

definition builder_prune :: "duration \<Rightarrow> duration \<Rightarrow> forwarder_builder \<Rightarrow> forwarder_builder" where
  "builder_prune interval idle_age b = b\<lparr>fb_config := (fb_config b)\<lparr>prune_interval := interval, prune_idle_age := idle_age\<rparr>\<rparr>"

definition builder_prefetch_threshold :: "f32 \<Rightarrow> forwarder_builder \<Rightarrow> forwarder_builder" where
  "builder_prefetch_threshold ratio b = b\<lparr>fb_config := (fb_config b)\<lparr>prefetch_threshold := f32_clamp01 ratio\<rparr>\<rparr>"

definition builder_cancellation_token :: "bool \<Rightarrow> forwarder_builder \<Rightarrow> forwarder_builder" where
  "builder_cancellation_token tripped b = b\<lparr>fb_cancel := Some tripped\<rparr>"

definition builder_on_recovery :: "callback_id \<Rightarrow> forwarder_builder \<Rightarrow> forwarder_builder" where
  "builder_on_recovery cb b = b\<lparr>fb_recovery_callback := Some cb\<rparr>"

section \<open>The pool\<close>

record pooled_session =
  ps_session :: nat
  created_at :: nat

record session_pool =
  entries :: "pooled_session list"
  pool_target :: "ready_pod option"
  prefetch_in_flight :: bool
  opening_count :: u64
  snapshot :: "nat list"

record opened_session =
  os_session :: ksession
  os_pod :: ready_pod

definition pool_new :: session_pool where
  "pool_new = \<lparr>entries = [], pool_target = None, prefetch_in_flight = False, opening_count = 0, snapshot = []\<rparr>"

definition refresh_snapshot :: "session_pool \<Rightarrow> session_pool" where
  "refresh_snapshot p = p\<lparr>snapshot := map ps_session (entries p)\<rparr>"

definition has_in_flight_open :: "session_pool \<Rightarrow> bool" where
  "has_in_flight_open p \<longleftrightarrow> opening_count p > 0 \<or> prefetch_in_flight p"

definition opening_slot_new :: "session_pool \<Rightarrow> session_pool" where
  "opening_slot_new p = p\<lparr>opening_count := opening_count p + 1\<rparr>"

definition opening_slot_drop :: "session_pool \<Rightarrow> session_pool" where
  "opening_slot_drop p = p\<lparr>opening_count := opening_count p - 1\<rparr>"

text \<open>\<open>pool.target = t; take(&mut pool.entries); refresh_snapshot()\<close>, returning what was taken.\<close>

definition drain_pool :: "ready_pod option \<Rightarrow> session_pool \<Rightarrow> session_pool \<times> nat list" where
  "drain_pool t p = (refresh_snapshot (p\<lparr>pool_target := t, entries := []\<rparr>), map ps_session (entries p))"

definition push_entry :: "nat \<Rightarrow> nat \<Rightarrow> session_pool \<Rightarrow> session_pool" where
  "push_entry sid now p = refresh_snapshot (p\<lparr>entries := entries p @ [\<lparr>ps_session = sid, created_at = now\<rparr>]\<rparr>)"

definition install_if_current :: "ready_pod \<Rightarrow> nat \<Rightarrow> nat \<Rightarrow> session_pool \<Rightarrow> session_pool \<times> (nat, nat) result" where
  "install_if_current opened_for sid now p =
     (if pool_target p = Some opened_for then (push_entry sid now p, Ok sid) else (p, Err sid))"

text \<open>\<open>extract_if(.., pred).take(limit)\<close>: what is extracted, and what stays.\<close>

fun extract_take :: "nat \<Rightarrow> ('a \<Rightarrow> bool) \<Rightarrow> 'a list \<Rightarrow> 'a list \<times> 'a list" where
  "extract_take n pred [] = ([], [])"
| "extract_take n pred (x # xs) =
     (if n > 0 \<and> pred x
      then (let (out, rest) = extract_take (n - 1) pred xs in (x # out, rest))
      else (let (out, rest) = extract_take n pred xs in (out, x # rest)))"

text \<open>Extraction and the refresh that follows it when something was extracted.\<close>

definition extract_entries :: "nat \<Rightarrow> (pooled_session \<Rightarrow> bool) \<Rightarrow> session_pool \<Rightarrow> session_pool \<times> nat list" where
  "extract_entries n pred p =
     (let (out, rest) = extract_take n pred (entries p); p' = p\<lparr>entries := rest\<rparr>
      in (if out \<noteq> [] then refresh_snapshot p' else p', map ps_session out))"

definition session_dead :: "ksession \<Rightarrow> bool" where
  "session_dead s \<longleftrightarrow> ks_is_cancelled s \<or> ks_is_drained s"

definition retire_dead :: "opened_session list \<Rightarrow> session_pool \<Rightarrow> session_pool \<times> nat list" where
  "retire_dead store p =
     extract_entries (length (entries p)) (\<lambda>e. session_dead (os_session (store ! ps_session e))) p"

definition session_serves :: "ksession \<Rightarrow> u16 \<Rightarrow> bool" where
  "session_serves s target_port \<longleftrightarrow> k_port s = target_port \<and> \<not> ks_is_cancelled s \<and> \<not> ks_is_full s"

definition find_reusable_session :: "opened_session list \<Rightarrow> u16 \<Rightarrow> session_pool \<Rightarrow> nat option" where
  "find_reusable_session store target_port p =
     find (\<lambda>sid. session_serves (os_session (store ! sid)) target_port) (snapshot p)"

definition reserve_new_slot :: "forwarder_config \<Rightarrow> session_pool \<Rightarrow> (kube_error, session_pool) result" where
  "reserve_new_slot cfg p =
     (let projected = word_of_nat (length (entries p)) + opening_count p in
      if unat projected \<ge> max_sessions cfg then Err (KCapacityExhausted (unat projected) (max_sessions cfg))
      else Ok (opening_slot_new p))"

section \<open>Prefetching and pruning\<close>

definition wants_replenish :: "ksession \<Rightarrow> bool" where
  "wants_replenish s \<longleftrightarrow> needs_replenish s \<and> \<not> ks_is_full s"

definition wants_prefetch :: "forwarder_config \<Rightarrow> ksession \<Rightarrow> bool" where
  "wants_prefetch cfg s =
     (let capacity = ks_operating_capacity s in
      if capacity = 0 then False else \<not> below_threshold (ks_in_use s) capacity (prefetch_threshold cfg))"

definition prefetch_claim :: "forwarder_config \<Rightarrow> ready_pod \<Rightarrow> session_pool \<Rightarrow> session_pool option" where
  "prefetch_claim cfg ready p =
     (if prefetch_in_flight p \<or> length (entries p) \<ge> max_sessions cfg \<or> pool_target p \<noteq> Some ready then None
      else Some (p\<lparr>prefetch_in_flight := True\<rparr>))"

text \<open>The end of the prefetch task; the second component says whether the session was installed.\<close>

definition prefetch_finish ::
  "forwarder_config \<Rightarrow> ready_pod \<Rightarrow> nat option \<Rightarrow> nat \<Rightarrow> session_pool \<Rightarrow> session_pool \<times> bool" where
  "prefetch_finish cfg ready opened now p =
     (let p1 = p\<lparr>prefetch_in_flight := False\<rparr> in
      case opened of
        None \<Rightarrow> (p1, False)
      | Some sid \<Rightarrow>
          if length (entries p1) < max_sessions cfg \<and> pool_target p1 = Some ready
          then (push_entry sid now p1, True) else (p1, False))"

definition prune_victim :: "forwarder_config \<Rightarrow> nat \<Rightarrow> opened_session list \<Rightarrow> pooled_session \<Rightarrow> bool" where
  "prune_victim cfg now store e =
     (let s = os_session (store ! ps_session e)
      in ks_is_cancelled s \<or> ks_in_use s = 0 \<and> now - created_at e > prune_idle_age cfg)"

definition prune_once :: "forwarder_config \<Rightarrow> nat \<Rightarrow> opened_session list \<Rightarrow> session_pool \<Rightarrow> session_pool \<times> nat list" where
  "prune_once cfg now store p = extract_entries (length (entries p) - 1) (prune_victim cfg now store) p"

section \<open>The target pod\<close>

text \<open>The re-check under the write lock when a call finds another ready pod than the pool's target.\<close>

definition retarget :: "ready_pod \<Rightarrow> session_pool \<Rightarrow> session_pool \<times> nat list" where
  "retarget ready p = (if pool_target p = Some ready then (p, []) else drain_pool (Some ready) p)"

definition handle_pod_died :: "pod_watcher \<Rightarrow> string \<Rightarrow> session_pool \<Rightarrow> (session_pool \<times> nat list) option" where
  "handle_pod_died pw dead_pod_name p =
     (case pool_target p of
        None \<Rightarrow> None
      | Some target \<Rightarrow>
          if rp_name target \<noteq> dead_pod_name then None
          else if contains_identity dead_pod_name (rp_uid target) pw then None
          else Some (drain_pool None p))"

end
