(* ===== verification/Forwarder.thy ===== *)
theory Forwarder
  imports Forwarder_Pool
begin

text \<open>
  The forwarder (\<^verbatim>\<open>crates/kube-portforward/src/forwarder/mod.rs\<close>, \<^verbatim>\<open>lifecycle.rs\<close>, \<^verbatim>\<open>prefetch.rs\<close>): calls to
  \<open>connect\<close>, the background tasks they spawn, the reactor to pod changes, pruning and shutdown, all sharing
  one pool.

  A call of \<open>ensure_session_for_pod\<close> is a program counter with its local variables; one step runs to the
  next point where another task can get in: an \<open>await\<close>, or a release of the pool's lock.  What the
  environment answers (the pod watcher, the semaphore, the open, the clock) is the input of a step.  A
  sleeping caller may wake at any time, by the notification or by its timeout, so \<open>session_ready\<close>
  needs no state.  \<open>task_pc\<close> is the same for the tasks that calls spawn and for the loops that cancel the
  sessions that were taken out of the pool.  The two tasks that live as long as the forwarder, the
  pruning loop and the reactor to pod changes, are given by one turn of their loops, \<open>spawn_prune\<close> and
  \<open>spawn_pod_change_reactor\<close>; what a turn does to the pool is a step of its own in \<open>fstep\<close>, at any time.
\<close>

section \<open>State\<close>

record forwarder =
  fw_config :: forwarder_config
  fw_pool :: session_pool
  fw_watcher :: pod_watcher
  fw_cancel :: bool
  fw_session_cancel :: bool
  fw_permits :: nat
  call_counter :: u64
  fw_sessions :: "opened_session list"
  fw_signals :: "recovery_signal list"

text \<open>What \<open>build\<close> does with the settings; the watcher is what \<open>PodWatcher::new\<close> returned.\<close>

definition forwarder_build ::
  "forwarder_config \<Rightarrow> pod_selector option \<Rightarrow> (pod_selector \<Rightarrow> (kube_error, pod_watcher) result) \<Rightarrow> bool
    \<Rightarrow> (kube_error, forwarder) result" where
  "forwarder_build cfg selector new_watcher cancelled =
     (if max_sessions cfg = 0 then Err (Configuration ''max_sessions must be > 0'')
      else case selector of
        None \<Rightarrow> Err (Configuration ''pod_selector is required'')
      | Some sel \<Rightarrow>
          (case new_watcher sel of
             Inl e \<Rightarrow> Err e
           | Inr pw \<Rightarrow> Ok \<lparr>fw_config = cfg, fw_pool = pool_new, fw_watcher = pw, fw_cancel = cancelled,
               fw_session_cancel = False, fw_permits = CONNECTION_SLOT_PERMITS, call_counter = 0,
               fw_sessions = [], fw_signals = []\<rparr>))"

definition builder_build ::
  "forwarder_builder \<Rightarrow> (string \<Rightarrow> pod_selector \<Rightarrow> pod_readiness \<Rightarrow> (kube_error, pod_watcher) result)
    \<Rightarrow> (kube_error, forwarder) result" where
  "builder_build b new_watcher =
     forwarder_build (fb_config b) (fb_selector b) (\<lambda>sel. new_watcher (fb_namespace b) sel (fb_readiness b))
       (fb_cancel b = Some True)"

text \<open>Calls of the recovery callback, which are recorded in order.\<close>

definition signal_all :: "recovery_signal list \<Rightarrow> forwarder \<Rightarrow> forwarder" where
  "signal_all signals f = f\<lparr>fw_signals := fw_signals f @ signals\<rparr>"

definition next_call_id :: "forwarder \<Rightarrow> forwarder \<times> u64" where
  "next_call_id f = (f\<lparr>call_counter := call_counter f + 1\<rparr>, call_counter f)"

text \<open>A session is cancelled by its own token, whose parent is the forwarder's.\<close>

definition cancel_session :: "nat \<Rightarrow> forwarder \<Rightarrow> forwarder" where
  "cancel_session sid f = f\<lparr>fw_sessions := (fw_sessions f)[sid :=
     (fw_sessions f ! sid)\<lparr>os_session := ksession_cancel (os_session (fw_sessions f ! sid))\<rparr>]\<rparr>"

definition open_session :: "ready_pod \<Rightarrow> u16 \<Rightarrow> session \<times> subprotocol \<Rightarrow> forwarder \<Rightarrow> forwarder" where
  "open_session ready port opened f =
     (let ks = ksession_from_spdy (fst opened) (snd opened) port in
      f\<lparr>fw_sessions := fw_sessions f @
          [\<lparr>os_session = if fw_session_cancel f then ksession_cancel ks else ks, os_pod = ready\<rparr>]\<rparr>)"

abbreviation session_at :: "forwarder \<Rightarrow> nat \<Rightarrow> ksession" where
  "session_at f sid \<equiv> os_session (fw_sessions f ! sid)"

section \<open>A call\<close>

text \<open>The flag \<open>b\<close> is \<open>retry_after_stale_open\<close>; \<open>h\<close> says that the call holds an opening slot and a permit.\<close>

datatype call_pc =
    WaitReady bool
  | CheckTarget bool ready_pod
  | Retarget bool ready_pod
  | CancelDrained bool ready_pod "nat list"
  | Reuse bool ready_pod
  | RetireDead bool ready_pod
  | CancelRetired bool ready_pod "nat list"
  | FindAgain bool ready_pod
  | Gate bool ready_pod
  | AwaitOther bool ready_pod
  | ReuseOther bool ready_pod
  | ReserveSlot bool ready_pod
  | AwaitPermit bool ready_pod
  | Opening bool ready_pod
  | Install bool ready_pod nat
  | CancelStale bool ready_pod nat
  | Replenish bool ready_pod nat
  | Threshold bool ready_pod nat
  | ClaimPrefetch bool ready_pod nat
  | SpawnPrefetch bool ready_pod nat
  | Returned nat ready_pod
  | Failed kube_error
  | Dropped

datatype task_pc =
    ReplenishTask nat
  | PrefetchOpening ready_pod u16
  | PrefetchFinish ready_pod "nat option"
  | CancelTask "nat list"
  | TaskDone

datatype permit_wait = PermitAcquired | SemaphoreClosed | PermitTimeout

text \<open>
  What the environment answers in a step, each where the code asks for it.  \<open>open_session\<close> is awaited with no
  deadline: \<open>env_open\<close> is \<open>None\<close> as long as the server has not answered.
\<close>

record step_env =
  env_watch :: "(wait_event \<times> pod_watcher) list"
  env_permit :: permit_wait
  env_open :: "(kube_error, session \<times> subprotocol) result option"
  env_signals :: "recovery_signal list"
  env_now :: nat

type_synonym call_out = "(forwarder \<times> call_pc \<times> task_pc list) option"

definition release_slot :: "bool \<Rightarrow> forwarder \<Rightarrow> forwarder" where
  "release_slot h f =
     (if h then f\<lparr>fw_pool := opening_slot_drop (fw_pool f), fw_permits := fw_permits f + 1\<rparr> else f)"

definition drop_slot :: "forwarder \<Rightarrow> forwarder" where
  "drop_slot f = f\<lparr>fw_pool := opening_slot_drop (fw_pool f)\<rparr>"

text \<open>The end of \<open>maybe_prefetch\<close>: the call returns its session.\<close>

definition return_session :: "bool \<Rightarrow> ready_pod \<Rightarrow> nat \<Rightarrow> forwarder \<Rightarrow> call_out" where
  "return_session h ready sid f = Some (release_slot h f, Returned sid ready, [])"

text \<open>\<open>try_reuse_session\<close>, or the scan that follows retiring.\<close>

definition reuse_or :: "call_pc \<Rightarrow> ready_pod \<Rightarrow> u16 \<Rightarrow> forwarder \<Rightarrow> call_out" where
  "reuse_or otherwise ready port f =
     (case find_reusable_session (fw_sessions f) port (fw_pool f) of
        Some sid \<Rightarrow> Some (f, Replenish False ready sid, [])
      | None \<Rightarrow> Some (f, otherwise, []))"

primrec call_step :: "step_env \<Rightarrow> u16 \<Rightarrow> call_pc \<Rightarrow> forwarder \<Rightarrow> call_out" where
  "call_step env port (WaitReady b) f =
     (case wait_for_ready_pod (fw_watcher f) (env_watch env) of
        None \<Rightarrow> None
      | Some (pw, None) \<Rightarrow> Some (f\<lparr>fw_watcher := pw\<rparr>, Failed (Configuration ''no ready pod available''), [])
      | Some (pw, Some ready) \<Rightarrow> Some (f\<lparr>fw_watcher := pw\<rparr>, CheckTarget b ready, []))"
| "call_step env port (CheckTarget b ready) f =
     Some (f, if pool_target (fw_pool f) \<noteq> Some ready then Retarget b ready else Reuse b ready, [])"
| "call_step env port (Retarget b ready) f =
     (let (p, drained) = retarget ready (fw_pool f) in Some (f\<lparr>fw_pool := p\<rparr>, CancelDrained b ready drained, []))"
| "call_step env port (CancelDrained b ready sids) f =
     (case sids of
        [] \<Rightarrow> Some (f, Reuse b ready, [])
      | sid # rest \<Rightarrow> Some (cancel_session sid f, CancelDrained b ready rest, []))"
| "call_step env port (Reuse b ready) f = reuse_or (RetireDead b ready) ready port f"
| "call_step env port (RetireDead b ready) f =
     (let (p, retired) = retire_dead (fw_sessions f) (fw_pool f)
      in Some (f\<lparr>fw_pool := p\<rparr>, CancelRetired b ready retired, []))"
| "call_step env port (CancelRetired b ready sids) f =
     (case sids of
        [] \<Rightarrow> Some (f, FindAgain b ready, [])
      | sid # rest \<Rightarrow> Some (cancel_session sid f, CancelRetired b ready rest, []))"
| "call_step env port (FindAgain b ready) f = reuse_or (Gate b ready) ready port f"
| "call_step env port (Gate b ready) f =
     Some (f, if has_in_flight_open (fw_pool f) then AwaitOther b ready else ReserveSlot b ready, [])"
| "call_step env port (AwaitOther b ready) f = Some (f, ReuseOther b ready, [])"
| "call_step env port (ReuseOther b ready) f = reuse_or (ReserveSlot b ready) ready port f"
| "call_step env port (ReserveSlot b ready) f =
     (case reserve_new_slot (fw_config f) (fw_pool f) of
        Inl e \<Rightarrow> Some (f, Failed e, [])
      | Inr p \<Rightarrow> Some (f\<lparr>fw_pool := p\<rparr>, AwaitPermit b ready, []))"
| "call_step env port (AwaitPermit b ready) f =
     (case env_permit env of
        PermitAcquired \<Rightarrow>
          if fw_permits f = 0 then None else Some (f\<lparr>fw_permits := fw_permits f - 1\<rparr>, Opening b ready, [])
      | SemaphoreClosed \<Rightarrow> Some (drop_slot f, Failed (Network ''connection slot semaphore closed''), [])
      | PermitTimeout \<Rightarrow> Some (drop_slot f, Failed (Network ''timed out waiting for connection slot''), []))"
| "call_step env port (Opening b ready) f =
     (case env_open env of
        None \<Rightarrow> None
      | Some (Inl e) \<Rightarrow> Some (signal_all (env_signals env) (release_slot True f), Failed e, [])
      | Some (Inr s) \<Rightarrow> Some (signal_all (env_signals env) (open_session ready port s f), Install b ready (length (fw_sessions f)), []))"
| "call_step env port (Install b ready sid) f =
     (case install_if_current ready sid (env_now env) (fw_pool f) of
        (p, Inr _) \<Rightarrow> Some (f\<lparr>fw_pool := p\<rparr>, Replenish True ready sid, [])
      | (p, Inl _) \<Rightarrow> Some (f\<lparr>fw_pool := p\<rparr>, CancelStale b ready sid, []))"
| "call_step env port (CancelStale b ready sid) f =
     Some (release_slot True (cancel_session sid f),
       if b then WaitReady False else Failed (Configuration ''target pod changed while opening a session''), [])"
| "call_step env port (Replenish h ready sid) f =
     Some (f, Threshold h ready sid, if wants_replenish (session_at f sid) then [ReplenishTask sid] else [])"
| "call_step env port (Threshold h ready sid) f =
     (if wants_prefetch (fw_config f) (session_at f sid) then Some (f, ClaimPrefetch h ready sid, [])
      else return_session h ready sid f)"
| "call_step env port (ClaimPrefetch h ready sid) f =
     (case prefetch_claim (fw_config f) ready (fw_pool f) of
        None \<Rightarrow> return_session h ready sid f
      | Some p \<Rightarrow> Some (f\<lparr>fw_pool := p\<rparr>, SpawnPrefetch h ready sid, []))"
| "call_step env port (SpawnPrefetch h ready sid) f =
     Some (release_slot h f, Returned sid ready, [PrefetchOpening ready port])"
| "call_step env port (Returned sid ready) f = None"
| "call_step env port (Failed e) f = None"
| "call_step env port Dropped f = None"

text \<open>
  A call can be dropped wherever it awaits: by its caller, or by \<open>connect_on_pod\<close> when the forwarder is
  cancelled.  The guards release what it holds; a session that it has just opened goes with it.
\<close>

primrec drop_call :: "call_pc \<Rightarrow> forwarder \<Rightarrow> (forwarder \<times> nat list) option" where
  "drop_call (WaitReady b) f = Some (f, [])"
| "drop_call (CheckTarget b ready) f = Some (f, [])"
| "drop_call (Retarget b ready) f = Some (f, [])"
| "drop_call (RetireDead b ready) f = Some (f, [])"
| "drop_call (Gate b ready) f = Some (f, [])"
| "drop_call (AwaitOther b ready) f = Some (f, [])"
| "drop_call (ReserveSlot b ready) f = Some (f, [])"
| "drop_call (AwaitPermit b ready) f = Some (drop_slot f, [])"
| "drop_call (Opening b ready) f = Some (release_slot True f, [])"
| "drop_call (Install b ready sid) f = Some (release_slot True f, [sid])"
| "drop_call (Replenish h ready sid) f = Some (release_slot h f, [])"
| "drop_call (ClaimPrefetch h ready sid) f = Some (release_slot h f, [])"
| "drop_call (SpawnPrefetch h ready sid) f = Some (release_slot h f, [])"
| "drop_call (CancelDrained b ready sids) f = None"
| "drop_call (Reuse b ready) f = None"
| "drop_call (CancelRetired b ready sids) f = None"
| "drop_call (FindAgain b ready) f = None"
| "drop_call (ReuseOther b ready) f = None"
| "drop_call (CancelStale b ready sid) f = None"
| "drop_call (Threshold h ready sid) f = None"
| "drop_call (Returned sid ready) f = None"
| "drop_call (Failed e) f = None"
| "drop_call Dropped f = None"

text \<open>The guards of \<open>connect_on_pod\<close> before its loop.\<close>

definition start_call :: "u16 \<Rightarrow> forwarder \<Rightarrow> forwarder \<times> call_pc" where
  "start_call port f =
     (if fw_cancel f then (f, Failed Cancelled)
      else if port = 0 then (f, Failed (Configuration ''target port must be greater than zero''))
      else (fst (next_call_id f), WaitReady True))"

text \<open>The loop of \<open>connect_on_pod\<close>, over what \<open>ensure_session_for_pod\<close> and \<open>Session::connect\<close> answer in each round.\<close>

primrec connect_loop ::
  "forwarder_config \<Rightarrow> nat \<Rightarrow> (nat \<Rightarrow> (kube_error, ksession \<times> ready_pod) result) \<Rightarrow> (nat \<Rightarrow> (kstream \<Rightarrow> bool) \<times> nat)
    \<Rightarrow> nat \<Rightarrow> (kube_error, kstream \<times> ready_pod) result" where
  "connect_loop cfg 0 ensure env k = Err (KCapacityExhausted 0 (max_sessions cfg))"
| "connect_loop cfg (Suc n) ensure env k =
     (case ensure k of
        Inl e \<Rightarrow> Err e
      | Inr (s, pod) \<Rightarrow>
          (case snd (ksession_connect (fst (env k)) (snd (env k)) s) of
             Inr stream \<Rightarrow> Ok (stream, pod)
           | Inl (KCapacityExhausted a c) \<Rightarrow> connect_loop cfg n ensure env (k + 1)
           | Inl e \<Rightarrow> Err e))"

definition connect_on_pod ::
  "bool \<Rightarrow> forwarder_config \<Rightarrow> u16 \<Rightarrow> (nat \<Rightarrow> (kube_error, ksession \<times> ready_pod) result) \<Rightarrow> (nat \<Rightarrow> (kstream \<Rightarrow> bool) \<times> nat)
    \<Rightarrow> (kube_error, kstream \<times> ready_pod) result" where
  "connect_on_pod cancelled cfg port ensure env =
     (if cancelled then Err Cancelled
      else if port = 0 then Err (Configuration ''target port must be greater than zero'')
      else connect_loop cfg (max_sessions cfg) ensure env 0)"

definition forwarder_connect ::
  "bool \<Rightarrow> forwarder_config \<Rightarrow> u16 \<Rightarrow> (nat \<Rightarrow> (kube_error, ksession \<times> ready_pod) result) \<Rightarrow> (nat \<Rightarrow> (kstream \<Rightarrow> bool) \<times> nat)
    \<Rightarrow> (kube_error, kstream) result" where
  "forwarder_connect cancelled cfg port ensure env =
     (case connect_on_pod cancelled cfg port ensure env of Inl e \<Rightarrow> Err e | Inr (stream, pod) \<Rightarrow> Ok stream)"

text \<open>The queries that go to the watcher; \<open>tripped\<close> says that the token is tripped before the wait ends.\<close>

definition ready_pod_identity :: "forwarder \<Rightarrow> forwarder \<times> ready_pod option" where
  "ready_pod_identity f = (let (pw, r) = ready_pod_query (fw_watcher f) in (f\<lparr>fw_watcher := pw\<rparr>, r))"

definition forwarder_ready_pod :: "forwarder \<Rightarrow> forwarder \<times> string option" where
  "forwarder_ready_pod f =
     (let (pw, r) = ready_pod_query (fw_watcher f) in (f\<lparr>fw_watcher := pw\<rparr>, map_option rp_name r))"

definition forwarder_wait_for_ready_pod ::
  "bool \<Rightarrow> (wait_event \<times> pod_watcher) list \<Rightarrow> forwarder \<Rightarrow> (forwarder \<times> string option) option" where
  "forwarder_wait_for_ready_pod tripped events f =
     (if fw_cancel f \<or> tripped then Some (f, None)
      else map_option (\<lambda>(pw, r). (f\<lparr>fw_watcher := pw\<rparr>, map_option rp_name r)) (wait_for_ready_pod (fw_watcher f) events))"

definition forwarder_has_running_pods :: "forwarder \<Rightarrow> bool" where
  "forwarder_has_running_pods f = has_running_pods (fw_watcher f)"

section \<open>Background tasks\<close>

primrec task_step :: "step_env \<Rightarrow> task_pc \<Rightarrow> forwarder \<Rightarrow> (forwarder \<times> task_pc) option" where
  "task_step env (ReplenishTask sid) f =
     Some (f\<lparr>fw_sessions := (fw_sessions f)[sid :=
       (fw_sessions f ! sid)\<lparr>os_session := replenish_spare_streams (env_now env) (session_at f sid)\<rparr>]\<rparr>, TaskDone)"
| "task_step env (PrefetchOpening ready port) f =
     (case env_open env of
        None \<Rightarrow> None
      | Some (Inl e) \<Rightarrow> Some (signal_all (env_signals env) f, PrefetchFinish ready None)
      | Some (Inr s) \<Rightarrow> Some (signal_all (env_signals env) (open_session ready port s f), PrefetchFinish ready (Some (length (fw_sessions f)))))"
| "task_step env (PrefetchFinish ready opened) f =
     (let (p, installed) = prefetch_finish (fw_config f) ready opened (env_now env) (fw_pool f)
      in Some (f\<lparr>fw_pool := p\<rparr>,
           case opened of None \<Rightarrow> TaskDone | Some sid \<Rightarrow> if installed then TaskDone else CancelTask [sid]))"
| "task_step env (CancelTask sids) f =
     (case sids of
        [] \<Rightarrow> Some (f, TaskDone)
      | sid # rest \<Rightarrow> Some (cancel_session sid f, CancelTask rest))"
| "task_step env TaskDone f = None"

text \<open>\<open>abort_all\<close>: a task ends at its next \<open>await\<close>; a loop that cancels sessions has none.\<close>

primrec abort_task :: "task_pc \<Rightarrow> task_pc \<times> nat list" where
  "abort_task (ReplenishTask sid) = (TaskDone, [])"
| "abort_task (PrefetchOpening ready port) = (TaskDone, [])"
| "abort_task (PrefetchFinish ready opened) = (TaskDone, case opened of Some sid \<Rightarrow> [sid] | None \<Rightarrow> [])"
| "abort_task (CancelTask sids) = (CancelTask sids, [])"
| "abort_task TaskDone = (TaskDone, [])"

section \<open>Pod changes, pruning and shutdown\<close>

definition pod_died :: "string \<Rightarrow> forwarder \<Rightarrow> forwarder \<times> task_pc list" where
  "pod_died name f =
     (case handle_pod_died (fw_watcher f) name (fw_pool f) of
        None \<Rightarrow> (f, [])
      | Some (p, drained) \<Rightarrow>
          (signal_all [ServerClose] (f\<lparr>fw_pool := p\<rparr>), [CancelTask drained]))"

definition prune_tick :: "nat \<Rightarrow> forwarder \<Rightarrow> forwarder \<times> task_pc list" where
  "prune_tick now f =
     (let (p, dropped) = prune_once (fw_config f) now (fw_sessions f) (fw_pool f)
      in (f\<lparr>fw_pool := p\<rparr>, [CancelTask dropped]))"

text \<open>
  One turn of the two loops that run until the forwarder is cancelled: \<open>None\<close> when the loop breaks.  The token
  is looked at first (\<open>biased\<close>), so a change or a tick that is there at the same time is not handled.
\<close>

datatype reactor_event = PodChanged pod_change | ReactorLagged | ReactorClosed

definition spawn_pod_change_reactor :: "reactor_event \<Rightarrow> forwarder \<Rightarrow> (forwarder \<times> task_pc list) option" where
  "spawn_pod_change_reactor ev f =
     (if fw_cancel f then None
      else case ev of
        PodChanged (PodDied name) \<Rightarrow> Some (pod_died name f)
      | PodChanged (PodReady name) \<Rightarrow> Some (f, [])
      | ReactorLagged \<Rightarrow> Some (f, [])
      | ReactorClosed \<Rightarrow> None)"

definition spawn_prune :: "nat \<Rightarrow> forwarder \<Rightarrow> (forwarder \<times> task_pc list) option" where
  "spawn_prune now f = (if fw_cancel f then None else Some (prune_tick now f))"

text \<open>
  Shutdown trips the watcher's token, the forwarder's and the parent of every session's token, then
  drains the pool; aborting the tasks is a step of its own.
\<close>

definition shutdown_cancel :: "forwarder \<Rightarrow> forwarder" where
  "shutdown_cancel f =
     f\<lparr>fw_watcher := watcher_shutdown (fw_watcher f), fw_cancel := True, fw_session_cancel := True,
       fw_sessions := map (\<lambda>s. s\<lparr>os_session := ksession_cancel (os_session s)\<rparr>) (fw_sessions f)\<rparr>"

definition drain_and_cancel_all :: "forwarder \<Rightarrow> forwarder \<times> task_pc list" where
  "drain_and_cancel_all f =
     (let (p, drained) = drain_pool None (fw_pool f) in (f\<lparr>fw_pool := p\<rparr>, [CancelTask drained]))"

section \<open>Interleavings\<close>

record system =
  sys_fw :: forwarder
  sys_calls :: "(u16 \<times> call_pc) list"
  sys_tasks :: "task_pc list"
  sys_abandoned :: "nat list"

definition system_init :: "forwarder \<Rightarrow> system" where
  "system_init f = \<lparr>sys_fw = f, sys_calls = [], sys_tasks = [], sys_abandoned = []\<rparr>"

text \<open>A session's own life (its streams, its connections) changes neither its port nor a tripped token.\<close>

definition session_evolves :: "ksession \<Rightarrow> ksession \<Rightarrow> bool" where
  "session_evolves s s' \<longleftrightarrow> k_port s' = k_port s \<and> (ks_is_cancelled s \<longrightarrow> ks_is_cancelled s')"

inductive fstep :: "system \<Rightarrow> system \<Rightarrow> bool" where
  start: "start_call port (sys_fw st) = (f, pc) \<Longrightarrow>
     fstep st (st\<lparr>sys_fw := f, sys_calls := sys_calls st @ [(port, pc)]\<rparr>)"
| call: "i < length (sys_calls st) \<Longrightarrow> sys_calls st ! i = (port, pc) \<Longrightarrow>
     call_step env port pc (sys_fw st) = Some (f, pc', new) \<Longrightarrow>
     fstep st (st\<lparr>sys_fw := f, sys_calls := (sys_calls st)[i := (port, pc')], sys_tasks := sys_tasks st @ new\<rparr>)"
| dropped: "i < length (sys_calls st) \<Longrightarrow> sys_calls st ! i = (port, pc) \<Longrightarrow> drop_call pc (sys_fw st) = Some (f, lost) \<Longrightarrow>
     fstep st (st\<lparr>sys_fw := f, sys_calls := (sys_calls st)[i := (port, Dropped)], sys_abandoned := sys_abandoned st @ lost\<rparr>)"
| task: "j < length (sys_tasks st) \<Longrightarrow> task_step env (sys_tasks st ! j) (sys_fw st) = Some (f, t) \<Longrightarrow>
     fstep st (st\<lparr>sys_fw := f, sys_tasks := (sys_tasks st)[j := t]\<rparr>)"
| died: "pod_died name (sys_fw st) = (f, new) \<Longrightarrow>
     fstep st (st\<lparr>sys_fw := f, sys_tasks := sys_tasks st @ new\<rparr>)"
| prune: "prune_tick now (sys_fw st) = (f, new) \<Longrightarrow>
     fstep st (st\<lparr>sys_fw := f, sys_tasks := sys_tasks st @ new\<rparr>)"
| shutdown: "fstep st (st\<lparr>sys_fw := shutdown_cancel (sys_fw st)\<rparr>)"
| drain: "fw_cancel (sys_fw st) \<Longrightarrow> drain_and_cancel_all (sys_fw st) = (f, new) \<Longrightarrow>
     fstep st (st\<lparr>sys_fw := f, sys_tasks := sys_tasks st @ new\<rparr>)"
| abort: "fw_cancel (sys_fw st) \<Longrightarrow> j < length (sys_tasks st) \<Longrightarrow> abort_task (sys_tasks st ! j) = (t, lost) \<Longrightarrow>
     fstep st (st\<lparr>sys_tasks := (sys_tasks st)[j := t], sys_abandoned := sys_abandoned st @ lost\<rparr>)"
| session: "sid < length (fw_sessions (sys_fw st)) \<Longrightarrow> session_evolves (session_at (sys_fw st) sid) s' \<Longrightarrow>
     fstep st (st\<lparr>sys_fw := (sys_fw st)\<lparr>fw_sessions :=
       (fw_sessions (sys_fw st))[sid := (fw_sessions (sys_fw st) ! sid)\<lparr>os_session := s'\<rparr>]\<rparr>\<rparr>)"
| watcher: "fstep st (st\<lparr>sys_fw := (sys_fw st)\<lparr>fw_watcher := pw\<rparr>\<rparr>)"

inductive reachable :: "forwarder \<Rightarrow> system \<Rightarrow> bool" for f0 where
  init: "reachable f0 (system_init f0)"
| step: "reachable f0 st \<Longrightarrow> fstep st st' \<Longrightarrow> reachable f0 st'"

end
