(* ===== verification/Forwarder_Laws.thy ===== *)
theory Forwarder_Laws
  imports Forwarder Kube_Session_Laws
begin

text \<open>
  What the forwarder promises under every interleaving of its calls and tasks: the lock-free view of
  the pool is a refinement of a simple specification, the pool is bounded, a call gets a session for its
  own port, and no session that was opened is lost.
\<close>

section \<open>A session keeps its port and its cancellation\<close>

lemma try_open_cancelled [simp]: "session_cancelled (fst (try_open elapsed eh dh i s)) = session_cancelled s"
  by (simp add: try_open_def Let_def split: prod.split sum.split spdy_error.split)

lemma try_each_cancelled: "try_each elapsed eh dh is' s = (s', r) \<Longrightarrow> session_cancelled s' = session_cancelled s"
proof (induction is' arbitrary: s)
  case (Cons i is')
  obtain s1 q where o: "try_open elapsed eh dh i s = (s1, q)" by force
  have "session_cancelled s1 = session_cancelled s" using try_open_cancelled [of elapsed eh dh i s] by (simp add: o)
  then show ?case using Cons o by (auto split: sum.splits option.splits)
qed simp

lemma round_robin_cancelled: "round_robin elapsed eh dh n s = (s', r) \<Longrightarrow> session_cancelled s' = session_cancelled s"
proof (induction n arbitrary: s)
  case (Suc n)
  let ?i = "unat (next_pick s mod word_of_nat (length (pool s)))" and ?s = "s\<lparr>next_pick := next_pick s + 1\<rparr>"
  obtain s1 q where o: "try_open elapsed eh dh ?i ?s = (s1, q)" by force
  have "session_cancelled s1 = session_cancelled s" using try_open_cancelled [of elapsed eh dh ?i ?s] by (simp add: o)
  then show ?case using Suc o by (auto simp: Let_def split: sum.splits option.splits)
qed simp

lemma session_open_cancelled:
  assumes "session_open_stream_pair elapsed eh dh s = (s', r)"
  shows "session_cancelled s' = session_cancelled s"
proof -
  obtain s1 r1 where t: "two_choices elapsed eh dh s = (s1, r1)" by force
  obtain s2 r2 where rr: "round_robin elapsed eh dh (length (pool s)) s1 = (s2, r2)" by force
  have "session_cancelled s1 = session_cancelled s"
    using t try_each_cancelled by (fastforce simp: two_choices_def pick_two_def Let_def split: if_splits)
  then show ?thesis
    using assms round_robin_cancelled [OF rr] by (auto simp: session_open_stream_pair_def t rr split: sum.splits option.splits)
qed

lemma open_new_stream_keeps [simp]:
  "k_port (fst (open_new_stream elapsed ks)) = k_port ks"
  "ks_is_cancelled (fst (open_new_stream elapsed ks)) = ks_is_cancelled ks"
proof -
  let ?eh = "pair_headers ''error'' (k_port ks) (next_request_id ks)" and ?dh = "pair_headers ''data'' (k_port ks) (next_request_id ks)"
  obtain s' q where o: "session_open_stream_pair elapsed ?eh ?dh (k_inner ks) = (s', q)" by force
  have "session_cancelled s' = session_cancelled (k_inner ks)"
    using session_open_cancelled [OF o] .
  then show "k_port (fst (open_new_stream elapsed ks)) = k_port ks"
    "ks_is_cancelled (fst (open_new_stream elapsed ks)) = ks_is_cancelled ks"
    by (simp_all add: open_new_stream_def portforward_headers_def ks_is_cancelled_def Let_def o split: sum.split)
qed

lemma ks_is_cancelled_updates [simp]:
  "ks_is_cancelled (ks\<lparr>spare_streams := ss\<rparr>) = ks_is_cancelled ks" "ks_is_cancelled (ks\<lparr>replenishing := b\<rparr>) = ks_is_cancelled ks"
  by (simp_all add: ks_is_cancelled_def)

lemma drop_kstream_keeps [simp]:
  "k_port (fst (drop_kstream s ks)) = k_port ks" "ks_is_cancelled (fst (drop_kstream s ks)) = ks_is_cancelled ks"
  by (simp_all add: drop_kstream_def ks_is_cancelled_def Let_def split: prod.split)

lemma replenish_loop_keeps:
  "k_port (replenish_loop elapsed ks) = k_port ks \<and> ks_is_cancelled (replenish_loop elapsed ks) = ks_is_cancelled ks"
proof (induction elapsed ks rule: replenish_loop.induct)
  case (1 elapsed ks)
  obtain ks1 r where o: "open_new_stream elapsed ks = (ks1, r)" by force
  have k: "k_port ks1 = k_port ks" "ks_is_cancelled ks1 = ks_is_cancelled ks"
    using open_new_stream_keeps [of elapsed ks] by (simp_all add: o)
  show ?case
  proof (cases "length (spare_streams ks) < SPARE_STREAM_CAP \<and> \<not> (ks_is_full ks \<or> ks_is_cancelled ks)")
    case True
    show ?thesis
    proof (cases r)
      case (Inl e)
      then show ?thesis using True k o by (subst (1 2) replenish_loop.simps) simp
    next
      case (Inr s)
      have "replenish_loop elapsed ks = (if length (spare_streams ks1) < SPARE_STREAM_CAP
          then replenish_loop elapsed (ks1\<lparr>spare_streams := spare_streams ks1 @ [s]\<rparr>) else fst (drop_kstream s ks1))"
        using True o Inr by (subst replenish_loop.simps) simp
      then show ?thesis using "1.IH" [OF _ _ refl _ Inr] True k o by simp
    qed
  next
    case False
    then show ?thesis by (subst (1 2) replenish_loop.simps) auto
  qed
qed

lemma replenish_evolves: "session_evolves ks (replenish_spare_streams elapsed ks)"
  using replenish_loop_keeps [of elapsed "ks\<lparr>replenishing := True\<rparr>"]
  by (simp add: session_evolves_def replenish_spare_streams_def)

lemma pop_spares_keeps:
  "pop_spares rx ss ks = (ks', r) \<Longrightarrow> k_port ks' = k_port ks \<and> ks_is_cancelled ks' = ks_is_cancelled ks"
proof (induction ss arbitrary: ks)
  case (Cons s ss)
  show ?case
  proof (cases "spare_read_closed rx s ks")
    case True
    then show ?thesis using Cons.IH [of "fst (drop_kstream s ks)"] Cons.prems by simp
  qed (use Cons.prems in auto)
qed auto

text \<open>Handing a stream out and replenishing are among the changes that a session may undergo.\<close>

lemma connect_evolves: "session_evolves ks (fst (ksession_connect rx elapsed ks))"
proof -
  obtain ks1 q where p: "pop_spares rx (spare_streams ks) ks = (ks1, q)" by force
  show ?thesis
    using pop_spares_keeps [OF p] open_new_stream_keeps [of elapsed ks1]
    by (cases q) (simp_all add: session_evolves_def ksession_connect_def p)
qed

lemma cancel_evolves: "session_evolves ks (ksession_cancel ks)" "ks_is_cancelled (ksession_cancel ks)"
  by (simp_all add: session_evolves_def ksession_cancel_def ks_is_cancelled_def session_close_def)

section \<open>The list of sessions only grows\<close>

definition sessions_extend :: "opened_session list \<Rightarrow> opened_session list \<Rightarrow> bool" where
  "sessions_extend ss ss' \<longleftrightarrow> length ss \<le> length ss' \<and>
     (\<forall>i<length ss. os_pod (ss' ! i) = os_pod (ss ! i) \<and> session_evolves (os_session (ss ! i)) (os_session (ss' ! i)))"

lemma sessions_extend_refl [simp]: "sessions_extend ss ss"
  by (simp add: sessions_extend_def session_evolves_def)

lemma sessions_extend_update:
  "session_evolves (os_session (ss ! i)) s' \<Longrightarrow> sessions_extend ss (ss[i := (ss ! i)\<lparr>os_session := s'\<rparr>])"
  by (simp add: sessions_extend_def nth_update_if session_evolves_def)

lemma sessions_extend_cancel [simp]: "sessions_extend (fw_sessions f) (fw_sessions (cancel_session sid f))"
  by (simp add: cancel_session_def sessions_extend_update cancel_evolves)

lemma sessions_extend_open [simp]: "sessions_extend (fw_sessions f) (fw_sessions (open_session ready port s f))"
  by (simp add: open_session_def sessions_extend_def nth_append session_evolves_def Let_def)

lemma sessions_extend_shutdown [simp]: "sessions_extend (fw_sessions f) (fw_sessions (shutdown_cancel f))"
  by (simp add: shutdown_cancel_def sessions_extend_def cancel_evolves)

lemma release_slot_simps [simp]:
  "fw_sessions (release_slot h f) = fw_sessions f" "fw_config (release_slot h f) = fw_config f"
  "fw_sessions (drop_slot f) = fw_sessions f" "fw_config (drop_slot f) = fw_config f"
  "fw_config (cancel_session sid f) = fw_config f" "fw_pool (cancel_session sid f) = fw_pool f"
  "fw_config (open_session ready port s f) = fw_config f" "fw_pool (open_session ready port s f) = fw_pool f"
  "fw_config (shutdown_cancel f) = fw_config f" "fw_pool (shutdown_cancel f) = fw_pool f"
  by (simp_all add: release_slot_def drop_slot_def cancel_session_def open_session_def shutdown_cancel_def Let_def)

lemma signal_all_simps [simp]:
  "fw_config (signal_all ss f) = fw_config f" "fw_pool (signal_all ss f) = fw_pool f"
  "fw_watcher (signal_all ss f) = fw_watcher f" "fw_cancel (signal_all ss f) = fw_cancel f"
  "fw_session_cancel (signal_all ss f) = fw_session_cancel f" "fw_permits (signal_all ss f) = fw_permits f"
  "fw_sessions (signal_all ss f) = fw_sessions f"
  by (simp_all add: signal_all_def)

section \<open>The specification of the pool\<close>

text \<open>
  What a reader of the pool relies on: there is a target pod or none, and a set of sessions that were
  opened for it.  The pool moves to another target with no session, gains a session of its
  target, or loses some.
\<close>

record pool_view =
  view_target :: "ready_pod option"
  view_live :: "nat set"

inductive view_step :: "(nat \<Rightarrow> ready_pod) \<Rightarrow> pool_view \<Rightarrow> pool_view \<Rightarrow> bool" for opened_for where
  stutter: "view_step opened_for v v"
| move: "view_step opened_for v \<lparr>view_target = t, view_live = {}\<rparr>"
| gain: "view_target v = Some (opened_for sid) \<Longrightarrow>
    view_step opened_for v \<lparr>view_target = view_target v, view_live = insert sid (view_live v)\<rparr>"
| lose: "gone \<subseteq> view_live v \<Longrightarrow>
    view_step opened_for v \<lparr>view_target = view_target v, view_live = view_live v - gone\<rparr>"

text \<open>The view that the lock-free snapshot gives.\<close>

definition pool_abs :: "session_pool \<Rightarrow> pool_view" where
  "pool_abs p = \<lparr>view_target = pool_target p, view_live = set (snapshot p)\<rparr>"

section \<open>How the pool moves\<close>

definition coherent :: "opened_session list \<Rightarrow> session_pool \<Rightarrow> bool" where
  "coherent ss p \<longleftrightarrow> snapshot p = map ps_session (entries p) \<and>
     (\<forall>sid \<in> set (snapshot p). sid < length ss \<and> pool_target p = Some (os_pod (ss ! sid)))"

text \<open>What one critical section may do to the pool, with \<open>ss\<close> the sessions there are afterwards.\<close>

inductive pool_move :: "opened_session list \<Rightarrow> session_pool \<Rightarrow> session_pool \<Rightarrow> bool" for ss where
  keep: "entries p' = entries p \<Longrightarrow> pool_target p' = pool_target p \<Longrightarrow> snapshot p' = snapshot p \<Longrightarrow> pool_move ss p p'"
| drain: "entries p' = [] \<Longrightarrow> snapshot p' = [] \<Longrightarrow> pool_move ss p p'"
| push: "entries p' = entries p @ [e] \<Longrightarrow> snapshot p' = snapshot p @ [ps_session e] \<Longrightarrow> pool_target p' = pool_target p \<Longrightarrow>
    ps_session e < length ss \<Longrightarrow> pool_target p = Some (os_pod (ss ! ps_session e)) \<Longrightarrow> pool_move ss p p'"
| shed: "set (entries p') \<subseteq> set (entries p) \<Longrightarrow> length (entries p') \<le> length (entries p) \<Longrightarrow>
    snapshot p' = map ps_session (entries p') \<Longrightarrow> pool_target p' = pool_target p \<Longrightarrow> pool_move ss p p'"

lemma coherent_extend:
  assumes "coherent ss p" "sessions_extend ss ss'"
  shows "coherent ss' p"
  using assms by (fastforce simp: coherent_def sessions_extend_def)

lemma pool_move_coherent:
  assumes "pool_move ss p p'" "coherent ss p"
  shows "coherent ss p'"
  using assms by cases (auto simp: coherent_def)

lemma pool_move_refines:
  assumes "pool_move ss p p'" "coherent ss p"
  shows "view_step (\<lambda>sid. os_pod (ss ! sid)) (pool_abs p) (pool_abs p')"
  using assms(1)
proof cases
  case keep
  then show ?thesis using view_step.stutter by (simp add: pool_abs_def)
next
  case drain
  then show ?thesis using view_step.move by (simp add: pool_abs_def)
next
  case (push e)
  then show ?thesis using view_step.gain [of "pool_abs p" "\<lambda>sid. os_pod (ss ! sid)" "ps_session e"]
    by (simp add: pool_abs_def)
next
  case shed
  let ?gone = "set (snapshot p) - set (snapshot p')"
  have "set (snapshot p') = set (snapshot p) - ?gone" using shed assms(2) by (auto simp: coherent_def)
  then show ?thesis using shed view_step.lose [of ?gone "pool_abs p" "\<lambda>sid. os_pod (ss ! sid)"]
    by (simp add: pool_abs_def)
qed

lemma push_entry_moves:
  assumes "coherent ss p" "sid < length ss" "pool_target p = Some (os_pod (ss ! sid))"
  shows "pool_move ss p (push_entry sid now p)"
  using assms by (intro pool_move.push [of _ _ "\<lparr>ps_session = sid, created_at = now\<rparr>"])
    (simp_all add: push_entry_def refresh_snapshot_def coherent_def)

lemma extract_take_facts:
  "extract_take n pred xs = (out, rest) \<Longrightarrow>
     set out \<union> set rest = set xs \<and> length out + length rest = length xs \<and> length out \<le> n \<and> list_all pred out"
proof (induction n pred xs arbitrary: out rest rule: extract_take.induct)
  case (2 n pred x xs)
  show ?case
  proof (cases "n > 0 \<and> pred x")
    case True
    obtain o' r' where e: "extract_take (n - 1) pred xs = (o', r')" by force
    have "out = x # o'" "rest = r'" using "2.prems" True e by simp_all
    then show ?thesis using "2.IH"(1) [OF True e] True by auto
  next
    case False
    obtain o' r' where e: "extract_take n pred xs = (o', r')" by force
    have "out = o'" "rest = x # r'" using "2.prems" False e by (simp_all only: extract_take.simps if_False Let_def prod.case prod.inject)
    then show ?thesis using "2.IH"(2) [OF False e] by auto
  qed
qed simp

lemma extract_take_none: "extract_take n pred xs = ([], rest) \<Longrightarrow> rest = xs"
proof (induction n pred xs arbitrary: rest rule: extract_take.induct)
  case (2 n pred x xs)
  obtain o' r' where e: "extract_take n pred xs = (o', r')" by force
  have "\<not> (n > 0 \<and> pred x)" using "2.prems" by (auto split: prod.splits)
  then show ?case using "2.IH"(2) "2.prems" e by (auto split: if_splits)
qed simp

lemma extract_entries_facts:
  assumes "extract_entries n pred p = (p', out)" "coherent ss p"
  shows "pool_move ss' p p' \<and> set (snapshot p) = set out \<union> set (snapshot p') \<and> opening_count p' = opening_count p \<and>
    length out + length (entries p') = length (entries p) \<and> length out \<le> n"
proof -
  obtain xs rest where e: "extract_take n pred (entries p) = (xs, rest)" by force
  note x = extract_take_facts [OF e]
  show ?thesis
  proof (cases "xs = []")
    case True
    then have "rest = entries p" using e extract_take_none by blast
    then show ?thesis using assms e True by (auto simp: extract_entries_def intro: pool_move.keep)
  next
    case False
    then have p': "p' = refresh_snapshot (p\<lparr>entries := rest\<rparr>)" "out = map ps_session xs"
      using assms(1) e by (auto simp: extract_entries_def)
    have "set (snapshot p) = set out \<union> set (snapshot p')"
      using x assms(2) p' by (auto simp: coherent_def refresh_snapshot_def)
    then show ?thesis using x p' by (auto simp: refresh_snapshot_def intro!: pool_move.shed)
  qed
qed

section \<open>Sections that take sessions out\<close>

text \<open>
  Four critical sections take sessions out of the pool and return them to be cancelled after the lock is
  released.  They share a contract: the pool makes one of its moves and does not grow, every session
  that leaves it is returned, and the counter of opens is untouched.
\<close>

locale taking_section =
  fixes sec :: "session_pool \<Rightarrow> session_pool \<times> nat list"
  assumes moves: "coherent ss p \<Longrightarrow> sec p = (p', out) \<Longrightarrow> pool_move ss p p'"
    and returns_all: "coherent ss p \<Longrightarrow> sec p = (p', out) \<Longrightarrow> set (snapshot p) = set out \<union> set (snapshot p')"
    and shrinks: "coherent ss p \<Longrightarrow> sec p = (p', out) \<Longrightarrow> length (entries p') \<le> length (entries p)"
    and counter: "coherent ss p \<Longrightarrow> sec p = (p', out) \<Longrightarrow> opening_count p' = opening_count p"
begin

lemma taken_opened:
  assumes "coherent ss p" "sec p = (p', out)"
  shows "list_all (\<lambda>sid. sid < length ss) out"
  using returns_all [OF assms] assms(1) by (auto simp: coherent_def list_all_iff)

end

interpretation dr: taking_section "drain_pool t" for t
  by unfold_locales (auto simp: drain_pool_def refresh_snapshot_def coherent_def intro!: pool_move.drain)

interpretation rt: taking_section "retarget ready" for ready
proof
  fix ss p p' out assume a: "coherent ss p" "retarget ready p = (p', out)"
  have c: "p' = p \<and> out = [] \<or> drain_pool (Some ready) p = (p', out)"
    using a(2) by (cases "pool_target p = Some ready") (simp_all add: retarget_def)
  show "pool_move ss p p'" using c dr.moves [OF a(1)] pool_move.keep [of p' p] by blast
  show "set (snapshot p) = set out \<union> set (snapshot p')" using c dr.returns_all [OF a(1)] by (elim disjE) simp_all
  show "length (entries p') \<le> length (entries p)" using c dr.shrinks [OF a(1)] by (elim disjE) simp_all
  show "opening_count p' = opening_count p" using c dr.counter [OF a(1)] by (elim disjE) simp_all
qed

lemma extract_section: "taking_section (\<lambda>p. extract_entries (n p) (pred p) p)"
proof
  fix ss p p' out assume a: "coherent ss p" "extract_entries (n p) (pred p) p = (p', out)"
  note E = extract_entries_facts [OF a(2,1), of ss]
  show "pool_move ss p p'" "set (snapshot p) = set out \<union> set (snapshot p')" "opening_count p' = opening_count p"
    using E by simp_all
  show "length (entries p') \<le> length (entries p)" using E by linarith
qed

interpretation rd: taking_section "retire_dead store" for store
  using extract_section by (simp add: retire_dead_def [abs_def])

interpretation pr: taking_section "prune_once cfg now store" for cfg now store
  using extract_section by (simp add: prune_once_def [abs_def])

section \<open>What a step of a call or a task does\<close>

text \<open>A session for a port; a session in the hands of a call or task; what their counters name.\<close>

definition for_port :: "opened_session list \<Rightarrow> u16 \<Rightarrow> nat \<Rightarrow> bool" where
  "for_port ss port sid \<longleftrightarrow> sid < length ss \<and> k_port (os_session (ss ! sid)) = port"

definition for_pod :: "opened_session list \<Rightarrow> ready_pod \<Rightarrow> nat \<Rightarrow> bool" where
  "for_pod ss ready sid \<longleftrightarrow> sid < length ss \<and> os_pod (ss ! sid) = ready"

definition all_opened :: "opened_session list \<Rightarrow> nat list \<Rightarrow> bool" where
  "all_opened ss sids \<longleftrightarrow> list_all (\<lambda>sid. sid < length ss) sids"

fun call_ok :: "opened_session list \<Rightarrow> u16 \<times> call_pc \<Rightarrow> bool" where
  "call_ok ss (port, CancelDrained b ready sids) = all_opened ss sids"
| "call_ok ss (port, CancelRetired b ready sids) = all_opened ss sids"
| "call_ok ss (port, Install b ready sid) = (for_port ss port sid \<and> for_pod ss ready sid)"
| "call_ok ss (port, CancelStale b ready sid) = (for_port ss port sid \<and> for_pod ss ready sid)"
| "call_ok ss (port, Replenish h ready sid) = for_port ss port sid"
| "call_ok ss (port, Threshold h ready sid) = for_port ss port sid"
| "call_ok ss (port, ClaimPrefetch h ready sid) = for_port ss port sid"
| "call_ok ss (port, SpawnPrefetch h ready sid) = for_port ss port sid"
| "call_ok ss (port, Returned sid ready) = for_port ss port sid"
| "call_ok ss _ = True"

fun task_ok :: "opened_session list \<Rightarrow> task_pc \<Rightarrow> bool" where
  "task_ok ss (ReplenishTask sid) = (sid < length ss)"
| "task_ok ss (PrefetchFinish ready (Some sid)) = for_pod ss ready sid"
| "task_ok ss (CancelTask sids) = all_opened ss sids"
| "task_ok ss _ = True"

lemma opened_extend:
  assumes "sessions_extend ss ss'"
  shows "for_port ss port sid \<Longrightarrow> for_port ss' port sid" "for_pod ss ready sid \<Longrightarrow> for_pod ss' ready sid"
    "all_opened ss sids \<Longrightarrow> all_opened ss' sids" "sid < length ss \<Longrightarrow> sid < length ss'"
  using assms by (auto simp: for_port_def for_pod_def all_opened_def sessions_extend_def session_evolves_def list_all_iff)

lemma call_ok_extend: "sessions_extend ss ss' \<Longrightarrow> call_ok ss c \<Longrightarrow> call_ok ss' c"
  by (cases "(ss, c)" rule: call_ok.cases) (auto intro: opened_extend)

lemma task_ok_extend: "sessions_extend ss ss' \<Longrightarrow> task_ok ss t \<Longrightarrow> task_ok ss' t"
  by (cases "(ss, t)" rule: task_ok.cases) (auto intro: opened_extend)

lemma find_reusable_ok:
  assumes "find_reusable_session ss port p = Some sid" "coherent ss p"
  shows "for_port ss port sid"
  using assms by (auto simp: find_reusable_session_def find_Some_iff for_port_def session_serves_def coherent_def)

lemma open_session_ok:
  "for_port (fw_sessions (open_session ready port s f)) port (length (fw_sessions f))"
  "for_pod (fw_sessions (open_session ready port s f)) ready (length (fw_sessions f))"
  by (simp_all add: open_session_def for_port_def for_pod_def ksession_from_spdy_def ksession_cancel_def Let_def)

lemma release_slot_pool [simp]:
  "pool_move ss (fw_pool f) (fw_pool (release_slot h f))" "pool_move ss (fw_pool f) (fw_pool (drop_slot f))"
  by (auto simp: release_slot_def drop_slot_def opening_slot_drop_def intro!: pool_move.keep)

lemma pool_move_refl [simp]: "pool_move ss p p"
  by (rule pool_move.keep) simp_all

lemma release_cancelled_pool [simp]: "fw_pool (release_slot h (cancel_session sid f)) = fw_pool (release_slot h f)"
  by (simp add: release_slot_def cancel_session_def)

definition step_fine :: "forwarder \<Rightarrow> forwarder \<Rightarrow> bool" where
  "step_fine f f' \<longleftrightarrow> sessions_extend (fw_sessions f) (fw_sessions f') \<and>
     pool_move (fw_sessions f') (fw_pool f) (fw_pool f') \<and> fw_config f' = fw_config f"

lemma step_fine_pool:
  "pool_move (fw_sessions f) (fw_pool f) p \<Longrightarrow> step_fine f (f\<lparr>fw_pool := p\<rparr>)"
  by (simp add: step_fine_def)

lemma step_fine_signal [simp]: "step_fine f (signal_all ss f') = step_fine f f'"
  by (simp add: step_fine_def)

lemma step_fine_simps [simp]:
  "step_fine f f" "step_fine f (f\<lparr>fw_watcher := pw\<rparr>)" "step_fine f (cancel_session sid f)"
  "step_fine f (open_session ready port s f)" "step_fine f (release_slot h f)" "step_fine f (drop_slot f)"
  "step_fine f (f\<lparr>fw_permits := n\<rparr>)" "step_fine f (release_slot h (cancel_session sid f))"
  by (simp_all add: step_fine_def)

lemma reuse_or_fine:
  assumes "reuse_or pc ready port f = Some (f', pc', new)" "coherent (fw_sessions f) (fw_pool f)"
    and "call_ok (fw_sessions f) (port, pc)"
  shows "f' = f \<and> new = [] \<and> call_ok (fw_sessions f) (port, pc')"
  using assms find_reusable_ok [of "fw_sessions f" port "fw_pool f"] by (auto simp: reuse_or_def split: option.splits)

lemma prefetch_claim_moves: "prefetch_claim cfg ready p = Some p' \<Longrightarrow> pool_move ss p p'"
  by (auto simp: prefetch_claim_def intro: pool_move.keep split: if_splits)

lemma reserve_moves: "reserve_new_slot cfg p = Ok p' \<Longrightarrow> pool_move ss p p'"
  by (auto simp: reserve_new_slot_def opening_slot_new_def Let_def intro: pool_move.keep split: if_splits)

lemma install_moves:
  assumes "install_if_current ready sid now p = (p', r)" "coherent ss p" "for_pod ss ready sid"
  shows "pool_move ss p p'"
  using assms by (auto simp: install_if_current_def for_pod_def intro: push_entry_moves split: if_splits)

lemma call_step_fine:
  assumes "call_step env port pc f = Some (f', pc', new)" "coherent (fw_sessions f) (fw_pool f)"
    and "call_ok (fw_sessions f) (port, pc)"
  shows "step_fine f f' \<and> call_ok (fw_sessions f') (port, pc') \<and> list_all (task_ok (fw_sessions f')) new"
proof (cases pc)
  case (WaitReady b)
  then show ?thesis using assms(1) by (auto split: option.splits)
next
  case (Retarget b ready)
  obtain p out where r: "retarget ready (fw_pool f) = (p, out)" by force
  then show ?thesis
    using Retarget assms rt.moves [OF assms(2) r] rt.taken_opened [OF assms(2) r] by (auto simp: all_opened_def intro: step_fine_pool)
next
  case (CancelDrained b ready sids)
  then show ?thesis
    using assms opened_extend(3) [OF sessions_extend_cancel] by (auto simp: all_opened_def split: list.splits)
next
  case (Reuse b ready)
  then show ?thesis using reuse_or_fine [OF _ assms(2)] assms by fastforce
next
  case (RetireDead b ready)
  obtain p out where r: "retire_dead (fw_sessions f) (fw_pool f) = (p, out)" by force
  then show ?thesis
    using RetireDead assms rd.moves [OF assms(2) r] rd.taken_opened [OF assms(2) r] by (auto simp: all_opened_def intro: step_fine_pool)
next
  case (CancelRetired b ready sids)
  then show ?thesis
    using assms opened_extend(3) [OF sessions_extend_cancel] by (auto simp: all_opened_def split: list.splits)
next
  case (FindAgain b ready)
  then show ?thesis using reuse_or_fine [OF _ assms(2)] assms by fastforce
next
  case (ReuseOther b ready)
  then show ?thesis using reuse_or_fine [OF _ assms(2)] assms by fastforce
next
  case (ReserveSlot b ready)
  then show ?thesis using assms reserve_moves by (auto intro!: step_fine_pool split: sum.splits)
next
  case (AwaitPermit b ready)
  then show ?thesis using assms(1) by (auto split: permit_wait.splits if_splits)
next
  case (Opening b ready)
  then show ?thesis using assms(1) open_session_ok by (auto split: option.splits sum.splits)
next
  case (Install b ready sid)
  obtain p r where r: "install_if_current ready sid (env_now env) (fw_pool f) = (p, r)" by force
  show ?thesis
    using Install assms install_moves [OF r assms(2)] r by (auto intro!: step_fine_pool split: sum.splits)
next
  case (CancelStale b ready sid)
  then show ?thesis using assms by auto
next
  case (Replenish h ready sid)
  then show ?thesis using assms by (auto simp: for_port_def)
next
  case (Threshold h ready sid)
  then show ?thesis using assms by (auto simp: return_session_def split: if_splits)
next
  case (ClaimPrefetch h ready sid)
  then show ?thesis
    using assms prefetch_claim_moves by (auto simp: return_session_def intro!: step_fine_pool split: option.splits)
qed (use assms in auto)

lemma drop_call_fine: "drop_call pc f = Some (f', lost) \<Longrightarrow> step_fine f f'"
  by (cases pc) auto

lemma pool_move_flag: "pool_move ss (p\<lparr>prefetch_in_flight := b\<rparr>) p' = pool_move ss p p'"
  by (simp add: pool_move.simps)

lemma prefetch_finish_moves:
  assumes "prefetch_finish cfg ready opened now p = (p', installed)" "coherent ss p"
    and "\<And>sid. opened = Some sid \<Longrightarrow> for_pod ss ready sid"
  shows "pool_move ss p p'"
proof -
  let ?p = "p\<lparr>prefetch_in_flight := False\<rparr>"
  have c: "coherent ss ?p" using assms(2) by (simp add: coherent_def)
  have "pool_move ss ?p p'"
    using assms(1,3) push_entry_moves [OF c] by (auto simp: prefetch_finish_def for_pod_def Let_def split: option.splits if_splits)
  then show ?thesis by (simp add: pool_move_flag)
qed

lemma task_step_fine:
  assumes "task_step env t f = Some (f', t')" "coherent (fw_sessions f) (fw_pool f)" "task_ok (fw_sessions f) t"
  shows "step_fine f f' \<and> task_ok (fw_sessions f') t'"
proof (cases t)
  case (ReplenishTask sid)
  then show ?thesis using assms sessions_extend_update [OF replenish_evolves] by (auto simp: step_fine_def)
next
  case (PrefetchOpening ready port)
  then show ?thesis using assms(1) open_session_ok by (auto split: option.splits sum.splits)
next
  case (PrefetchFinish ready opened)
  obtain p b where r: "prefetch_finish (fw_config f) ready opened (env_now env) (fw_pool f) = (p, b)" by force
  have ok: "for_pod (fw_sessions f) ready sid" if "opened = Some sid" for sid using PrefetchFinish assms(3) that by simp
  have "pool_move (fw_sessions f) (fw_pool f) p" using prefetch_finish_moves [OF r assms(2)] ok by simp
  then show ?thesis
    using PrefetchFinish assms(1) r ok
    by (auto simp: all_opened_def for_pod_def intro: step_fine_pool split: option.splits)
next
  case (CancelTask sids)
  then show ?thesis
    using assms opened_extend(3) [OF sessions_extend_cancel] by (auto simp: all_opened_def split: list.splits)
qed (use assms in auto)

definition system_inv :: "system \<Rightarrow> bool" where
  "system_inv st \<longleftrightarrow> coherent (fw_sessions (sys_fw st)) (fw_pool (sys_fw st)) \<and>
     list_all (call_ok (fw_sessions (sys_fw st))) (sys_calls st) \<and> list_all (task_ok (fw_sessions (sys_fw st))) (sys_tasks st)"

lemma step_fine_coherent: "step_fine f f' \<Longrightarrow> coherent (fw_sessions f) (fw_pool f) \<Longrightarrow> coherent (fw_sessions f') (fw_pool f')"
  using pool_move_coherent coherent_extend unfolding step_fine_def by blast

lemma step_fine_lists:
  assumes "step_fine f f'"
  shows "list_all (call_ok (fw_sessions f)) cs \<Longrightarrow> list_all (call_ok (fw_sessions f')) cs"
    "list_all (task_ok (fw_sessions f)) ts \<Longrightarrow> list_all (task_ok (fw_sessions f')) ts"
  using assms call_ok_extend task_ok_extend by (auto simp: step_fine_def list_all_iff)

lemma system_inv_step:
  assumes "system_inv st" "step_fine (sys_fw st) (sys_fw st')"
    and "list_all (call_ok (fw_sessions (sys_fw st'))) (sys_calls st')" "list_all (task_ok (fw_sessions (sys_fw st'))) (sys_tasks st')"
  shows "system_inv st'"
  using assms step_fine_coherent by (simp add: system_inv_def)

lemma pod_died_cases:
  assumes "pod_died name f = (f', new)"
  obtains "f' = f" "new = []"
  | p out where "drain_pool None (fw_pool f) = (p, out)" "new = [CancelTask out]"
      "f' = signal_all [ServerClose] (f\<lparr>fw_pool := p\<rparr>)"
proof (cases "handle_pod_died (fw_watcher f) name (fw_pool f)")
  case None
  then show ?thesis using assms that(1) by (simp add: pod_died_def)
next
  case (Some x)
  obtain p out where x: "x = (p, out)" by force
  then have "drain_pool None (fw_pool f) = (p, out)"
    using Some by (simp add: handle_pod_died_def split: option.splits if_splits)
  then show ?thesis using assms Some x that(2) by (simp add: pod_died_def)
qed

lemma pod_died_fine:
  assumes "pod_died name f = (f', new)" "coherent (fw_sessions f) (fw_pool f)"
  shows "step_fine f f' \<and> list_all (task_ok (fw_sessions f')) new"
  using assms(1)
proof (cases rule: pod_died_cases)
  case (2 p out)
  then show ?thesis using dr.moves [OF assms(2) 2(1)] dr.taken_opened [OF assms(2) 2(1)]
    by (simp add: step_fine_def all_opened_def)
qed simp

lemma prune_fine:
  assumes "prune_tick now f = (f', new)" "coherent (fw_sessions f) (fw_pool f)"
  shows "step_fine f f' \<and> list_all (task_ok (fw_sessions f')) new"
proof -
  obtain p out where r: "prune_once (fw_config f) now (fw_sessions f) (fw_pool f) = (p, out)" by force
  then show ?thesis using assms(1) pr.moves [OF assms(2) r] pr.taken_opened [OF assms(2) r]
    by (auto simp: prune_tick_def all_opened_def intro: step_fine_pool)
qed

lemma drain_fine:
  assumes "drain_and_cancel_all f = (f', new)" "coherent (fw_sessions f) (fw_pool f)"
  shows "step_fine f f' \<and> list_all (task_ok (fw_sessions f')) new"
proof -
  obtain p out where r: "drain_pool None (fw_pool f) = (p, out)" by force
  then show ?thesis using assms(1) dr.moves [OF assms(2) r] dr.taken_opened [OF assms(2) r]
    by (auto simp: drain_and_cancel_all_def all_opened_def intro: step_fine_pool)
qed

lemma fstep_fine:
  assumes "fstep st st'" "system_inv st"
  shows "step_fine (sys_fw st) (sys_fw st') \<and> system_inv st'"
proof -
  have inv: "coherent (fw_sessions (sys_fw st)) (fw_pool (sys_fw st))" "list_all (call_ok (fw_sessions (sys_fw st))) (sys_calls st)"
    "list_all (task_ok (fw_sessions (sys_fw st))) (sys_tasks st)" using assms(2) by (simp_all add: system_inv_def)
  have at: "call_ok (fw_sessions (sys_fw st)) (sys_calls st ! i)" if "i < length (sys_calls st)" for i
    using inv(2) that by (simp add: list_all_length)
  have tt: "task_ok (fw_sessions (sys_fw st)) (sys_tasks st ! j)" if "j < length (sys_tasks st)" for j
    using inv(3) that by (simp add: list_all_length)
  have "step_fine (sys_fw st) (sys_fw st') \<and> list_all (call_ok (fw_sessions (sys_fw st'))) (sys_calls st') \<and>
      list_all (task_ok (fw_sessions (sys_fw st'))) (sys_tasks st')"
    using assms(1)
  proof cases
    case (start port f pc)
    then have "step_fine (sys_fw st) f" "call_ok (fw_sessions f) (port, pc)"
      by (auto simp: start_call_def next_call_id_def step_fine_def split: if_splits)
    then show ?thesis using start inv step_fine_lists by simp
  next
    case (call i port pc env f pc' new)
    note F = call_step_fine [OF call(4) inv(1)]
    have "call_ok (fw_sessions (sys_fw st)) (port, pc)" using at [OF call(2)] call(3) by simp
    then show ?thesis using F call(1) inv step_fine_lists by (auto intro: list_all_update)
  next
    case (dropped i port pc f lost)
    note F = drop_call_fine [OF dropped(4)]
    then show ?thesis using dropped(1) inv step_fine_lists [OF F] by (auto intro: list_all_update)
  next
    case (task j env f t)
    note F = task_step_fine [OF task(3) inv(1) tt [OF task(2)]]
    then show ?thesis using task(1) inv step_fine_lists by (auto intro: list_all_update)
  next
    case (died name f new)
    then show ?thesis using pod_died_fine [OF died(2) inv(1)] inv step_fine_lists by auto
  next
    case (prune now f new)
    then show ?thesis using prune_fine [OF prune(2) inv(1)] inv step_fine_lists by auto
  next
    case shutdown
    have F: "step_fine (sys_fw st) (shutdown_cancel (sys_fw st))" by (simp add: step_fine_def)
    then show ?thesis using shutdown inv step_fine_lists [OF F] by simp
  next
    case (drain f new)
    then show ?thesis using drain_fine [OF drain(3) inv(1)] inv step_fine_lists by auto
  next
    case (abort j t lost)
    have "task_ok (fw_sessions (sys_fw st)) t" using abort(4) tt [OF abort(3)] by (cases "sys_tasks st ! j") auto
    then show ?thesis using abort(1) inv by (auto intro: list_all_update)
  next
    case (session sid s')
    have F: "step_fine (sys_fw st) (sys_fw st')"
      using session sessions_extend_update by (simp add: step_fine_def)
    then show ?thesis using session(1) inv step_fine_lists [OF F] by simp
  next
    case (watcher pw)
    then show ?thesis using inv by simp
  qed
  then show ?thesis using system_inv_step [OF assms(2)] by blast
qed

lemma reachable_inv:
  assumes "reachable f0 st" "forwarder_build cfg selector new_watcher cancelled = Ok f0"
  shows "system_inv st \<and> fw_config (sys_fw st) = cfg"
  using assms(1)
proof induction
  case init
  then show ?case using assms(2)
    by (auto simp: forwarder_build_def system_init_def system_inv_def coherent_def pool_new_def split: if_splits option.splits sum.splits)
next
  case (step st st')
  then show ?case using fstep_fine by (auto simp: step_fine_def)
qed

section \<open>Concrete runs\<close>

text \<open>A schedule: which call or task steps next, and what the environment answers.\<close>

datatype action =
    StartCall u16
  | StepCall nat step_env
  | DropCall nat
  | StepTask nat step_env
  | SessionCancels nat
  | PodsNow "pod list"

definition action_step :: "action \<Rightarrow> system \<Rightarrow> system option" where
  "action_step a st =
     (case a of
        StartCall port \<Rightarrow>
          (let (f, pc) = start_call port (sys_fw st) in Some (st\<lparr>sys_fw := f, sys_calls := sys_calls st @ [(port, pc)]\<rparr>))
      | StepCall i env \<Rightarrow>
          (if i < length (sys_calls st) then
             (let (port, pc) = sys_calls st ! i in
              case call_step env port pc (sys_fw st) of
                None \<Rightarrow> None
              | Some (f, pc', new) \<Rightarrow>
                  Some (st\<lparr>sys_fw := f, sys_calls := (sys_calls st)[i := (port, pc')], sys_tasks := sys_tasks st @ new\<rparr>))
           else None)
      | DropCall i \<Rightarrow>
          (if i < length (sys_calls st) then
             (let (port, pc) = sys_calls st ! i in
              case drop_call pc (sys_fw st) of
                None \<Rightarrow> None
              | Some (f, lost) \<Rightarrow>
                  Some (st\<lparr>sys_fw := f, sys_calls := (sys_calls st)[i := (port, Dropped)], sys_abandoned := sys_abandoned st @ lost\<rparr>))
           else None)
      | StepTask j env \<Rightarrow>
          (if j < length (sys_tasks st) then
             (case task_step env (sys_tasks st ! j) (sys_fw st) of
                None \<Rightarrow> None
              | Some (f, t) \<Rightarrow> Some (st\<lparr>sys_fw := f, sys_tasks := (sys_tasks st)[j := t]\<rparr>))
           else None)
      | SessionCancels sid \<Rightarrow>
          (if sid < length (fw_sessions (sys_fw st))
           then Some (st\<lparr>sys_fw := (sys_fw st)\<lparr>fw_sessions := (fw_sessions (sys_fw st))[sid :=
             (fw_sessions (sys_fw st) ! sid)\<lparr>os_session := ksession_cancel (session_at (sys_fw st) sid)\<rparr>]\<rparr>\<rparr>)
           else None)
      | PodsNow ps \<Rightarrow>
          Some (st\<lparr>sys_fw := (sys_fw st)\<lparr>fw_watcher := (fw_watcher (sys_fw st))\<lparr>pw_store := ps\<rparr>\<rparr>\<rparr>))"

primrec play :: "action list \<Rightarrow> system \<Rightarrow> system option" where
  "play [] st = Some st"
| "play (a # as) st = (case action_step a st of None \<Rightarrow> None | Some st' \<Rightarrow> play as st')"

lemma action_step_fstep: "action_step a st = Some st' \<Longrightarrow> fstep st st'"
  by (cases a) (auto simp: action_step_def intro!: fstep.intros cancel_evolves
      split: if_splits option.splits prod.splits)

lemma play_reachable: "play as st = Some st' \<Longrightarrow> reachable f0 st \<Longrightarrow> reachable f0 st'"
proof (induction as arbitrary: st)
  case (Cons a as)
  then show ?case using action_step_fstep reachable.step by (auto split: option.splits)
qed simp

definition running_pod :: "string \<Rightarrow> pod" where
  "running_pod name = \<lparr>pod_name = name, pod_uid = None, pod_deleting = False,
     pod_status_of = Some \<lparr>phase = Some ''Running'', conditions = None\<rparr>\<rparr>"

definition example_watcher :: pod_watcher where
  "example_watcher = (pod_watcher_new (SelLabels ''app'') PolicyRunning)\<lparr>pw_store := [running_pod ''p'']\<rparr>"

definition example_config :: "nat \<Rightarrow> forwarder_config" where
  "example_config n = \<lparr>max_sessions = n, prune_interval = 30, prune_idle_age = 60, prefetch_threshold = NaN\<rparr>"

definition example_forwarder :: "nat \<Rightarrow> forwarder" where
  "example_forwarder n = \<lparr>fw_config = example_config n, fw_pool = pool_new, fw_watcher = example_watcher, fw_cancel = False,
     fw_session_cancel = False, fw_permits = CONNECTION_SLOT_PERMITS, call_counter = 0, fw_sessions = [], fw_signals = []\<rparr>"

definition fresh_handle :: mux_handle where
  "fresh_handle = \<lparr>active_pairs = 0, open_seq = \<lparr>next_stream_id = 1\<rparr>, peer_initial_window = 65535, peer_max_concurrent = 0,
     local_max_concurrent = 3, local_operating_max = 2, goaway_received = False, h_stream_data_buffer = 1,
     h_stream_error_buffer = 1, h_max_frame_size = 16384, h_closed = False, h_windows = (\<lambda>_. sw_new 0),
     h_next_win = 0, h_next_reply = 0\<rparr>"

definition fresh_session :: session where
  "fresh_session = \<lparr>pool = [fresh_handle], metrics = [metrics_new], next_pick = 0, session_cancelled = False\<rparr>"

definition example_env :: step_env where
  "example_env = \<lparr>env_watch = [], env_permit = PermitAcquired, env_open = Some (Ok (fresh_session, Spdy31Tunnel)),
     env_signals = [], env_now = 1\<rparr>"

definition crowded :: "action list" where
  "crowded = StartCall 80 # replicate 16 (StepCall 0 example_env) @
     StartCall 80 # replicate 5 (StepCall 1 example_env) @
     SessionCancels 0 # StartCall 80 # replicate 11 (StepCall 2 example_env) @
     replicate 2 (StepCall 1 example_env) @ [StepTask 2 example_env, StepTask 2 example_env, StepCall 2 example_env]"

definition rollout :: "action list" where
  "rollout = StartCall 80 # replicate 17 (StepCall 0 example_env) @
     StartCall 80 # replicate 2 (StepCall 1 example_env) @
     PodsNow [running_pod ''q''] # StartCall 80 # replicate 16 (StepCall 2 example_env) @ replicate 4 (StepCall 1 example_env)"

definition interrupted :: "action list" where
  "interrupted = StartCall 80 # replicate 16 (StepCall 0 example_env) @ [DropCall 0]"

text \<open>
  Three runs.  A caller looks at a session that another then retires, so that an open and a prefetch proceed
  side by side.  A caller that has checked the target is overtaken by a rollout.  A caller is dropped after
  it has claimed the prefetch and before it has spawned it.
\<close>

lemma crowded_eval:
  "\<exists>st. play crowded (system_init (example_forwarder 1)) = Some st \<and> length (entries (fw_pool (sys_fw st))) = 2"
proof -
  have "map_option (\<lambda>st. length (entries (fw_pool (sys_fw st)))) (play crowded (system_init (example_forwarder 1))) = Some 2"
    by code_simp
  then show ?thesis by auto
qed

lemma rollout_eval:
  "\<exists>st. play rollout (system_init (example_forwarder 2)) = Some st \<and>
     sys_calls st ! 1 = (80, Returned 1 (pod_identity (running_pod ''p''))) \<and> length (sys_calls st) = 3 \<and>
     map os_pod (fw_sessions (sys_fw st)) = [pod_identity (running_pod ''p''), pod_identity (running_pod ''q'')]"
proof -
  have "map_option (\<lambda>st. (sys_calls st ! 1, length (sys_calls st), map os_pod (fw_sessions (sys_fw st))))
      (play rollout (system_init (example_forwarder 2)))
    = Some ((80, Returned 1 (pod_identity (running_pod ''p''))), 3, [pod_identity (running_pod ''p''), pod_identity (running_pod ''q'')])"
    by code_simp
  then show ?thesis by auto
qed

lemma interrupted_eval:
  "\<exists>st. play interrupted (system_init (example_forwarder 2)) = Some st \<and> prefetch_in_flight (fw_pool (sys_fw st)) \<and>
     sys_tasks st = [ReplenishTask 0] \<and> sys_calls st = [(80, Dropped)]"
proof -
  have "map_option (\<lambda>st. (prefetch_in_flight (fw_pool (sys_fw st)), sys_tasks st, sys_calls st))
     (play interrupted (system_init (example_forwarder 2))) = Some (True, [ReplenishTask 0], [(80, Dropped)])"
    by code_simp
  then show ?thesis by auto
qed

lemma example_build: "0 < n \<Longrightarrow> forwarder_build (example_config n) (Some (SelLabels ''app'')) (\<lambda>_. Ok example_watcher) False = Ok (example_forwarder n)"
  by (simp add: forwarder_build_def example_config_def example_forwarder_def)

lemma play_init: "play acts (system_init f0) = Some st \<Longrightarrow> reachable f0 st"
  using play_reachable reachable.init by blast

section \<open>Refinement\<close>

text \<open>
  C38.  The pool that a caller sees without taking the lock refines its specification.  In every reachable
  state, whatever calls and tasks interleave, the snapshot lists exactly the sessions in the
  pool, all of them opened for its target pod; and every step of the system is, seen through the snapshot, a
  step of the specification or none.
\<close>

theorem forwarder_pool_refines:
  assumes "forwarder_build cfg selector new_watcher cancelled = Ok f0" "reachable f0 st"
  shows "snapshot (fw_pool (sys_fw st)) = map ps_session (entries (fw_pool (sys_fw st))) \<and>
    (\<forall>sid \<in> set (snapshot (fw_pool (sys_fw st))).
       pool_target (fw_pool (sys_fw st)) = Some (os_pod (fw_sessions (sys_fw st) ! sid))) \<and>
    (\<forall>st'. fstep st st' \<longrightarrow> view_step (\<lambda>sid. os_pod (fw_sessions (sys_fw st') ! sid))
       (pool_abs (fw_pool (sys_fw st))) (pool_abs (fw_pool (sys_fw st'))))"
proof -
  have inv: "system_inv st" using reachable_inv [OF assms(2,1)] by simp
  have "view_step (\<lambda>sid. os_pod (fw_sessions (sys_fw st') ! sid)) (pool_abs (fw_pool (sys_fw st))) (pool_abs (fw_pool (sys_fw st')))"
    if "fstep st st'" for st'
  proof -
    have "step_fine (sys_fw st) (sys_fw st')" using fstep_fine [OF that inv] by simp
    then show ?thesis
      using inv coherent_extend pool_move_refines unfolding step_fine_def system_inv_def by blast
  qed
  then show ?thesis using inv by (simp add: system_inv_def coherent_def)
qed

theorem forwarder_pool_refines_witness:
  "\<exists>st. reachable (example_forwarder 1) st \<and> length (entries (fw_pool (sys_fw st))) = 2 \<and>
     snapshot (fw_pool (sys_fw st)) = map ps_session (entries (fw_pool (sys_fw st)))"
proof -
  obtain st where st: "play crowded (system_init (example_forwarder 1)) = Some st" "length (entries (fw_pool (sys_fw st))) = 2"
    by (rule exE [OF crowded_eval], elim conjE)
  have r: "reachable (example_forwarder 1) st" using play_init [OF st(1)] .
  show ?thesis using forwarder_pool_refines [OF example_build [of 1] r] r st(2) by (intro exI [of _ st]) simp
qed

section \<open>Two races\<close>

text \<open>
  \<open>connect_on_pod\<close> reports the pod that the caller saw first, and the session may be one of another pod:
  the scan for a session to reuse does not look at the target again.
\<close>

lemma reported_pod_can_differ:
  "\<exists>st sid ready. reachable (example_forwarder 2) st \<and> (80, Returned sid ready) \<in> set (sys_calls st) \<and>
     os_pod (fw_sessions (sys_fw st) ! sid) \<noteq> ready"
proof -
  obtain st where st: "play rollout (system_init (example_forwarder 2)) = Some st"
      "sys_calls st ! 1 = (80, Returned 1 (pod_identity (running_pod ''p'')))" "length (sys_calls st) = 3"
      "map os_pod (fw_sessions (sys_fw st)) = [pod_identity (running_pod ''p''), pod_identity (running_pod ''q'')]"
    by (rule exE [OF rollout_eval], elim conjE)
  have "1 < length (fw_sessions (sys_fw st))" using arg_cong [OF st(4), of length] by simp
  then have "os_pod (fw_sessions (sys_fw st) ! 1) = pod_identity (running_pod ''q'')"
    using nth_map [of 1 "fw_sessions (sys_fw st)" os_pod] st(4) by simp
  then have "os_pod (fw_sessions (sys_fw st) ! 1) \<noteq> pod_identity (running_pod ''p'')"
    by (simp add: pod_identity_def running_pod_def)
  moreover have "(80, Returned 1 (pod_identity (running_pod ''p''))) \<in> set (sys_calls st)" 
    using nth_mem [of 1 "sys_calls st"] st(3) unfolding st(2) by simp
  ultimately show ?thesis using play_init [OF st(1)] by blast
qed

text \<open>
  A call that is dropped while it waits for the task set has claimed the prefetch for nobody: the flag stays
  set, so every later call that finds no session to reuse waits for an open that is not there.
\<close>

lemma prefetch_claim_can_leak:
  "\<exists>st. reachable (example_forwarder 2) st \<and> sys_calls st = [(80, Dropped)] \<and> sys_tasks st = [ReplenishTask 0] \<and>
     has_in_flight_open (fw_pool (sys_fw st))"
proof -
  obtain st where st: "play interrupted (system_init (example_forwarder 2)) = Some st"
      "prefetch_in_flight (fw_pool (sys_fw st))" "sys_tasks st = [ReplenishTask 0]" "sys_calls st = [(80, Dropped)]"
    by (rule exE [OF interrupted_eval], elim conjE)
  then show ?thesis using play_init [OF st(1)] by (auto simp: has_in_flight_open_def)
qed

section \<open>The retry loop and the threshold\<close>

text \<open>\<open>Session::connect\<close> reports exhaustion as an error of the multiplexer, never as the one that the loop retries on.\<close>

lemma connect_error_spdy:
  assumes "snd (ksession_connect rx elapsed ks) = Inl e"
  shows "\<exists>e'. e = SpdyError e'"
  using assms by (auto simp: ksession_connect_def open_new_stream_def Let_def split: prod.splits option.splits sum.splits)

lemma connect_never_retries:
  "connect_loop cfg (Suc n) ensure env k =
     (case ensure k of
        Inl e \<Rightarrow> Err e
      | Inr (s, pod) \<Rightarrow>
          (case snd (ksession_connect (fst (env k)) (snd (env k)) s) of Inr stream \<Rightarrow> Ok (stream, pod) | Inl e \<Rightarrow> Err e))"
proof (cases "ensure k")
  case (Inr x)
  obtain s pod where x: "x = (s, pod)" by force
  show ?thesis
  proof (cases "snd (ksession_connect (fst (env k)) (snd (env k)) s)")
    case (Inl e)
    then obtain e' where "e = SpdyError e'" using connect_error_spdy by blast
    then show ?thesis using Inr x Inl by simp
  qed (simp add: Inr x)
qed simp

lemma two_power_mono: "e \<le> e' \<Longrightarrow> two_power e \<le> two_power e'"
proof -
  assume "e \<le> e'"
  have "two_power e = 2 powi e" for e by (simp add: two_power_def power_int_def field_simps)
  then show ?thesis using \<open>e \<le> e'\<close> by (simp add: power_int_increasing)
qed

lemma f32_exponentI:
  assumes "two_power e \<le> x" "x < two_power (e + 1)" "-126 \<le> e" "e \<le> 127"
  shows "f32_exponent x = e"
proof -
  have "[-126..127] = [-126..e - 1] @ e # [e + 1..127]"
    using upto_split3 [of "-126" e 127] assms(3,4) by simp
  moreover have "\<not> two_power e' \<le> x" if "e + 1 \<le> e'" for e' using two_power_mono [OF that] assms(2) by simp
  then have "filter (\<lambda>e. two_power e \<le> x) (rev [e + 1..127]) = []" by (auto simp: filter_empty_conv)
  ultimately show ?thesis using assms(1) by (simp add: f32_exponent_def)
qed

lemma threshold_default: "DEFAULT_PREFETCH_THRESHOLD = Finite (5033165 / 8388608)"
proof -
  have "f32_exponent (3 / 5) = -1" by (rule f32_exponentI) (simp_all add: two_power_def)
  moreover have "\<lfloor>50331648 / 5 :: rat\<rfloor> = 10066329" by (simp add: floor_eq_iff)
  ultimately show ?thesis
    by (simp add: DEFAULT_PREFETCH_THRESHOLD_def f32_round_def two_power_def round_half_even_def Let_def)
qed

text \<open>
  With the default threshold, 384 slots in all and \<open>n\<close> of them used, the code compares \<open>n\<close> with the share of
  the \<open>384 - n\<close> slots that are left, and not of all of them.
\<close>

lemma prefetch_triggers_early:
  "below_threshold 143 (384 - 143) DEFAULT_PREFETCH_THRESHOLD" "\<not> below_threshold 144 (384 - 144) DEFAULT_PREFETCH_THRESHOLD"
proof -
  have e: "f32_exponent 143 = 7" "f32_exponent 241 = 7" "f32_exponent 144 = 7" "f32_exponent 240 = 7"
    "f32_exponent (241 * 5033165 / 8388608) = 7" "f32_exponent (240 * 5033165 / 8388608) = 7"
    "f32_exponent (1212992765 / 8388608) = 7"  "f32_exponent (75497475 / 524288) = 7"
    by (rule f32_exponentI; simp add: two_power_def)+
  have "\<lfloor>75497475 / 8 :: rat\<rfloor> = 9437184" by (simp add: floor_eq_iff)
  then show "below_threshold 143 (384 - 143) DEFAULT_PREFETCH_THRESHOLD" "\<not> below_threshold 144 (384 - 144) DEFAULT_PREFETCH_THRESHOLD"
    by (simp_all add: below_threshold_def threshold_default f32_of_usize_def f32_round_def e two_power_def round_half_even_def Let_def)
qed

end
