(* ===== verification/Forwarder_Bounds.thy ===== *)
theory Forwarder_Bounds
  imports Forwarder_Laws
begin

text \<open>
  How many sessions the pool of a forwarder can hold: the accounting of opening slots over every
  interleaving, the bound it gives, and a run that shows the limit of the configuration exceeded.
\<close>

section \<open>Slots\<close>

text \<open>Which calls hold an opening slot, and which of them have yet to install a session.\<close>

fun holds :: "call_pc \<Rightarrow> bool" where
  "holds (AwaitPermit b ready) = True"
| "holds (Opening b ready) = True"
| "holds (Install b ready sid) = True"
| "holds (CancelStale b ready sid) = True"
| "holds (Replenish h ready sid) = h"
| "holds (Threshold h ready sid) = h"
| "holds (ClaimPrefetch h ready sid) = h"
| "holds (SpawnPrefetch h ready sid) = h"
| "holds _ = False"

fun pending :: "call_pc \<Rightarrow> bool" where
  "pending (AwaitPermit b ready) = True"
| "pending (Opening b ready) = True"
| "pending (Install b ready sid) = True"
| "pending _ = False"

definition slots_held :: "(u16 \<times> call_pc) list \<Rightarrow> nat" where
  "slots_held cs = length (filter (\<lambda>c. holds (snd c)) cs)"

definition opens_pending :: "(u16 \<times> call_pc) list \<Rightarrow> nat" where
  "opens_pending cs = length (filter (\<lambda>c. pending (snd c)) cs)"

lemma pending_holds: "pending pc \<Longrightarrow> holds pc"
  by (cases pc) auto

lemma slots_update:
  assumes "i < length cs" "cs ! i = (port, pc)"
  shows "slots_held (cs[i := (port, pc')]) + of_bool (holds pc) = slots_held cs + of_bool (holds pc')"
    "opens_pending (cs[i := (port, pc')]) + of_bool (pending pc) = opens_pending cs + of_bool (pending pc')"
  using length_filter_update [OF assms(1), of "\<lambda>c. holds (snd c)" "(port, pc')"]
    length_filter_update [OF assms(1), of "\<lambda>c. pending (snd c)" "(port, pc')"] assms(2)
  by (simp_all add: slots_held_def opens_pending_def)

lemma opens_pending_le: "opens_pending cs \<le> slots_held cs"
  by (induction cs) (auto simp: opens_pending_def slots_held_def pending_holds)

lemma push_entry_counts [simp]:
  "length (entries (push_entry sid now p)) = Suc (length (entries p))" "opening_count (push_entry sid now p) = opening_count p"
  by (simp_all add: push_entry_def refresh_snapshot_def)

lemma release_counts [simp]:
  "entries (fw_pool (release_slot h f)) = entries (fw_pool f)" "entries (fw_pool (drop_slot f)) = entries (fw_pool f)"
  "opening_count (fw_pool (release_slot h f)) = opening_count (fw_pool f) - of_bool h"
  "opening_count (fw_pool (drop_slot f)) = opening_count (fw_pool f) - 1"
  by (simp_all add: release_slot_def drop_slot_def opening_slot_drop_def)

text \<open>How a step from \<open>pc\<close> to \<open>pc'\<close> changes the counts: only reserving takes a slot, and only if there is room.\<close>

definition counts_fine :: "forwarder \<Rightarrow> call_pc \<Rightarrow> forwarder \<Rightarrow> call_pc \<Rightarrow> bool" where
  "counts_fine f pc f' pc' \<longleftrightarrow>
     opening_count (fw_pool f') + of_bool (holds pc) = opening_count (fw_pool f) + of_bool (holds pc') \<and>
     (if holds pc' \<and> \<not> holds pc
      then unat (word_of_nat (length (entries (fw_pool f))) + opening_count (fw_pool f)) < max_sessions (fw_config f) \<and>
        entries (fw_pool f') = entries (fw_pool f)
      else length (entries (fw_pool f')) + of_bool (pending pc') \<le> length (entries (fw_pool f)) + of_bool (pending pc))"

lemma reuse_or_counts:
  "reuse_or pc0 ready port f = Some (f', pc', new) \<Longrightarrow> \<not> holds pc0 \<Longrightarrow> \<not> holds pc \<Longrightarrow> counts_fine f pc f' pc'"
  using pending_holds by (auto simp: reuse_or_def counts_fine_def split: option.splits)

lemma call_step_counts:
  assumes "call_step env port pc f = Some (f', pc', new)" "coherent (fw_sessions f) (fw_pool f)"
  shows "counts_fine f pc f' pc'"
proof (cases pc)
  case (WaitReady b)
  then show ?thesis using assms(1) by (auto simp: counts_fine_def split: option.splits)
next
  case (Retarget b ready)
  obtain p out where r: "retarget ready (fw_pool f) = (p, out)" by force
  then show ?thesis using Retarget assms(1) rt.shrinks [OF assms(2) r] rt.counter [OF assms(2) r] by (auto simp: counts_fine_def)
next
  case (CancelDrained b ready sids)
  then show ?thesis using assms(1) by (auto simp: counts_fine_def split: list.splits)
next
  case (Reuse b ready)
  then show ?thesis using assms(1) reuse_or_counts [of "RetireDead b ready" ready port f f' pc'] by simp
next
  case (RetireDead b ready)
  obtain p out where r: "retire_dead (fw_sessions f) (fw_pool f) = (p, out)" by force
  then show ?thesis
    using RetireDead assms(1) rd.shrinks [OF assms(2) r] rd.counter [OF assms(2) r] by (auto simp: counts_fine_def)
next
  case (CancelRetired b ready sids)
  then show ?thesis using assms(1) by (auto simp: counts_fine_def split: list.splits)
next
  case (FindAgain b ready)
  then show ?thesis using assms(1) reuse_or_counts [of "Gate b ready" ready port f f' pc'] by simp
next
  case (ReuseOther b ready)
  then show ?thesis using assms(1) reuse_or_counts [of "ReserveSlot b ready" ready port f f' pc'] by simp
next
  case (ReserveSlot b ready)
  then show ?thesis
    using assms(1) by (auto simp: counts_fine_def reserve_new_slot_def opening_slot_new_def Let_def split: sum.splits if_splits)
next
  case (AwaitPermit b ready)
  then show ?thesis using assms(1) by (auto simp: counts_fine_def split: permit_wait.splits if_splits)
next
  case (Opening b ready)
  then show ?thesis using assms(1) by (auto simp: counts_fine_def split: option.splits sum.splits)
next
  case (Install b ready sid)
  then show ?thesis using assms(1) by (auto simp: counts_fine_def install_if_current_def split: if_splits)
next
  case (ClaimPrefetch h ready sid)
  then show ?thesis
    using assms(1) by (auto simp: counts_fine_def return_session_def prefetch_claim_def split: option.splits if_splits)
qed (use assms in \<open>auto simp: counts_fine_def return_session_def split: if_splits\<close>)

lemma drop_call_counts: "drop_call pc f = Some (f', lost) \<Longrightarrow> counts_fine f pc f' Dropped"
  by (cases pc) (auto simp: counts_fine_def)

definition counts_inv :: "system \<Rightarrow> bool" where
  "counts_inv st \<longleftrightarrow> opening_count (fw_pool (sys_fw st)) = word_of_nat (slots_held (sys_calls st)) \<and>
     slots_held (sys_calls st) \<le> max_sessions (fw_config (sys_fw st)) \<and>
     length (entries (fw_pool (sys_fw st))) + opens_pending (sys_calls st) \<le> 2 * max_sessions (fw_config (sys_fw st))"

text \<open>A step that is not one of a call: the pool does not grow beyond its limit and the counter stays.\<close>

lemma counts_inv_other:
  assumes "counts_inv st" "sys_calls st' = sys_calls st" "fw_config (sys_fw st') = fw_config (sys_fw st)"
    and "opening_count (fw_pool (sys_fw st')) = opening_count (fw_pool (sys_fw st))"
    and "length (entries (fw_pool (sys_fw st'))) \<le> max (length (entries (fw_pool (sys_fw st)))) (max_sessions (fw_config (sys_fw st)))"
  shows "counts_inv st'"
  using assms opens_pending_le [of "sys_calls st"] by (auto simp: counts_inv_def)

lemma counts_inv_call:
  assumes "counts_inv st" "counts_fine (sys_fw st) pc (sys_fw st') pc'" "fw_config (sys_fw st') = fw_config (sys_fw st)"
    and "i < length (sys_calls st)" "sys_calls st ! i = (port, pc)" "sys_calls st' = (sys_calls st)[i := (port, pc')]"
    and max: "3 * max_sessions (fw_config (sys_fw st)) < 2 ^ 64"
  shows "counts_inv st'"
proof -
  let ?n = "length (entries (fw_pool (sys_fw st)))" and ?m = "max_sessions (fw_config (sys_fw st))"
  let ?oc = "opening_count (fw_pool (sys_fw st))" and ?oc' = "opening_count (fw_pool (sys_fw st'))"
  note u = slots_update [OF assms(4,5), of pc', folded assms(6)]
  have inv: "?oc = word_of_nat (slots_held (sys_calls st))" "slots_held (sys_calls st) \<le> ?m" "?n + opens_pending (sys_calls st) \<le> 2 * ?m"
    using assms(1) by (simp_all add: counts_inv_def)
  have "?oc' + of_bool (holds pc) = word_of_nat (slots_held (sys_calls st) + of_bool (holds pc'))"
    using assms(2) inv(1) by (simp add: counts_fine_def)
  also have "\<dots> = word_of_nat (slots_held (sys_calls st')) + of_bool (holds pc)" by (simp flip: u(1))
  finally have oc: "?oc' = word_of_nat (slots_held (sys_calls st'))" by simp
  show ?thesis
  proof (cases "holds pc' \<and> \<not> holds pc")
    case True
    have "word_of_nat ?n + ?oc = word_of_nat (?n + slots_held (sys_calls st))" using inv(1) by simp
    moreover have "?n + slots_held (sys_calls st) < 2 ^ 64" using inv max by linarith
    ultimately have "unat (word_of_nat ?n + ?oc) = ?n + slots_held (sys_calls st)"
      by (simp only: unat_word_of_nat64)
    then have "?n + slots_held (sys_calls st) < ?m" "entries (fw_pool (sys_fw st')) = entries (fw_pool (sys_fw st))"
      using assms(2) True by (simp_all add: counts_fine_def)
    then show ?thesis
      using u True oc assms(3) opens_pending_le [of "sys_calls st'"] by (simp add: counts_inv_def)
  next
    case False
    have "length (entries (fw_pool (sys_fw st'))) + of_bool (pending pc') \<le> ?n + of_bool (pending pc)"
      using assms(2) False by (simp add: counts_fine_def)
    moreover have "slots_held (sys_calls st') \<le> slots_held (sys_calls st)" using u(1) False by (cases "holds pc'"; cases "holds pc") simp_all
    ultimately show ?thesis using u(2) oc inv assms(3) by (simp add: counts_inv_def)
  qed
qed

lemma task_step_counts:
  assumes "task_step env t f = Some (f', t')"
  shows "opening_count (fw_pool f') = opening_count (fw_pool f) \<and>
    length (entries (fw_pool f')) \<le> max (length (entries (fw_pool f))) (max_sessions (fw_config f))"
proof (cases t)
  case (PrefetchFinish ready opened)
  obtain p b where r: "prefetch_finish (fw_config f) ready opened (env_now env) (fw_pool f) = (p, b)" by force
  have "opening_count p = opening_count (fw_pool f) \<and> length (entries p) \<le> max (length (entries (fw_pool f))) (max_sessions (fw_config f))"
    using r by (auto simp: prefetch_finish_def Let_def split: option.splits if_splits)
  then show ?thesis using PrefetchFinish assms r by auto
next
  case (PrefetchOpening ready port)
  then show ?thesis using assms by (auto split: option.splits sum.splits)
next
  case (CancelTask sids)
  then show ?thesis using assms by (auto split: list.splits)
qed (use assms in auto)

text \<open>The background sections: none of them touches the counter or makes the pool grow.\<close>

lemma section_counts:
  assumes "coherent (fw_sessions f) (fw_pool f)"
    and "pod_died name f = (f', new) \<or> drain_and_cancel_all f = (f', new) \<or> prune_tick now f = (f', new)"
  shows "opening_count (fw_pool f') = opening_count (fw_pool f) \<and> length (entries (fw_pool f')) \<le> length (entries (fw_pool f))"
  using assms(2)
proof (elim disjE)
  assume "pod_died name f = (f', new)"
  then show ?thesis
    by (cases rule: pod_died_cases) (use dr.shrinks [OF assms(1)] dr.counter [OF assms(1)] in auto)
next
  assume d: "drain_and_cancel_all f = (f', new)"
  obtain p out where r: "drain_pool None (fw_pool f) = (p, out)" by force
  then show ?thesis using d dr.shrinks [OF assms(1) r] dr.counter [OF assms(1) r] by (auto simp: drain_and_cancel_all_def)
next
  assume d: "prune_tick now f = (f', new)"
  obtain p out where r: "prune_once (fw_config f) now (fw_sessions f) (fw_pool f) = (p, out)" by force
  then show ?thesis using d pr.shrinks [OF assms(1) r] pr.counter [OF assms(1) r] by (auto simp: prune_tick_def)
qed

lemma fstep_counts:
  assumes "fstep st st'" "system_inv st" "counts_inv st" "3 * max_sessions (fw_config (sys_fw st)) < 2 ^ 64"
  shows "counts_inv st'"
proof -
  have coh: "coherent (fw_sessions (sys_fw st)) (fw_pool (sys_fw st))" using assms(2) by (simp add: system_inv_def)
  have cfg: "fw_config (sys_fw st') = fw_config (sys_fw st)" using fstep_fine [OF assms(1,2)] by (simp add: step_fine_def)
  from assms(1) show ?thesis
  proof cases
    case (start port f pc)
    then have "fw_pool f = fw_pool (sys_fw st)" "\<not> holds pc"
      by (auto simp: start_call_def next_call_id_def split: if_splits)
    then show ?thesis using start(1) cfg assms(3) pending_holds by (auto simp: counts_inv_def slots_held_def opens_pending_def)
  next
    case (call i port pc env f pc' new)
    have "counts_fine (sys_fw st) pc (sys_fw st') pc'" using call_step_counts [OF call(4) coh] call(1) by simp
    then show ?thesis using counts_inv_call [OF assms(3) _ cfg call(2,3) _ assms(4)] call(1) by simp
  next
    case (dropped i port pc f lost)
    have "counts_fine (sys_fw st) pc (sys_fw st') Dropped" using drop_call_counts [OF dropped(4)] dropped(1) by simp
    then show ?thesis using counts_inv_call [OF assms(3) _ cfg dropped(2,3) _ assms(4)] dropped(1) by simp
  next
    case (task j env f t)
    then show ?thesis using counts_inv_other [OF assms(3) _ cfg] task_step_counts [OF task(3)] by simp
  next
    case (died name f new)
    then show ?thesis using counts_inv_other [OF assms(3) _ cfg] section_counts [OF coh disjI1 [OF died(2)]] by (simp add: le_max_iff_disj)
  next
    case (prune now f new)
    then show ?thesis using counts_inv_other [OF assms(3) _ cfg] section_counts [OF coh disjI2 [OF disjI2 [OF prune(2)]]] by (simp add: le_max_iff_disj)
  next
    case (drain f new)
    then show ?thesis using counts_inv_other [OF assms(3) _ cfg] section_counts [OF coh disjI2 [OF disjI1 [OF drain(3)]]] by (simp add: le_max_iff_disj)
  qed (use counts_inv_other [OF assms(3) _ cfg] in simp_all)
qed

lemma reachable_counts:
  assumes "reachable f0 st" "forwarder_build cfg selector new_watcher cancelled = Ok f0" "3 * max_sessions cfg < 2 ^ 64"
  shows "counts_inv st"
  using assms(1)
proof induction
  case init
  then show ?case using assms(2)
    by (auto simp: forwarder_build_def system_init_def counts_inv_def slots_held_def opens_pending_def pool_new_def
        split: if_splits option.splits sum.splits)
next
  case (step st st')
  have "system_inv st \<and> fw_config (sys_fw st) = cfg" using reachable_inv [OF step(1) assms(2)] .
  then show ?case using fstep_counts [OF step(2) _ step(3)] assms(3) by simp
qed

section \<open>The bound\<close>

lemma prune_keeps_one:
  assumes "prune_once cfg now ss p = (p', out)" "coherent ss p" "entries p \<noteq> []"
  shows "entries p' \<noteq> []"
proof -
  have "length out + length (entries p') = length (entries p)" "length out \<le> length (entries p) - 1"
    using extract_entries_facts [OF assms(1) [unfolded prune_once_def] assms(2), of ss] by auto
  moreover have "0 < length (entries p)" using assms(3) by simp
  ultimately have "0 < length (entries p')" by linarith
  then show ?thesis by simp
qed

text \<open>
  C39.  The pool is bounded.  In every reachable state the counter of opens in flight is exact: it counts
  the calls that hold an opening slot, at most \<open>max_sessions\<close> of them, also after calls were dropped; the
  pool holds at most twice \<open>max_sessions\<close> sessions, since a prefetch does not count the opens that are
  in flight, and the witness shows the limit itself exceeded; and pruning never empties it.
\<close>

theorem forwarder_pool_bounded:
  assumes "forwarder_build cfg selector new_watcher cancelled = Ok f0" "reachable f0 st" "3 * max_sessions cfg < 2 ^ 64"
  shows "unat (opening_count (fw_pool (sys_fw st))) = slots_held (sys_calls st) \<and> slots_held (sys_calls st) \<le> max_sessions cfg \<and>
    length (entries (fw_pool (sys_fw st))) \<le> 2 * max_sessions cfg \<and>
    (\<forall>now p out. prune_once cfg now (fw_sessions (sys_fw st)) (fw_pool (sys_fw st)) = (p, out) \<longrightarrow>
       entries (fw_pool (sys_fw st)) \<noteq> [] \<longrightarrow> entries p \<noteq> [])"
proof -
  have inv: "system_inv st" "fw_config (sys_fw st) = cfg" using reachable_inv [OF assms(2,1)] by simp_all
  have "counts_inv st" using reachable_counts [OF assms(2,1,3)] .
  then have c: "opening_count (fw_pool (sys_fw st)) = word_of_nat (slots_held (sys_calls st))" "slots_held (sys_calls st) \<le> max_sessions cfg"
    "length (entries (fw_pool (sys_fw st))) + opens_pending (sys_calls st) \<le> 2 * max_sessions cfg"
    using inv(2) by (simp_all add: counts_inv_def)
  have "unat (opening_count (fw_pool (sys_fw st))) = slots_held (sys_calls st)"
    using c(1,2) assms(3) by (simp add: unat_word_of_nat64)
  moreover have "coherent (fw_sessions (sys_fw st)) (fw_pool (sys_fw st))" using inv(1) by (simp add: system_inv_def)
  ultimately show ?thesis using c prune_keeps_one by (intro conjI allI impI) auto
qed

theorem forwarder_pool_bounded_witness:
  "\<exists>st. reachable (example_forwarder 1) st \<and> max_sessions (example_config 1) < length (entries (fw_pool (sys_fw st))) \<and>
     length (entries (fw_pool (sys_fw st))) \<le> 2 * max_sessions (example_config 1) \<and>
     unat (opening_count (fw_pool (sys_fw st))) = slots_held (sys_calls st)"
proof -
  obtain st where st: "play crowded (system_init (example_forwarder 1)) = Some st" "length (entries (fw_pool (sys_fw st))) = 2"
    by (rule exE [OF crowded_eval], elim conjE)
  have r: "reachable (example_forwarder 1) st" using play_init [OF st(1)] .
  have m: "max_sessions (example_config 1) = 1" by (simp add: example_config_def)
  show ?thesis using forwarder_pool_bounded [OF example_build [of 1] r] r st(2) m by (intro exI [of _ st]) simp
qed

end
