(* ===== verification/Forwarder_Ownership.thy ===== *)
theory Forwarder_Ownership
  imports Forwarder_Laws
begin

text \<open>
  Who is responsible for a session that was opened: the pool, a call or task that is about to install or
  cancel it, or nobody because it is cancelled.
\<close>

section \<open>Ownership\<close>

text \<open>The sessions that are with a call or a task on their way into the pool or to their cancellation.\<close>

fun in_hand :: "call_pc \<Rightarrow> nat list" where
  "in_hand (CancelDrained b ready sids) = sids"
| "in_hand (CancelRetired b ready sids) = sids"
| "in_hand (Install b ready sid) = [sid]"
| "in_hand (CancelStale b ready sid) = [sid]"
| "in_hand _ = []"

fun task_in_hand :: "task_pc \<Rightarrow> nat list" where
  "task_in_hand (PrefetchFinish ready (Some sid)) = [sid]"
| "task_in_hand (CancelTask sids) = sids"
| "task_in_hand _ = []"

definition settled :: "forwarder \<Rightarrow> nat set" where
  "settled f = set (snapshot (fw_pool f)) \<union> {sid. sid < length (fw_sessions f) \<and> ks_is_cancelled (session_at f sid)}"

definition accounted :: "system \<Rightarrow> nat set" where
  "accounted st = settled (sys_fw st) \<union> set (sys_abandoned st) \<union>
     (\<Union>c \<in> set (sys_calls st). set (in_hand (snd c))) \<union> (\<Union>t \<in> set (sys_tasks st). set (task_in_hand t))"

definition owned :: "system \<Rightarrow> bool" where
  "owned st \<longleftrightarrow> {..<length (fw_sessions (sys_fw st))} \<subseteq> accounted st"

text \<open>A step in which \<open>out\<close> leaves and \<open>inn\<close> arrives in the hands of the one that steps loses nothing.\<close>

definition hands_fine :: "forwarder \<Rightarrow> nat list \<Rightarrow> forwarder \<Rightarrow> nat list \<Rightarrow> bool" where
  "hands_fine f out f' inn \<longleftrightarrow> settled f \<union> set out \<union> {length (fw_sessions f)..<length (fw_sessions f')} \<subseteq> settled f' \<union> set inn"

lemma settled_cong [simp]:
  "settled (release_slot h f) = settled f" "settled (drop_slot f) = settled f" "settled (f\<lparr>fw_watcher := pw\<rparr>) = settled f"
  "settled (f\<lparr>fw_permits := n\<rparr>) = settled f" "settled (signal_all ss f) = settled f"
  by (simp_all add: settled_def release_slot_def drop_slot_def opening_slot_drop_def)

lemma settled_cancel:
  assumes "sid < length (fw_sessions f)"
  shows "insert sid (settled f) \<subseteq> settled (cancel_session sid f)"
  using assms cancel_evolves(2) by (auto simp: settled_def cancel_session_def nth_update_if)

lemma length_cancel [simp]: "length (fw_sessions (cancel_session sid f)) = length (fw_sessions f)"
  by (simp add: cancel_session_def)

lemma settled_open: "settled f \<subseteq> settled (open_session ready port s f)"
  by (auto simp: settled_def open_session_def nth_append Let_def)

lemma length_open [simp]: "length (fw_sessions (open_session ready port s f)) = Suc (length (fw_sessions f))"
  by (simp add: open_session_def Let_def)

lemma settled_pool: "set (snapshot (fw_pool f)) \<subseteq> set (snapshot p) \<union> X \<Longrightarrow> settled f \<subseteq> settled (f\<lparr>fw_pool := p\<rparr>) \<union> X"
  by (auto simp: settled_def)

lemma hands_fine_refl [simp]: "hands_fine f [] f inn" "hands_fine f inn f inn"
  by (auto simp: hands_fine_def)

lemma hands_fine_signal [simp]: "hands_fine f out (signal_all ss f') inn = hands_fine f out f' inn"
  by (simp add: hands_fine_def)

lemma hands_fine_pool:
  "set (snapshot (fw_pool f)) \<union> set out \<subseteq> set (snapshot p) \<union> set inn \<Longrightarrow> hands_fine f out (f\<lparr>fw_pool := p\<rparr>) inn"
  by (auto simp: settled_def hands_fine_def)

lemma hands_fine_cancel: "sid < length (fw_sessions f) \<Longrightarrow> hands_fine f (sid # sids) (cancel_session sid f) sids"
  using settled_cancel [of sid f] by (auto simp: hands_fine_def)

lemma hands_fine_open: "hands_fine f [] (open_session ready port s f) [length (fw_sessions f)]"
  using settled_open [of f ready port s] by (auto simp: hands_fine_def)

lemma hands_fine_release [simp]:
  "hands_fine f out (release_slot h f') inn = hands_fine f out f' inn" "hands_fine f out (drop_slot f') inn = hands_fine f out f' inn"
  "hands_fine f out (f'\<lparr>fw_watcher := pw\<rparr>) inn = hands_fine f out f' inn" "hands_fine f out (f'\<lparr>fw_permits := n\<rparr>) inn = hands_fine f out f' inn"
  by (simp_all add: hands_fine_def)

lemma snapshot_simps [simp]:
  "snapshot (push_entry sid now p) = map ps_session (entries p) @ [sid]" "snapshot (fst (drain_pool t p)) = []"
  "snd (drain_pool t p) = map ps_session (entries p)"
  by (simp_all add: push_entry_def drain_pool_def refresh_snapshot_def)

context taking_section
begin

lemma section_hands:
  assumes "coherent (fw_sessions f) (fw_pool f)" "sec (fw_pool f) = (p', out)"
  shows "hands_fine f [] (f\<lparr>fw_pool := p'\<rparr>) out"
  using returns_all [OF assms] by (intro hands_fine_pool) auto

end

lemma coherent_snapshot: "coherent ss p \<Longrightarrow> snapshot p = map ps_session (entries p)"
  by (simp add: coherent_def)

lemma call_step_hands:
  assumes "call_step env port pc f = Some (f', pc', new)" "coherent (fw_sessions f) (fw_pool f)"
    and "call_ok (fw_sessions f) (port, pc)"
  shows "hands_fine f (in_hand pc) f' (in_hand pc')"
proof (cases pc)
  case (WaitReady b)
  then show ?thesis using assms(1) by (auto split: option.splits)
next
  case (Retarget b ready)
  obtain p out where r: "retarget ready (fw_pool f) = (p, out)" by force
  then show ?thesis using Retarget assms(1) rt.section_hands [OF assms(2) r] by auto
next
  case (CancelDrained b ready sids)
  then show ?thesis using assms hands_fine_cancel by (auto simp: all_opened_def split: list.splits)
next
  case (Reuse b ready)
  then show ?thesis using assms(1) by (auto simp: reuse_or_def split: option.splits)
next
  case (RetireDead b ready)
  obtain p out where r: "retire_dead (fw_sessions f) (fw_pool f) = (p, out)" by force
  then show ?thesis
    using RetireDead assms(1) rd.section_hands [OF assms(2) r] by auto
next
  case (CancelRetired b ready sids)
  then show ?thesis using assms hands_fine_cancel by (auto simp: all_opened_def split: list.splits)
next
  case (FindAgain b ready)
  then show ?thesis using assms(1) by (auto simp: reuse_or_def split: option.splits)
next
  case (ReuseOther b ready)
  then show ?thesis using assms(1) by (auto simp: reuse_or_def split: option.splits)
next
  case (ReserveSlot b ready)
  then show ?thesis
    using assms(1) by (auto simp: reserve_new_slot_def opening_slot_new_def Let_def intro!: hands_fine_pool split: sum.splits if_splits)
next
  case (AwaitPermit b ready)
  then show ?thesis using assms(1) by (auto split: permit_wait.splits if_splits)
next
  case (Opening b ready)
  then show ?thesis using assms(1) hands_fine_open by (auto split: option.splits sum.splits)
next
  case (Install b ready sid)
  obtain p r where r: "install_if_current ready sid (env_now env) (fw_pool f) = (p, r)" by force
  show ?thesis
    using Install assms r by (auto simp: install_if_current_def coherent_def intro!: hands_fine_pool split: sum.splits if_splits)
next
  case (CancelStale b ready sid)
  then show ?thesis using assms hands_fine_cancel [of sid f "[]"] by (auto simp: for_port_def)
next
  case (Threshold h ready sid)
  then show ?thesis using assms(1) by (auto simp: return_session_def split: if_splits)
next
  case (ClaimPrefetch h ready sid)
  then show ?thesis
    using assms(1) by (auto simp: return_session_def prefetch_claim_def intro!: hands_fine_pool split: option.splits if_splits)
qed (use assms(1) in auto)

lemma drop_call_hands: "drop_call pc f = Some (f', lost) \<Longrightarrow> hands_fine f (in_hand pc) f' lost"
  by (cases pc) auto

lemma sessions_extend_settled:
  assumes "sessions_extend (fw_sessions f) ss'" "length ss' = length (fw_sessions f)"
  shows "hands_fine f [] (f\<lparr>fw_sessions := ss'\<rparr>) []"
  using assms by (auto simp: hands_fine_def settled_def sessions_extend_def session_evolves_def)

lemma task_step_hands:
  assumes "task_step env t f = Some (f', t')" "coherent (fw_sessions f) (fw_pool f)" "task_ok (fw_sessions f) t"
  shows "hands_fine f (task_in_hand t) f' (task_in_hand t')"
proof (cases t)
  case (ReplenishTask sid)
  then show ?thesis
    using assms(1) sessions_extend_settled [OF sessions_extend_update [OF replenish_evolves]] by auto
next
  case (PrefetchOpening ready port)
  then show ?thesis using assms(1) hands_fine_open by (auto split: option.splits sum.splits)
next
  case (PrefetchFinish ready opened)
  obtain p b where r: "prefetch_finish (fw_config f) ready opened (env_now env) (fw_pool f) = (p, b)" by force
  then show ?thesis
    using PrefetchFinish assms(1) coherent_snapshot [OF assms(2)]
    by (auto simp: prefetch_finish_def Let_def intro!: hands_fine_pool split: option.splits if_splits)
next
  case (CancelTask sids)
  then show ?thesis using assms hands_fine_cancel by (auto simp: all_opened_def split: list.splits)
qed (use assms(1) in auto)

lemma background_hands:
  assumes "coherent (fw_sessions f) (fw_pool f)"
    and "pod_died name f = (f', new) \<or> drain_and_cancel_all f = (f', new) \<or> prune_tick now f = (f', new)"
  shows "hands_fine f [] f' (concat (map task_in_hand new))"
  using assms(2)
proof (elim disjE)
  assume "pod_died name f = (f', new)"
  then show ?thesis
  proof (cases rule: pod_died_cases)
    case (2 p out)
    then show ?thesis using dr.section_hands [OF assms(1) 2(1)] by (simp add: hands_fine_def settled_def)
  qed simp
next
  assume d: "drain_and_cancel_all f = (f', new)"
  obtain p out where r: "drain_pool None (fw_pool f) = (p, out)" by force
  then show ?thesis using d dr.section_hands [OF assms(1) r] by (auto simp: drain_and_cancel_all_def)
next
  assume d: "prune_tick now f = (f', new)"
  obtain p out where r: "prune_once (fw_config f) now (fw_sessions f) (fw_pool f) = (p, out)" by force
  then show ?thesis using d pr.section_hands [OF assms(1) r] by (auto simp: prune_tick_def)
qed

section \<open>No session is lost\<close>

definition held :: "system \<Rightarrow> nat set" where
  "held st = set (sys_abandoned st) \<union> (\<Union>c \<in> set (sys_calls st). set (in_hand (snd c))) \<union> (\<Union>t \<in> set (sys_tasks st). set (task_in_hand t))"

lemma owned_step:
  assumes "owned st" "hands_fine (sys_fw st) out (sys_fw st') inn" "held st \<subseteq> held st' \<union> set out" "set inn \<subseteq> held st'"
  shows "owned st'"
proof -
  have "{..<length (fw_sessions (sys_fw st'))}
      \<subseteq> {..<length (fw_sessions (sys_fw st))} \<union> {length (fw_sessions (sys_fw st))..<length (fw_sessions (sys_fw st'))}" by auto
  also have "\<dots> \<subseteq> settled (sys_fw st) \<union> held st \<union> {length (fw_sessions (sys_fw st))..<length (fw_sessions (sys_fw st'))}"
    using assms(1) by (auto simp: owned_def accounted_def held_def)
  also have "\<dots> \<subseteq> settled (sys_fw st') \<union> held st'" using assms(2,3,4) unfolding hands_fine_def by blast
  finally show ?thesis by (auto simp: owned_def accounted_def held_def)
qed

lemma set_update_old: "set xs \<subseteq> insert (xs ! i) (set (xs[i := x]))"
proof
  fix y assume "y \<in> set xs"
  then obtain j where "j < length xs" "y = xs ! j" by (auto simp: in_set_conv_nth)
  then show "y \<in> insert (xs ! i) (set (xs[i := x]))"
    by (cases "j = i") (auto simp: in_set_conv_nth intro!: exI [of _ j])
qed

lemma union_update:
  assumes "i < length xs"
  shows "(\<Union>c \<in> set xs. F c) \<subseteq> (\<Union>c \<in> set (xs[i := x]). F c) \<union> F (xs ! i)" "F x \<subseteq> (\<Union>c \<in> set (xs[i := x]). F c)"
  using set_update_old [of xs i x] set_update_memI [OF assms, of x] by blast+

lemma fstep_owned:
  assumes "fstep st st'" "system_inv st" "owned st"
  shows "owned st'"
proof -
  have coh: "coherent (fw_sessions (sys_fw st)) (fw_pool (sys_fw st))" using assms(2) by (simp add: system_inv_def)
  note step = owned_step [OF assms(3)]
  from assms(1) show ?thesis
  proof cases
    case (start port f pc)
    have "hands_fine (sys_fw st) [] f []" using start(2)
      by (auto simp: start_call_def next_call_id_def hands_fine_def settled_def split: if_splits)
    then show ?thesis using start(1) by (intro step [of "[]" _ "[]"]) (auto simp: held_def)
  next
    case (call i port pc env f pc' new)
    have "call_ok (fw_sessions (sys_fw st)) (port, pc)" using assms(2) call by (metis list_all_length system_inv_def)
    from call_step_hands [OF call(4) coh this] show ?thesis
      using call(1,3) union_update [OF call(2), of "\<lambda>c. set (in_hand (snd c))" "(port, pc')"]
      by (intro step [of "in_hand pc" _ "in_hand pc'"]) (auto simp: held_def)
  next
    case (dropped i port pc f lost)
    from drop_call_hands [OF dropped(4)] show ?thesis
      using dropped(1,3) union_update [OF dropped(2), of "\<lambda>c. set (in_hand (snd c))" "(port, Dropped)"]
      by (intro step [of "in_hand pc" _ lost]) (auto simp: held_def)
  next
    case (task j env f t)
    have "task_ok (fw_sessions (sys_fw st)) (sys_tasks st ! j)" using assms(2) task by (metis list_all_length system_inv_def)
    from task_step_hands [OF task(3) coh this] show ?thesis
      using task(1) union_update [OF task(2), of "\<lambda>t. set (task_in_hand t)" t]
      by (intro step [of "task_in_hand (sys_tasks st ! j)" _ "task_in_hand t"]) (auto simp: held_def)
  next
    case (died name f new)
    from background_hands [OF coh disjI1 [OF died(2)]] show ?thesis
      using died(1) by (intro step [of "[]" _ "concat (map task_in_hand new)"]) (auto simp: held_def)
  next
    case (prune now f new)
    from background_hands [OF coh disjI2 [OF disjI2 [OF prune(2)]]] show ?thesis
      using prune(1) by (intro step [of "[]" _ "concat (map task_in_hand new)"]) (auto simp: held_def)
  next
    case shutdown
    have "hands_fine (sys_fw st) [] (shutdown_cancel (sys_fw st)) []"
      using cancel_evolves(2) by (auto simp: hands_fine_def settled_def shutdown_cancel_def)
    then show ?thesis using shutdown by (intro step [of "[]" _ "[]"]) (auto simp: held_def)
  next
    case (drain f new)
    from background_hands [OF coh disjI2 [OF disjI1 [OF drain(3)]]] show ?thesis
      using drain(1) by (intro step [of "[]" _ "concat (map task_in_hand new)"]) (auto simp: held_def)
  next
    case (abort j t lost)
    have "set (task_in_hand (sys_tasks st ! j)) \<subseteq> set lost \<union> set (task_in_hand t)"
      using abort(4) by (cases "sys_tasks st ! j") (auto split: option.splits)
    then show ?thesis
      using abort(1) union_update [OF abort(3), of "\<lambda>t. set (task_in_hand t)" t]
      by (intro step [of "[]" _ "[]"]) (auto simp: held_def)
  next
    case (session sid s')
    have "hands_fine (sys_fw st) [] (sys_fw st') []"
      using session sessions_extend_settled [OF sessions_extend_update [OF session(3)]] by simp
    then show ?thesis using session(1) by (intro step [of "[]" _ "[]"]) (auto simp: held_def)
  next
    case (watcher pw)
    then show ?thesis by (intro step [of "[]" _ "[]"]) (auto simp: held_def)
  qed
qed

lemma reachable_owned:
  assumes "reachable f0 st" "forwarder_build cfg selector new_watcher cancelled = Ok f0"
  shows "owned st"
  using assms(1)
proof induction
  case init
  then show ?case using assms(2) by (auto simp: forwarder_build_def system_init_def owned_def split: if_splits option.splits sum.splits)
next
  case (step st st')
  then show ?case using fstep_owned reachable_inv [OF step(1) assms(2)] by blast
qed

text \<open>
  C40.  Sessions do not go astray.  In every reachable state, each session that was ever opened is in the
  pool, or cancelled, or with a call or task that is about to install or cancel it, or it was abandoned
  with a call or task that was dropped between the open and the install; and the session that a call returns
  was opened for the port that the call asked for.
\<close>

theorem forwarder_sessions_owned:
  assumes "forwarder_build cfg selector new_watcher cancelled = Ok f0" "reachable f0 st"
  shows "(\<forall>sid<length (fw_sessions (sys_fw st)).
      sid \<in> set (snapshot (fw_pool (sys_fw st))) \<or> ks_is_cancelled (session_at (sys_fw st) sid) \<or>
      (\<exists>c \<in> set (sys_calls st). sid \<in> set (in_hand (snd c))) \<or> (\<exists>t \<in> set (sys_tasks st). sid \<in> set (task_in_hand t)) \<or>
      sid \<in> set (sys_abandoned st)) \<and>
    (\<forall>port sid ready. (port, Returned sid ready) \<in> set (sys_calls st) \<longrightarrow>
      sid < length (fw_sessions (sys_fw st)) \<and> k_port (session_at (sys_fw st) sid) = port)"
proof (intro conjI allI impI)
  fix sid assume "sid < length (fw_sessions (sys_fw st))"
  then show "sid \<in> set (snapshot (fw_pool (sys_fw st))) \<or> ks_is_cancelled (session_at (sys_fw st) sid) \<or>
      (\<exists>c \<in> set (sys_calls st). sid \<in> set (in_hand (snd c))) \<or> (\<exists>t \<in> set (sys_tasks st). sid \<in> set (task_in_hand t)) \<or>
      sid \<in> set (sys_abandoned st)"
    using reachable_owned [OF assms(2,1)] by (auto simp: owned_def accounted_def settled_def)
next
  fix port sid ready assume "(port, Returned sid ready) \<in> set (sys_calls st)"
  moreover have "list_all (call_ok (fw_sessions (sys_fw st))) (sys_calls st)"
    using reachable_inv [OF assms(2,1)] by (simp add: system_inv_def)
  ultimately have "for_port (fw_sessions (sys_fw st)) port sid" by (auto simp: list_all_iff)
  then show "sid < length (fw_sessions (sys_fw st))" "k_port (session_at (sys_fw st) sid) = port" by (simp_all add: for_port_def)
qed

theorem forwarder_sessions_owned_witness:
  "\<exists>st. reachable (example_forwarder 2) st \<and> (80, Returned 1 (pod_identity (running_pod ''p''))) \<in> set (sys_calls st) \<and>
     k_port (session_at (sys_fw st) 1) = 80"
proof -
  obtain st where st: "play rollout (system_init (example_forwarder 2)) = Some st"
      "sys_calls st ! 1 = (80, Returned 1 (pod_identity (running_pod ''p'')))" "length (sys_calls st) = 3"
    by (rule exE [OF rollout_eval], elim conjE)
  have m: "(80, Returned 1 (pod_identity (running_pod ''p''))) \<in> set (sys_calls st)" 
    using nth_mem [of 1 "sys_calls st"] st(3) unfolding st(2) by simp
  have r: "reachable (example_forwarder 2) st" using play_init [OF st(1)] .
  have "0 < (2::nat)" by simp
  from forwarder_sessions_owned [OF example_build [OF this] r] have "k_port (session_at (sys_fw st) 1) = 80" using m by blast
  then show ?thesis using m r by blast
qed

end
