(* ===== verification/Forwarder_Progress.thy ===== *)
theory Forwarder_Progress
  imports Forwarder_Laws
begin

text \<open>
  What comes to an end in the forwarder: every call and every task that a call spawns, however their steps are
  interleaved with others and whatever these do to the shared state, but for an open that the server leaves
  without an answer; the loops of the background, when the forwarder is cancelled; and, after \<open>shutdown\<close>, the use of
  sessions.
\<close>

section \<open>Calls and tasks end\<close>

definition call_ended :: "call_pc \<Rightarrow> bool" where
  "call_ended pc = (case pc of Returned sid ready \<Rightarrow> True | Failed e \<Rightarrow> True | Dropped \<Rightarrow> True | _ \<Rightarrow> False)"

text \<open>The retry that a call still has, the stage of \<open>ensure_session_for_pod\<close> it is in, and the sessions it has yet to cancel.\<close>

fun retries_left :: "call_pc \<Rightarrow> nat" where
  "retries_left (WaitReady b) = of_bool b"
| "retries_left (CheckTarget b ready) = of_bool b"
| "retries_left (Retarget b ready) = of_bool b"
| "retries_left (CancelDrained b ready sids) = of_bool b"
| "retries_left (Reuse b ready) = of_bool b"
| "retries_left (RetireDead b ready) = of_bool b"
| "retries_left (CancelRetired b ready sids) = of_bool b"
| "retries_left (FindAgain b ready) = of_bool b"
| "retries_left (Gate b ready) = of_bool b"
| "retries_left (AwaitOther b ready) = of_bool b"
| "retries_left (ReuseOther b ready) = of_bool b"
| "retries_left (ReserveSlot b ready) = of_bool b"
| "retries_left (AwaitPermit b ready) = of_bool b"
| "retries_left (Opening b ready) = of_bool b"
| "retries_left (Install b ready sid) = of_bool b"
| "retries_left (CancelStale b ready sid) = of_bool b"
| "retries_left _ = 0"

primrec call_stage :: "call_pc \<Rightarrow> nat" where
  "call_stage (WaitReady b) = 20"
| "call_stage (CheckTarget b ready) = 19"
| "call_stage (Retarget b ready) = 18"
| "call_stage (CancelDrained b ready sids) = 17"
| "call_stage (Reuse b ready) = 16"
| "call_stage (RetireDead b ready) = 15"
| "call_stage (CancelRetired b ready sids) = 14"
| "call_stage (FindAgain b ready) = 13"
| "call_stage (Gate b ready) = 12"
| "call_stage (AwaitOther b ready) = 11"
| "call_stage (ReuseOther b ready) = 10"
| "call_stage (ReserveSlot b ready) = 9"
| "call_stage (AwaitPermit b ready) = 8"
| "call_stage (Opening b ready) = 7"
| "call_stage (Install b ready sid) = 6"
| "call_stage (CancelStale b ready sid) = 5"
| "call_stage (Replenish h ready sid) = 4"
| "call_stage (Threshold h ready sid) = 3"
| "call_stage (ClaimPrefetch h ready sid) = 2"
| "call_stage (SpawnPrefetch h ready sid) = 1"
| "call_stage (Returned sid ready) = 0"
| "call_stage (Failed e) = 0"
| "call_stage Dropped = 0"

fun left_to_cancel :: "call_pc \<Rightarrow> nat" where
  "left_to_cancel (CancelDrained b ready sids) = length sids"
| "left_to_cancel (CancelRetired b ready sids) = length sids"
| "left_to_cancel _ = 0"

definition call_order :: "(call_pc \<times> call_pc) set" where
  "call_order = measures [retries_left, call_stage, left_to_cancel]"

lemma call_step_decreases:
  assumes "call_step env port pc f = Some (f', pc', new)"
  shows "(pc', pc) \<in> call_order"
  using assms
  by (cases pc) (auto simp: call_order_def reuse_or_def return_session_def Let_def
      split: option.splits prod.splits sum.splits list.splits if_splits permit_wait.splits)

text \<open>
  A call does not step only when it has ended, waits for a pod, waits for a permit while none is free, or waits
  for the answer to an open.
\<close>

lemma call_step_blocked:
  assumes "call_step env port pc f = None"
  shows "call_ended pc \<or> (\<exists>b. pc = WaitReady b \<and> wait_for_ready_pod (fw_watcher f) (env_watch env) = None) \<or>
    (\<exists>b ready. pc = AwaitPermit b ready \<and> env_permit env = PermitAcquired \<and> fw_permits f = 0) \<or>
    (\<exists>b ready. pc = Opening b ready \<and> env_open env = None)"
  using assms
  by (cases pc) (auto simp: call_ended_def reuse_or_def return_session_def Let_def
      split: option.splits prod.splits sum.splits list.splits if_splits permit_wait.splits)

lemma call_ended_stays: "call_ended pc \<Longrightarrow> call_step env port pc f = None"
  by (cases pc) (simp_all add: call_ended_def)

text \<open>The first two waits have a deadline; the third has none.\<close>

lemma waits_time_out:
  "wait_for_ready_pod pw [(WaitDeadline, pw')] \<noteq> None"
  by (simp add: wait_for_ready_pod_def split: prod.splits option.splits)

fun task_stage :: "task_pc \<Rightarrow> nat" where
  "task_stage (PrefetchOpening ready port) = 3"
| "task_stage (PrefetchFinish ready opened) = 2"
| "task_stage (ReplenishTask sid) = 1"
| "task_stage (CancelTask sids) = 1"
| "task_stage TaskDone = 0"

fun task_left :: "task_pc \<Rightarrow> nat" where
  "task_left (CancelTask sids) = length sids"
| "task_left _ = 0"

lemma task_step_decreases:
  assumes "task_step env t f = Some (f', t')"
  shows "(t', t) \<in> measures [task_stage, task_left]"
  using assms by (cases t) (auto simp: Let_def split: sum.splits prod.splits option.splits list.splits if_splits)

lemma task_step_blocked:
  "task_step env t f = None \<Longrightarrow> t = TaskDone \<or> ((\<exists>ready port. t = PrefetchOpening ready port) \<and> env_open env = None)"
  by (cases t) (auto simp: Let_def split: sum.splits prod.splits option.splits list.splits if_splits)

lemma blocked_call_droppable:
  assumes "call_step env port pc f = None" "\<not> call_ended pc"
  shows "\<exists>out. drop_call pc f = Some out"
  using call_step_blocked [OF assms(1)] assms(2) by auto

text \<open>A turn of a loop of the background either ends the loop or is a step of the system.\<close>

lemma reactor_turn:
  "spawn_pod_change_reactor ev f = None \<longleftrightarrow> fw_cancel f \<or> ev = ReactorClosed"
  "spawn_pod_change_reactor ev (sys_fw st) = Some (f', new) \<Longrightarrow>
     st\<lparr>sys_fw := f', sys_tasks := sys_tasks st @ new\<rparr> = st \<or> fstep st (st\<lparr>sys_fw := f', sys_tasks := sys_tasks st @ new\<rparr>)"
  by (auto simp: spawn_pod_change_reactor_def intro: fstep.died split: reactor_event.splits pod_change.splits if_splits)

lemma prune_turn:
  "spawn_prune now f = None \<longleftrightarrow> fw_cancel f"
  "spawn_prune now (sys_fw st) = Some (f', new) \<Longrightarrow> fstep st (st\<lparr>sys_fw := f', sys_tasks := sys_tasks st @ new\<rparr>)"
  by (auto simp: spawn_prune_def intro: fstep.prune split: if_splits)

text \<open>
  C14.  What ends.  The steps of \<open>ensure_session_for_pod\<close>, with its retry after a pod change, and those of the
  tasks that calls spawn cannot go on for ever, whatever other tasks do to the forwarder between any two of them
  and whatever the environment answers.  A call that has not ended and takes no step waits for a pod, for a permit
  or for the answer to its open, and nowhere else.  The first two waits have a deadline, with which the call goes
  on; the open has none, neither in a call nor in a prefetch, which wait as long as the server
  does not answer: with an answer, of either kind, a call goes on from every state, and so does a task.
  A call that waits can be dropped, which is how \<open>connect_on_pod\<close> ends one when the forwarder is cancelled.  The two
  loops of the background do not end by themselves: a turn of the reactor to pod changes ends it exactly when
  the forwarder is cancelled or its channel closed, a turn of the pruning loop exactly when the forwarder is cancelled.
\<close>

theorem forwarder_calls_end:
  "wf {(pc', pc). \<exists>env port f f' new. call_step env port pc f = Some (f', pc', new)} \<and>
   wf {(t', t). \<exists>env f f'. task_step env t f = Some (f', t')} \<and>
   (call_step env port pc f = None \<longleftrightarrow> call_ended pc \<or>
      (\<exists>b. pc = WaitReady b \<and> wait_for_ready_pod (fw_watcher f) (env_watch env) = None) \<or>
      (\<exists>b ready. pc = AwaitPermit b ready \<and> env_permit env = PermitAcquired \<and> fw_permits f = 0) \<or>
      (\<exists>b ready. pc = Opening b ready \<and> env_open env = None)) \<and>
   (\<not> call_ended pc \<longrightarrow>
      (\<exists>out. call_step (env\<lparr>env_watch := [(WaitDeadline, pw)], env_permit := PermitTimeout, env_open := Some answer\<rparr>) port pc f = Some out)) \<and>
   (\<not> call_ended pc \<and> call_step env port pc f = None \<longrightarrow> (\<exists>out. drop_call pc f = Some out)) \<and>
   (task_step env t f = None \<longleftrightarrow> t = TaskDone \<or> ((\<exists>ready port. t = PrefetchOpening ready port) \<and> env_open env = None)) \<and>
   (spawn_pod_change_reactor ev f = None \<longleftrightarrow> fw_cancel f \<or> ev = ReactorClosed) \<and>
   (spawn_prune now f = None \<longleftrightarrow> fw_cancel f)"
proof (intro conjI impI)
  let ?env = "env\<lparr>env_watch := [(WaitDeadline, pw)], env_permit := PermitTimeout, env_open := Some answer\<rparr>"
  show "wf {(pc', pc). \<exists>env port f f' new. call_step env port pc f = Some (f', pc', new)}"
    by (rule wf_subset [of call_order]) (auto simp: call_order_def dest: call_step_decreases [unfolded call_order_def])
  show "wf {(t', t). \<exists>env f f'. task_step env t f = Some (f', t')}"
    by (rule wf_subset [of "measures [task_stage, task_left]"]) (auto dest: task_step_decreases)
  show "call_step env port pc f = None \<longleftrightarrow> call_ended pc \<or>
      (\<exists>b. pc = WaitReady b \<and> wait_for_ready_pod (fw_watcher f) (env_watch env) = None) \<or>
      (\<exists>b ready. pc = AwaitPermit b ready \<and> env_permit env = PermitAcquired \<and> fw_permits f = 0) \<or>
      (\<exists>b ready. pc = Opening b ready \<and> env_open env = None)"
    using call_step_blocked [of env port pc f] call_ended_stays [of pc env port f] by auto
  show "\<exists>out. call_step ?env port pc f = Some out" if "\<not> call_ended pc"
    using call_step_blocked [of ?env port pc f] that waits_time_out by (cases "call_step ?env port pc f") auto
  show "\<exists>out. drop_call pc f = Some out" if "\<not> call_ended pc \<and> call_step env port pc f = None"
    using blocked_call_droppable that by blast
  show "task_step env t f = None \<longleftrightarrow> t = TaskDone \<or> ((\<exists>ready port. t = PrefetchOpening ready port) \<and> env_open env = None)"
    using task_step_blocked [of env t f] by auto
qed (simp_all add: reactor_turn(1) prune_turn(1))

theorem forwarder_calls_end_witness:
  "(\<exists>out. call_step (example_env\<lparr>env_watch := [(WaitDeadline, example_watcher)], env_permit := PermitTimeout,
       env_open := Some (Err Cancelled)\<rparr>) 80 (AwaitPermit True (pod_identity (running_pod ''p''))) (example_forwarder 1) = Some out) \<and>
   (\<exists>out. drop_call (Opening True (pod_identity (running_pod ''p''))) (example_forwarder 1) = Some out)"
proof
  have "\<not> call_ended (AwaitPermit True (pod_identity (running_pod ''p'')))" by (simp add: call_ended_def)
  then show "\<exists>out. call_step (example_env\<lparr>env_watch := [(WaitDeadline, example_watcher)], env_permit := PermitTimeout,
       env_open := Some (Err Cancelled)\<rparr>) 80 (AwaitPermit True (pod_identity (running_pod ''p''))) (example_forwarder 1) = Some out"
    using forwarder_calls_end by blast
  have "\<not> call_ended (Opening True (pod_identity (running_pod ''p'')))"
    "call_step (example_env\<lparr>env_open := None\<rparr>) 80 (Opening True (pod_identity (running_pod ''p''))) (example_forwarder 1) = None"
    by (simp_all add: call_ended_def)
  then show "\<exists>out. drop_call (Opening True (pod_identity (running_pod ''p''))) (example_forwarder 1) = Some out"
    using forwarder_calls_end by blast
qed

section \<open>Shutdown is final\<close>

definition shut_down :: "forwarder \<Rightarrow> bool" where
  "shut_down f \<longleftrightarrow> fw_cancel f \<and> fw_session_cancel f \<and> list_all (\<lambda>s. ks_is_cancelled (os_session s)) (fw_sessions f)"

lemma shut_down_simps [simp]:
  "shut_down (f\<lparr>fw_watcher := pw\<rparr>) = shut_down f" "shut_down (f\<lparr>fw_pool := p\<rparr>) = shut_down f"
  "shut_down (f\<lparr>fw_permits := n\<rparr>) = shut_down f" "shut_down (signal_all ss f) = shut_down f"
  "shut_down (f\<lparr>call_counter := c\<rparr>) = shut_down f"
  "shut_down (release_slot h f) = shut_down f" "shut_down (drop_slot f) = shut_down f"
  by (simp_all add: shut_down_def release_slot_def drop_slot_def)

lemma shut_down_update:
  "shut_down f \<Longrightarrow> session_evolves (session_at f sid) s' \<Longrightarrow>
     shut_down (f\<lparr>fw_sessions := (fw_sessions f)[sid := (fw_sessions f ! sid)\<lparr>os_session := s'\<rparr>]\<rparr>)"
  by (auto simp: shut_down_def session_evolves_def list_all_length nth_update_if)

lemma shut_down_cancel [simp]: "shut_down f \<Longrightarrow> shut_down (cancel_session sid f)"
  using shut_down_update [OF _ cancel_evolves(1)] by (simp add: cancel_session_def)

lemma shut_down_open [simp]: "shut_down f \<Longrightarrow> shut_down (open_session ready port s f)"
  by (simp add: shut_down_def open_session_def cancel_evolves(2) Let_def)

lemma shut_down_shutdown [simp]: "shut_down (shutdown_cancel f)"
  by (simp add: shut_down_def shutdown_cancel_def list_all_iff cancel_evolves(2))

lemma call_step_shut_down: "call_step env port pc f = Some (f', pc', new) \<Longrightarrow> shut_down f \<Longrightarrow> shut_down f'"
  by (cases pc) (auto simp: reuse_or_def return_session_def Let_def
      split: option.splits prod.splits sum.splits list.splits if_splits permit_wait.splits)

lemma drop_call_shut_down: "drop_call pc f = Some (f', lost) \<Longrightarrow> shut_down f \<Longrightarrow> shut_down f'"
  by (cases pc) auto

lemma task_step_shut_down: "task_step env t f = Some (f', t') \<Longrightarrow> shut_down f \<Longrightarrow> shut_down f'"
  using shut_down_update [OF _ replenish_evolves]
  by (cases t) (auto simp: Let_def split: sum.splits prod.splits option.splits list.splits)

lemma fstep_shut_down:
  assumes "fstep st st'" "shut_down (sys_fw st)"
  shows "shut_down (sys_fw st')"
  using assms
  by (cases rule: fstep.cases)
    (auto simp: start_call_def next_call_id_def pod_died_def prune_tick_def drain_and_cancel_all_def Let_def
      intro: call_step_shut_down drop_call_shut_down task_step_shut_down shut_down_update
      split: if_splits option.splits prod.splits)

text \<open>
  C26.  Shutdown is final.  In every state that follows a \<open>shutdown\<close>, under every interleaving with the calls and tasks
  that were under way, both tokens stay tripped and every session is cancelled: those there were, and those
  that a call or task was still opening; no session is found for reuse, and every new call fails
  with \<open>Cancelled\<close>.
\<close>

theorem forwarder_shutdown_final:
  assumes "forwarder_build cfg selector new_watcher cancelled = Ok f0" "reachable f0 st"
    and "fstep\<^sup>*\<^sup>* (st\<lparr>sys_fw := shutdown_cancel (sys_fw st)\<rparr>) st'"
  shows "fw_cancel (sys_fw st') \<and> fw_session_cancel (sys_fw st') \<and>
    (\<forall>sid<length (fw_sessions (sys_fw st')). ks_is_cancelled (session_at (sys_fw st') sid)) \<and>
    find_reusable_session (fw_sessions (sys_fw st')) port (fw_pool (sys_fw st')) = None \<and>
    start_call port (sys_fw st') = (sys_fw st', Failed Cancelled)"
proof -
  have "shut_down (sys_fw st') \<and> reachable f0 st'" using assms(3)
  proof (induction rule: rtranclp_induct)
    case base
    then show ?case using reachable.step [OF assms(2) fstep.shutdown] by simp
  next
    case (step y z)
    then show ?case using fstep_shut_down reachable.step by blast
  qed
  then have d: "shut_down (sys_fw st')" and r: "reachable f0 st'" by simp_all
  have all: "\<forall>sid<length (fw_sessions (sys_fw st')). ks_is_cancelled (session_at (sys_fw st') sid)"
    using d by (simp add: shut_down_def list_all_length)
  have "\<forall>sid \<in> set (snapshot (fw_pool (sys_fw st'))). sid < length (fw_sessions (sys_fw st'))"
    using reachable_inv [OF r assms(1)] by (simp add: system_inv_def coherent_def)
  then have "find_reusable_session (fw_sessions (sys_fw st')) port (fw_pool (sys_fw st')) = None"
    using all by (auto simp: find_reusable_session_def find_None_iff session_serves_def)
  then show ?thesis using d all by (simp add: shut_down_def start_call_def)
qed

text \<open>A call is between its open and its install when the forwarder is shut down.\<close>

definition mid_open :: "action list" where
  "mid_open = StartCall 80 # replicate 8 (StepCall 0 example_env)"

theorem forwarder_shutdown_final_witness:
  "\<exists>st. reachable (example_forwarder 1) st \<and>
     start_call 80 (shutdown_cancel (sys_fw st)) = (shutdown_cancel (sys_fw st), Failed Cancelled)"
proof -
  have "map_option (\<lambda>st. length (sys_calls st)) (play mid_open (system_init (example_forwarder 1))) = Some 1" by code_simp
  then obtain st where st: "play mid_open (system_init (example_forwarder 1)) = Some st" by auto
  have r: "reachable (example_forwarder 1) st" using play_init [OF st] .
  have "0 < (1::nat)" by simp
  from forwarder_shutdown_final [OF example_build [OF this] r rtranclp.rtrancl_refl, of 80]
  show ?thesis using r by auto
qed

end
