(* ===== verification/Forwarder_Open.thy ===== *)
theory Forwarder_Open
  imports Forwarder_Laws Connect_Laws
begin

text \<open>
  How the forwarder opens a session (\<^verbatim>\<open>crates/kube-portforward/src/forwarder/lifecycle.rs\<close>, \<open>open_session\<close>, and the same calls in
  \<^verbatim>\<open>prefetch.rs\<close>): through the session builder of the client (\<open>Kube_Session\<close>), with a token that is a child of the
  forwarder's and with the forwarder's recovery callback.  The steps of a call take the outcome of an open from
  their environment; here that outcome is what the builder makes of the network, and the lemmas show that
  the session which the step records is the one that the builder returned, and which signals are sent.
\<close>

text \<open>What the network answers to one open: both upgrades of the probe, the further ones, and the handshakes.\<close>

record network =
  net_display :: "kube_error \<Rightarrow> string"
  net_probe :: http_env
  net_fallback :: http_env
  net_extra :: "http_env option list"
  net_spawn :: "conn_id \<Rightarrow> (spdy_error, mux_handle) result"

definition forwarder_session_builder ::
  "kclient \<Rightarrow> string \<Rightarrow> callback_id \<Rightarrow> ready_pod \<Rightarrow> u16 \<Rightarrow> forwarder \<Rightarrow> session_builder" where
  "forwarder_session_builder client namespace cb ready port f =
     session_on_recovery cb
       (session_cancellation_token (fw_session_cancel f) (client_session client namespace (rp_name ready) port))"

definition forwarder_open ::
  "network \<Rightarrow> kclient \<Rightarrow> string \<Rightarrow> callback_id \<Rightarrow> ready_pod \<Rightarrow> u16 \<Rightarrow> forwarder
    \<Rightarrow> (callback_id \<times> recovery_signal) list \<times> (kube_error, ksession) result" where
  "forwarder_open net client namespace cb ready port f =
     session_builder_open (net_display net) (net_probe net) (net_fallback net) (net_extra net) (net_spawn net)
       (forwarder_session_builder client namespace cb ready port f)"

text \<open>The environment of a step in which the network answers.\<close>

definition network_open :: "network \<Rightarrow> kclient \<Rightarrow> string \<Rightarrow> ready_pod \<Rightarrow> u16 \<Rightarrow> recovery_signal list \<times> (kube_error, ksession) result" where
  "network_open net client namespace ready port =
     open_spdy_session (net_display net) (net_probe net) (net_fallback net) (net_extra net) (net_spawn net)
       (kc_cluster_url client) namespace (rp_name ready) port DEFAULT_SPDY_POOL_SIZE"

definition answered_by :: "network \<Rightarrow> kclient \<Rightarrow> string \<Rightarrow> ready_pod \<Rightarrow> u16 \<Rightarrow> step_env \<Rightarrow> step_env" where
  "answered_by net client namespace ready port env =
     (let (signals, r) = network_open net client namespace ready port
      in env\<lparr>env_signals := signals, env_open := Some (map_sum id (\<lambda>ks. (k_inner ks, k_protocol ks)) r)\<rparr>)"

lemma forwarder_open_network:
  "forwarder_open net client namespace cb ready port f =
     (let (signals, r) = network_open net client namespace ready port
      in (map (Pair cb) signals, map_sum id (\<lambda>ks. if fw_session_cancel f then ksession_cancel ks else ks) r))"
  by (simp add: forwarder_open_def session_builder_open_def forwarder_session_builder_def network_open_def
      session_on_recovery_def session_cancellation_token_def client_session_def callback_calls_def Let_def
      split: prod.splits sum.splits)

lemma network_open_fresh:
  assumes "network_open net client namespace ready port = (signals, Ok ks)"
  shows "ks = ksession_from_spdy (k_inner ks) (k_protocol ks) port"
  using assms by (auto simp: network_open_def open_spdy_session_def ksession_from_spdy_def Let_def split: prod.splits sum.splits)

text \<open>The step of a call, and that of a prefetch, record what the builder returned and send what it sends.\<close>

lemma opening_step_open:
  assumes "forwarder_open net client namespace cb ready port f = (calls, r)"
  shows "call_step (answered_by net client namespace ready port env) port (Opening b ready) f =
    (case r of
       Inl e \<Rightarrow> Some (signal_all (map snd calls) (release_slot True f), Failed e, [])
     | Inr ks \<Rightarrow> Some (signal_all (map snd calls) (f\<lparr>fw_sessions := fw_sessions f @ [\<lparr>os_session = ks, os_pod = ready\<rparr>]\<rparr>),
         Install b ready (length (fw_sessions f)), []))"
proof -
  obtain signals r0 where n: "network_open net client namespace ready port = (signals, r0)" by force
  show ?thesis
    using assms n network_open_fresh [of net client namespace ready port signals]
    by (cases r0) (auto simp: forwarder_open_network answered_by_def open_session_def comp_def)
qed

lemma prefetch_step_open:
  assumes "forwarder_open net client namespace cb ready port f = (calls, r)"
  shows "task_step (answered_by net client namespace ready port env) (PrefetchOpening ready port) f =
    (case r of
       Inl e \<Rightarrow> Some (signal_all (map snd calls) f, PrefetchFinish ready None)
     | Inr ks \<Rightarrow> Some (signal_all (map snd calls) (f\<lparr>fw_sessions := fw_sessions f @ [\<lparr>os_session = ks, os_pod = ready\<rparr>]\<rparr>),
         PrefetchFinish ready (Some (length (fw_sessions f)))))"
proof -
  obtain signals r0 where n: "network_open net client namespace ready port = (signals, r0)" by force
  show ?thesis
    using assms n network_open_fresh [of net client namespace ready port signals]
    by (cases r0) (auto simp: forwarder_open_network answered_by_def open_session_def comp_def)
qed

section \<open>What an open returns\<close>

lemma length_extra_upgrades: "length (extra_upgrades proto tasks url namespace pod) \<le> length tasks"
  by (induction tasks) (auto simp: extra_upgrades_def split: option.splits sum.splits)

lemma session_with_config_bounds:
  assumes "session_with_config rs = Ok s"
  shows "pool s \<noteq> []" "length (pool s) \<le> length rs" "\<not> session_cancelled s"
proof -
  have "length (concat (map (\<lambda>r. case r of Inr h \<Rightarrow> [h] | Inl e \<Rightarrow> []) rs)) \<le> length rs"
    by (induction rs) (auto split: sum.splits)
  then show "pool s \<noteq> []" "length (pool s) \<le> length rs" "\<not> session_cancelled s"
    using assms by (auto simp: session_with_config_def Let_def split: if_splits)
qed

lemma forwarder_open_ok:
  assumes "forwarder_open net client namespace cb ready port f = (calls, Ok ks)"
  shows "calls = []" and "k_port ks = port" and "pool (k_inner ks) \<noteq> []"
    and "length (pool (k_inner ks)) \<le> DEFAULT_SPDY_POOL_SIZE" and "ks_is_cancelled ks = fw_session_cancel f"
    and "k_protocol ks = (if ws_rejected (net_probe net) (kc_cluster_url client) namespace (rp_name ready)
           then LegacySpdy else Spdy31Tunnel)"
proof -
  let ?url = "kc_cluster_url client"
  obtain signals ks0 where n: "network_open net client namespace ready port = (signals, Ok ks0)"
    and calls: "calls = map (Pair cb) signals" and ks: "ks = (if fw_session_cancel f then ksession_cancel ks0 else ks0)"
    using assms by (cases "snd (network_open net client namespace ready port)") (auto simp: forwarder_open_network split: prod.splits)
  obtain up tasks s where u: "upgrade_spdy_with_fallback (net_display net) (net_probe net) (net_fallback net) ?url namespace
      (rp_name ready) = (signals, Ok up)"
    and s: "session_with_config (map (net_spawn net) (upgraded up #
      extra_upgrades (up_protocol up) (take (DEFAULT_SPDY_POOL_SIZE - 1) tasks) ?url namespace (rp_name ready))) = Ok s"
    and ks0: "ks0 = ksession_from_spdy s (up_protocol up) port"
    using n by (auto simp: network_open_def open_spdy_session_def extra_upgrades_def Let_def
        split: prod.splits sum.splits if_splits)
  note fb = fallback_exact [OF u]
  note sc = session_with_config_bounds [OF s]
  have "length (extra_upgrades (up_protocol up) (take (DEFAULT_SPDY_POOL_SIZE - 1) tasks) ?url namespace (rp_name ready))
      \<le> DEFAULT_SPDY_POOL_SIZE - 1"
    using length_extra_upgrades [of _ "take (DEFAULT_SPDY_POOL_SIZE - 1) tasks"] by (rule order_trans) simp
  then have "length (pool s) \<le> DEFAULT_SPDY_POOL_SIZE" using sc(2) by (simp add: DEFAULT_SPDY_POOL_SIZE_def)
  then show "calls = []" "k_port ks = port" "pool (k_inner ks) \<noteq> []" "length (pool (k_inner ks)) \<le> DEFAULT_SPDY_POOL_SIZE"
    "ks_is_cancelled ks = fw_session_cancel f"
    "k_protocol ks = (if ws_rejected (net_probe net) ?url namespace (rp_name ready) then LegacySpdy else Spdy31Tunnel)"
    using fb sc(1,3) calls ks ks0 by (auto simp: ksession_from_spdy_def ksession_cancel_def session_close_def ks_is_cancelled_def)
qed

text \<open>
  A failed open sends one signal, unless the settings were at fault or the upgrade was granted and only the
  handshake of the multiplexer failed.
\<close>

lemma build_legacy_error: "build_legacy_spdy_request parse url namespace pod = Err e \<Longrightarrow> \<exists>m. e = Configuration m"
  by (auto simp: build_legacy_spdy_request_def portforward_uri_def Let_def split: if_splits option.splits sum.splits)

lemma upgrades_not_spdy_error:
  "upgrade_spdy_tunnel env url namespace pod = Err e \<Longrightarrow> e \<noteq> SpdyError e'"
  "upgrade_legacy_spdy env url namespace pod = Err e \<Longrightarrow> e \<noteq> SpdyError e'"
  by (auto simp: upgrade_spdy_tunnel_def perform_ws_upgrade_def dest!: build_tunnel_error split: sum.splits if_splits)
    (auto simp: upgrade_legacy_spdy_def perform_legacy_spdy_upgrade_def dest!: build_legacy_error split: sum.splits if_splits)

lemma forwarder_open_err:
  assumes "forwarder_open net client namespace cb ready port f = (calls, Err e)"
  shows "length calls = (if (\<exists>e'. e = SpdyError e') \<or>
     \<not> ws_rejected (net_probe net) (kc_cluster_url client) namespace (rp_name ready) \<and> (\<exists>m. e = Configuration m) then 0 else 1)"
proof -
  let ?url = "kc_cluster_url client"
  obtain signals r where u: "upgrade_spdy_with_fallback (net_display net) (net_probe net) (net_fallback net) ?url namespace
      (rp_name ready) = (signals, r)" by force
  have calls: "calls = map (Pair cb) signals" and e: "r = Err e \<or> (\<exists>up e'. r = Ok up \<and> e = SpdyError e')"
    using assms u by (cases r; auto simp: forwarder_open_network network_open_def open_spdy_session_def Let_def
        split: sum.splits)+
  have "r = Err e \<Longrightarrow> e \<noteq> SpdyError e'" for e'
    using fallback_exact [OF u] upgrades_not_spdy_error by (auto split: if_splits)
  then show ?thesis using e fallback_exact [OF u] calls by auto
qed

end
