(* ===== verification/Conformance_Codec.thy ===== *)
theory Conformance_Codec
  imports Codec_Properties Kube_Session_Laws
begin

text \<open>
  The unit tests of the codec (\<^verbatim>\<open>crates/spdy-mux/src/codec.rs\<close>, module \<open>tests\<close>), run on the definitions.  Each test
  is a boolean with the calls and assertions of the source; those that compress nothing hold for every zlib
  stream, the others for every stream with the laws of \<open>Codec_Zlib\<close>.  The test that inflates a zlib bomb
  depends on flate2 itself; what it asserts is a theorem (C5).
\<close>

definition fresh_codec :: "('zc, 'zd) flate2 \<Rightarrow> ('zc, 'zd) spdy_codec" where
  "fresh_codec z = with_max_frame_size z 16384"

text \<open>\<open>None\<close> is a failed \<open>expect\<close>.\<close>

definition decode_one ::
  "('zc, 'zd) flate2 \<Rightarrow> ('zc, 'zd) spdy_codec \<Rightarrow> byte list \<Rightarrow> (('zc, 'zd) spdy_codec \<times> frame) option" where
  "decode_one z codec data =
     (case decode_frame z codec data of Some (c, rest, Inr (Some f)) \<Rightarrow> Some (c, f) | _ \<Rightarrow> None)"

definition encode_decode_data_frame :: "('zc, 'zd) flate2 \<Rightarrow> bool" where
  "encode_decode_data_frame z \<longleftrightarrow>
     map_option snd (decode_one z (fresh_codec z) (encode_data 3 (str_bytes ''hello world'') False))
       = Some (Data 3 (str_bytes ''hello world'') False)"

definition encode_decode_data_frame_with_fin :: "('zc, 'zd) flate2 \<Rightarrow> bool" where
  "encode_decode_data_frame_with_fin z \<longleftrightarrow>
     (case decode_one z (fresh_codec z) (encode_data 7 [] True) of
        Some (c, Data stream_id p fin) \<Rightarrow> stream_id = 7 \<and> fin | _ \<Rightarrow> False)"

definition encode_decode_rst_stream :: "('zc, 'zd) flate2 \<Rightarrow> bool" where
  "encode_decode_rst_stream z \<longleftrightarrow>
     map_option snd (decode_one z (fresh_codec z) (encode_rst_stream 5 2)) = Some (RstStream 5 2)"

definition test_header :: "string \<Rightarrow> string \<Rightarrow> header" where
  "test_header name value = (str_bytes name, str_bytes value)"

definition syn_stream_roundtrip :: "('zc, 'zd) flate2 \<Rightarrow> u32 \<Rightarrow> header list \<Rightarrow> bool \<Rightarrow> bool" where
  "syn_stream_roundtrip z stream_id headers fin \<longleftrightarrow>
     (case encode_syn_stream z (fresh_codec z) stream_id headers fin of
        Some (codec, Inr encoded) \<Rightarrow> map_option snd (decode_one z codec encoded) = Some (SynStream stream_id headers fin)
      | _ \<Rightarrow> False)"

definition encode_decode_syn_stream_roundtrip :: "('zc, 'zd) flate2 \<Rightarrow> bool" where
  "encode_decode_syn_stream_roundtrip z \<longleftrightarrow>
     syn_stream_roundtrip z 1 [test_header ''streamtype'' ''data'', test_header ''port'' ''8080''] False"

definition encode_decode_syn_stream_with_fin :: "('zc, 'zd) flate2 \<Rightarrow> bool" where
  "encode_decode_syn_stream_with_fin z \<longleftrightarrow>
     syn_stream_roundtrip z 1
       [test_header ''streamtype'' ''error'', test_header ''port'' ''9200'', test_header ''requestid'' ''0''] True"

definition multiple_syn_streams_share_compressor_state :: "('zc, 'zd) flate2 \<Rightarrow> bool" where
  "multiple_syn_streams_share_compressor_state z \<longleftrightarrow>
     (let h1 = [test_header ''streamtype'' ''error'', test_header ''port'' ''8080'', test_header ''requestid'' ''0''];
          h2 = [test_header ''streamtype'' ''data'', test_header ''port'' ''8080'', test_header ''requestid'' ''0'']
      in case encode_syn_stream z (fresh_codec z) 1 h1 True of
        Some (c1, Inr enc1) \<Rightarrow>
          (case encode_syn_stream z c1 3 h2 False of
             Some (c2, Inr enc2) \<Rightarrow>
               (case decode_one z c2 enc1 of
                  Some (c3, f1) \<Rightarrow> f1 = SynStream 1 h1 True \<and> map_option snd (decode_one z c3 enc2) = Some (SynStream 3 h2 False)
                | None \<Rightarrow> False)
           | _ \<Rightarrow> False)
      | _ \<Rightarrow> False)"

definition encode_decode_ping :: "('zc, 'zd) flate2 \<Rightarrow> bool" where
  "encode_decode_ping z \<longleftrightarrow> map_option snd (decode_one z (fresh_codec z) (encode_ping 42)) = Some (Ping 42)"

definition encode_decode_window_update :: "('zc, 'zd) flate2 \<Rightarrow> bool" where
  "encode_decode_window_update z \<longleftrightarrow>
     map_option snd (decode_one z (fresh_codec z) (encode_window_update 5 32768)) = Some (WindowUpdate 5 32768)"

definition incomplete_buffer_returns_none :: "('zc, 'zd) flate2 \<Rightarrow> bool" where
  "incomplete_buffer_returns_none z \<longleftrightarrow>
     map_option (snd \<circ> snd) (decode_frame z (fresh_codec z) [0, 0, 0, 0]) = Some (Ok None) \<and>
     map_option (snd \<circ> snd) (decode_frame z (fresh_codec z) (take 10 (encode_data 1 (str_bytes ''hello'') False)))
       = Some (Ok None)"

definition decode_goaway_frame :: "('zc, 'zd) flate2 \<Rightarrow> bool" where
  "decode_goaway_frame z \<longleftrightarrow>
     map_option snd (decode_one z (fresh_codec z)
       (u16_to_be 0x8003 @ u16_to_be 7 @ u32_to_be 8 @ u32_to_be 42 @ u32_to_be 0)) = Some (GoAway 42 0)"

definition streaming_decode_multiple_frames :: "('zc, 'zd) flate2 \<Rightarrow> bool" where
  "streaming_decode_multiple_frames z \<longleftrightarrow>
     (let f1 = encode_data 1 (str_bytes ''aaa'') False; f2 = encode_data 3 (str_bytes ''bbb'') True; buf = f1 @ f2
      in case decode_frame z (fresh_codec z) buf of
        Some (c1, buf1, Inr (Some (Data id1 p1 fin1))) \<Rightarrow>
          length buf - length buf1 = length f1 \<and> id1 = 1 \<and>
          (case decode_frame z c1 buf1 of
             Some (c2, buf2, Inr (Some (Data id2 p2 fin2))) \<Rightarrow> buf2 = [] \<and> id2 = 3 \<and> fin2
           | _ \<Rightarrow> False)
      | _ \<Rightarrow> False)"

definition encode_decode_goaway_roundtrip :: "('zc, 'zd) flate2 \<Rightarrow> bool" where
  "encode_decode_goaway_roundtrip z \<longleftrightarrow>
     map_option snd (decode_one z (fresh_codec z) (encode_goaway 99 0)) = Some (GoAway 99 0)"

definition encode_decode_settings_roundtrip :: "('zc, 'zd) flate2 \<Rightarrow> bool" where
  "encode_decode_settings_roundtrip z \<longleftrightarrow>
     (case decode_one z (fresh_codec z) (encode_settings [(7, 131072), (4, 200)]) of
        Some (c, Settings iws mcs mfs) \<Rightarrow> iws = Some 131072 \<and> mcs = Some 200
      | _ \<Rightarrow> False)"

definition frame_too_large_rejected :: "('zc, 'zd) flate2 \<Rightarrow> bool" where
  "frame_too_large_rejected z \<longleftrightarrow>
     map_option (snd \<circ> snd) (decode_frame z (with_max_frame_size z 10) (encode_data 1 (replicate 20 0) False))
       = Some (Err (FrameTooLarge 1 20 10))"

definition header_count_larger_than_the_block_is_rejected :: bool where
  "header_count_larger_than_the_block_is_rejected \<longleftrightarrow>
     parse_header_block (u32_to_be (- 1) @ u32_to_be 4 @ str_bytes ''host'' @ u32_to_be 1 @ str_bytes ''a'')
       = Err (InvalidFrame ''header count exceeds header block'')"

definition header_count_matching_the_block_still_parses :: bool where
  "header_count_matching_the_block_still_parses \<longleftrightarrow>
     parse_header_block (u32_to_be 1 @ u32_to_be 4 @ str_bytes ''host'' @ u32_to_be 9 @ str_bytes ''127.0.0.1'')
       = Ok [test_header ''host'' ''127.0.0.1'']"

definition oversized_control_frame_is_rejected_before_inflating :: "('zc, 'zd) flate2 \<Rightarrow> bool" where
  "oversized_control_frame_is_rejected_before_inflating z \<longleftrightarrow>
     (let payload_len = MAX_CONTROL_FRAME_SIZE + 1;
          buf = u16_to_be SPDY_VERSION @ u16_to_be SYN_REPLY_TYPE @ u32_to_be (word_of_nat payload_len) @ replicate payload_len 0
      in case decode_frame z (fresh_codec z) buf of
        Some (c, rest, Inl (FrameTooLarge sid n max')) \<Rightarrow> n = payload_len \<and> max' = word_of_nat MAX_CONTROL_FRAME_SIZE
      | _ \<Rightarrow> False)"

section \<open>The two directions of a codec do not meet\<close>

text \<open>A test encodes and decodes with one codec; \<open>with_encoder e d\<close> has the encoder of \<open>e\<close> and the decoder of \<open>d\<close>.\<close>

definition with_encoder :: "('zc, 'zd) spdy_codec \<Rightarrow> ('zc, 'zd) spdy_codec \<Rightarrow> ('zc, 'zd) spdy_codec" where
  "with_encoder e d = d\<lparr>compressor := compressor e, dict_set_compress := dict_set_compress e\<rparr>"

lemma with_encoder_simps [simp]:
  "with_encoder c c = c" "with_encoder e (with_encoder f d) = with_encoder e d"
  by (simp_all add: with_encoder_def)

lemma compress_keeps_decoder: "compress_headers z c hs = Some (c', r) \<Longrightarrow> c' = with_encoder c' c"
  by (auto simp: compress_headers_def with_encoder_def Let_def split: sum.splits)

lemma encode_syn_keeps_decoder:
  "encode_syn_stream z c sid hs fin = Some (c', r) \<Longrightarrow> c' = with_encoder c' c"
  by (auto simp: encode_syn_stream_def encode_syn_stream_with_priority_def dest: compress_keeps_decoder)

lemma decompress_headers_with_encoder:
  "decompress_headers z (with_encoder e d) bs = map_option (apfst (with_encoder e)) (decompress_headers z d bs)"
  by (cases d) (simp add: decompress_headers_def with_encoder_def option.map_comp comp_def split_def)

lemma decode_control_frame_with_encoder:
  "decode_control_frame z (with_encoder e d) t fl bs = map_option (apfst (with_encoder e)) (decode_control_frame z d t fl bs)"
  by (simp add: decode_control_frame_def decompress_headers_with_encoder option.map_comp comp_def split_def)

lemma decode_frame_with_encoder:
  "decode_frame z (with_encoder e d) buf = map_option (apfst (with_encoder e)) (decode_frame z d buf)"
proof -
  have "frame_limit (with_encoder e d) buf = frame_limit d buf" by (simp add: frame_limit_def with_encoder_def)
  then show ?thesis
    by (simp add: decode_frame_def decode_control_frame_with_encoder option.map_comp comp_def split_def Let_def)
qed

lemma decode_one_with_encoder:
  "decode_one z (with_encoder e d) buf = map_option (apfst (with_encoder e)) (decode_one z d buf)"
  by (simp add: decode_one_def decode_frame_with_encoder split: option.splits prod.splits sum.splits)

section \<open>The tests pass\<close>

lemma fresh_codec_limit [simp]: "codec_max_frame_size (fresh_codec z) = 16384"
  by (simp add: fresh_codec_def with_max_frame_size_def)

lemmas decodes_alone = decode_encode_data [where rest = "[]", simplified] decode_encode_rst [where rest = "[]", simplified]
  decode_encode_ping [where rest = "[]", simplified] decode_encode_window_update [where rest = "[]", simplified]
  decode_encode_goaway [where rest = "[]", simplified] decode_encode_settings [where rest = "[]", simplified]

lemma codec_frame_tests:
  "encode_decode_data_frame z" "encode_decode_data_frame_with_fin z" "encode_decode_rst_stream z" "encode_decode_ping z"
  "encode_decode_window_update z" "encode_decode_goaway_roundtrip z"
  by (simp_all add: encode_decode_data_frame_def encode_decode_data_frame_with_fin_def encode_decode_rst_stream_def
      encode_decode_ping_def encode_decode_window_update_def encode_decode_goaway_roundtrip_def decode_one_def decodes_alone)

lemma codec_goaway_bytes_test: "decode_goaway_frame z"
  using decodes_alone(5) [of z "fresh_codec z" 42 0]
  by (simp add: decode_goaway_frame_def decode_one_def encode_goaway_def frame_type_defs)

lemma codec_settings_test: "encode_decode_settings_roundtrip z"
  by (simp add: encode_decode_settings_roundtrip_def decode_one_def decodes_alone settings_frame_def apply_setting_def
      SETTINGS_INITIAL_WINDOW_SIZE_def SETTINGS_MAX_CONCURRENT_STREAMS_def)

lemma codec_streaming_test: "streaming_decode_multiple_frames z"
  by (simp add: streaming_decode_multiple_frames_def decode_encode_data decodes_alone Let_def)

text \<open>A header of plain text crosses unchanged.\<close>

lemma test_header_crosses:
  assumes "plain_text name" "plain_text value" "length name < 2 ^ 32" "length value < 2 ^ 32"
  shows "wf_header (test_header name value)" "lower_header (test_header name value) = test_header name value"
  using assms plain_bytes [OF assms(1)] plain_bytes [OF assms(2)] by (simp_all add: wf_header_def lower_header_def test_header_def)

lemma length_test_header [simp]:
  "length (fst (test_header name value)) = length name" "length (snd (test_header name value)) = length value"
  by (simp_all add: test_header_def)

lemma plain_test_words: "plain_text ''8080''" "plain_text ''9200''" "plain_text ''0''"
  by (simp_all add: plain_text_def)

lemma syn_stream_roundtrip_plain:
  assumes "zlib_transfers z R" "zlib_primes z R (z_compress_new z) (z_decompress_new z)"
    and "list_all wf_header hs" "map lower_header hs = hs" "length (header_block hs) \<le> 768"
  shows "syn_stream_roundtrip z sid hs fin"
proof -
  have "codec_sync z R (fresh_codec z) (fresh_codec z)"
    using assms(2) by (simp add: codec_sync_def fresh_codec_def with_max_frame_size_def)
  from syn_stream_transfer [OF assms(1) this assms(3,5), of sid fin "[]"] obtain c d bytes
    where e: "encode_syn_stream z (fresh_codec z) sid hs fin = Some (c, Ok bytes)"
      and dec: "decode_frame z (fresh_codec z) bytes = Some (d, [], Ok (Some (SynStream sid hs fin)))"
    using assms(4) by auto
  have "decode_one z c bytes = map_option (apfst (with_encoder c)) (decode_one z (fresh_codec z) bytes)"
    using encode_syn_keeps_decoder [OF e] decode_one_with_encoder by metis
  then show ?thesis by (simp add: syn_stream_roundtrip_def e decode_one_def dec)
qed

lemma codec_syn_tests:
  assumes "zlib_transfers z R" "zlib_primes z R (z_compress_new z) (z_decompress_new z)"
  shows "encode_decode_syn_stream_roundtrip z" "encode_decode_syn_stream_with_fin z"
  by (simp_all add: encode_decode_syn_stream_roundtrip_def encode_decode_syn_stream_with_fin_def
      syn_stream_roundtrip_plain [OF assms] test_header_crosses plain_test_words header_block_def)

lemma codec_shared_state_test:
  assumes z: "zlib_transfers z R" and new: "zlib_primes z R (z_compress_new z) (z_decompress_new z)"
  shows "multiple_syn_streams_share_compressor_state z"
proof -
  let ?h1 = "[test_header ''streamtype'' ''error'', test_header ''port'' ''8080'', test_header ''requestid'' ''0'']"
  let ?h2 = "[test_header ''streamtype'' ''data'', test_header ''port'' ''8080'', test_header ''requestid'' ''0'']"
  have h: "list_all wf_header ?h1" "map lower_header ?h1 = ?h1" "length (header_block ?h1) \<le> 768"
    "list_all wf_header ?h2" "map lower_header ?h2 = ?h2" "length (header_block ?h2) \<le> 768"
    by (simp_all add: test_header_crosses plain_test_words header_block_def)
  have sync: "codec_sync z R (fresh_codec z) (fresh_codec z)"
    using new by (simp add: codec_sync_def fresh_codec_def with_max_frame_size_def)
  obtain c1 d1 b1 where e1: "encode_syn_stream z (fresh_codec z) 1 ?h1 True = Some (c1, Ok b1)"
    and dec1: "decode_frame z (fresh_codec z) b1 = Some (d1, [], Ok (Some (SynStream 1 ?h1 True)))" and s1: "codec_sync z R c1 d1"
    using syn_stream_transfer [OF z sync h(1,3), of 1 True "[]"] h(2) by auto
  obtain c2 d2 b2 where e2: "encode_syn_stream z c1 3 ?h2 False = Some (c2, Ok b2)"
    and dec2: "decode_frame z d1 b2 = Some (d2, [], Ok (Some (SynStream 3 ?h2 False)))"
    using syn_stream_transfer [OF z s1 h(4,6), of 3 False "[]"] h(5) by auto
  have "c2 = with_encoder c2 (fresh_codec z)"
    using encode_syn_keeps_decoder [OF e1] encode_syn_keeps_decoder [OF e2] by (metis with_encoder_simps(2))
  then have "decode_one z c2 b1 = map_option (apfst (with_encoder c2)) (decode_one z (fresh_codec z) b1)"
    using decode_one_with_encoder by metis
  then have "decode_one z c2 b1 = Some (with_encoder c2 d1, SynStream 1 ?h1 True)" by (simp add: decode_one_def dec1)
  moreover have "map_option snd (decode_one z (with_encoder c2 d1) b2) = Some (SynStream 3 ?h2 False)"
    by (simp add: decode_one_with_encoder) (simp add: decode_one_def dec2)
  ultimately show ?thesis by (simp add: multiple_syn_streams_share_compressor_state_def e1 e2 Let_def)
qed

lemma codec_buffer_tests:
  "incomplete_buffer_returns_none z" "frame_too_large_rejected z"
  by (simp_all add: incomplete_buffer_returns_none_def frame_too_large_rejected_def decode_frame_def with_max_frame_size_def
      hdr_payload_len_def hdr_is_control_def hdr_stream_id_def frame_limit_def encode_data_def flags_len_def fin_flag_def
      u32_to_be_def u32_at_def u32_from_be_def u16_from_be_def str_bytes_def Let_def)

lemma codec_header_count_test: header_count_larger_than_the_block_is_rejected
  by (simp add: header_count_larger_than_the_block_is_rejected_def parse_header_block_def str_bytes_def
      unsigned_minus_1_eq_mask mask_eq_exp_minus_1)

lemma codec_header_match_test: header_count_matching_the_block_still_parses
proof -
  have p: "plain_text ''host''" "plain_text ''127.0.0.1''" by (simp_all add: plain_text_def)
  then have "header_entry (test_header ''host'' ''127.0.0.1'')
      = u32_to_be 4 @ str_bytes ''host'' @ u32_to_be 9 @ str_bytes ''127.0.0.1''"
    by (simp add: header_entry_def test_header_def plain_bytes(2))
  then show ?thesis
    using p parse_header_block_roundtrip [of "[test_header ''host'' ''127.0.0.1'']"]
    by (simp add: header_count_matching_the_block_still_parses_def test_header_crosses header_block_def)
qed

lemma codec_oversized_test: "oversized_control_frame_is_rejected_before_inflating z"
  by (simp add: oversized_control_frame_is_rejected_before_inflating_def decode_frame_def hdr_payload_len_def hdr_is_control_def
      frame_limit_def MAX_CONTROL_FRAME_SIZE_def frame_type_defs u16_to_be_def u32_to_be_def u32_at_def u32_from_be_def
      u16_from_be_def Let_def)

end
