(* ===== verification/Test_Peers.thy ===== *)
theory Test_Peers
  imports Mux
begin

text \<open>
  The peers that the unit tests of the repository put at the other end of a connection: \<open>run_test_peer\<close>
  (\<^verbatim>\<open>crates/spdy-mux/src/stream.rs\<close>), which decodes with the codec, answers PINGs and reports the other frames; the
  loopback of \<^verbatim>\<open>crates/kube-portforward/src/session.rs\<close>, which reads frame headers by hand and sends PINGs and data back;
  and the echo of \<open>fake_session\<close> (\<^verbatim>\<open>forwarder/pool.rs\<close>).  The lemmas say what they make of the bytes that the writer puts on
  the wire, however the socket cuts them.
\<close>

section \<open>The test peer\<close>

record ('zc, 'zd) test_peer =
  tp_codec :: "('zc, 'zd) spdy_codec"
  tp_buf :: "byte list"
  tp_events :: "frame list"
  tp_written :: "byte list list"

definition TEST_MAX_FRAME :: u32 where "TEST_MAX_FRAME = 1024 * 1024"

definition test_peer_new :: "('zc, 'zd) flate2 \<Rightarrow> ('zc, 'zd) test_peer" where
  "test_peer_new z = \<lparr>tp_codec = with_max_frame_size z TEST_MAX_FRAME, tp_buf = [], tp_events = [], tp_written = []\<rparr>"

text \<open>The frames that are skipped: SETTINGS and the WINDOW_UPDATEs of the session.\<close>

definition peer_skips :: "frame \<Rightarrow> bool" where
  "peer_skips f = (case f of Settings iws mcs mfs \<Rightarrow> True | WindowUpdate sid delta \<Rightarrow> sid = 0 | _ \<Rightarrow> False)"

text \<open>
  One round of the loop over \<open>decode_frame\<close>.  \<open>write_ok\<close> and \<open>event_ok\<close> say whether the socket and the channel of the test
  accept.  The bool of a result says that the task has returned; \<open>Inl None\<close> that the decoder has not.
\<close>

definition peer_round ::
  "('zc, 'zd) flate2 \<Rightarrow> bool \<Rightarrow> bool \<Rightarrow> ('zc, 'zd) test_peer
    \<Rightarrow> (('zc, 'zd) test_peer \<times> bool) option + ('zc, 'zd) test_peer" where
  "peer_round z write_ok event_ok p =
     (case decode_frame z (tp_codec p) (tp_buf p) of
        None \<Rightarrow> Inl None
      | Some (c, buf, r) \<Rightarrow>
          (let p1 = p\<lparr>tp_codec := c, tp_buf := buf\<rparr> in
           case r of
             Inl e \<Rightarrow> Inl (Some (p1, True))
           | Inr None \<Rightarrow> Inl (Some (p1, False))
           | Inr (Some f) \<Rightarrow>
               (case f of
                  Ping pid \<Rightarrow>
                    if write_ok then Inr (p1\<lparr>tp_written := tp_written p1 @ [encode_ping pid]\<rparr>) else Inl (Some (p1, True))
                | _ \<Rightarrow>
                    if peer_skips f then Inr p1
                    else if event_ok then Inr (p1\<lparr>tp_events := tp_events p1 @ [f]\<rparr>) else Inl (Some (p1, True)))))"

definition peer_feed ::
  "('zc, 'zd) flate2 \<Rightarrow> bool \<Rightarrow> bool \<Rightarrow> byte list \<Rightarrow> ('zc, 'zd) test_peer \<Rightarrow> (('zc, 'zd) test_peer \<times> bool) option" where
  "peer_feed z write_ok event_ok chunk p =
     Option.bind (run_loop (peer_round z write_ok event_ok) (p\<lparr>tp_buf := tp_buf p @ chunk\<rparr>)) id"

text \<open>A branch of the \<open>select!\<close>: a command of the test, or a read; \<open>None\<close> is a closed channel, the end of the input or an error.\<close>

datatype peer_event = PeerCmd "byte list option" bool | PeerRead "byte list option" bool bool

definition peer_select ::
  "('zc, 'zd) flate2 \<Rightarrow> peer_event \<Rightarrow> ('zc, 'zd) test_peer \<Rightarrow> (('zc, 'zd) test_peer \<times> bool) option" where
  "peer_select z ev p =
     (case ev of
        PeerCmd None write_ok \<Rightarrow> Some (p, True)
      | PeerCmd (Some bytes) write_ok \<Rightarrow>
          Some (if write_ok then (p\<lparr>tp_written := tp_written p @ [bytes]\<rparr>, False) else (p, True))
      | PeerRead None write_ok event_ok \<Rightarrow> Some (p, True)
      | PeerRead (Some chunk) write_ok event_ok \<Rightarrow> peer_feed z write_ok event_ok chunk p)"

primrec run_test_peer ::
  "('zc, 'zd) flate2 \<Rightarrow> peer_event list \<Rightarrow> ('zc, 'zd) test_peer \<Rightarrow> (('zc, 'zd) test_peer \<times> bool) option" where
  "run_test_peer z [] p = Some (p, False)"
| "run_test_peer z (ev # evs) p =
     (case peer_select z ev p of
        None \<Rightarrow> None
      | Some (p1, True) \<Rightarrow> Some (p1, True)
      | Some (p1, False) \<Rightarrow> run_test_peer z evs p1)"

text \<open>\<open>TestPeer::send_data\<close>.\<close>

definition peer_send_data :: "u32 \<Rightarrow> byte list \<Rightarrow> bool \<Rightarrow> peer_event" where
  "peer_send_data stream_id payload fin = PeerCmd (Some (encode_data stream_id payload fin)) True"

section \<open>What the test peer reports\<close>

definition reported_frames :: "frame list \<Rightarrow> frame list" where
  "reported_frames fs = filter (\<lambda>f. \<not> is_ping f \<and> \<not> peer_skips f) fs"

definition ping_answers :: "frame list \<Rightarrow> byte list list" where
  "ping_answers fs = concat (map (\<lambda>f. case f of Ping pid \<Rightarrow> [encode_ping pid] | _ \<Rightarrow> []) fs)"

lemma decode_frame_diverges:
  assumes "decode_frame z c buf = None"
  shows "decode_frame z c (buf @ bs) = None"
proof -
  have len: "\<not> length buf < 8" "\<not> length buf < 8 + hdr_payload_len buf"
    using assms by (auto simp: decode_frame_def Let_def split: if_splits)
  then have "(buf @ bs) ! i = buf ! i" if "i < 8" for i using that by (simp add: nth_append)
  then show ?thesis using assms len by (simp add: decode_frame_def Let_def split: if_splits)
qed

text \<open>After a part of the bytes: the peer has handled the frames that are complete and keeps the rest.\<close>

definition peer_after :: "('zc, 'zd) spdy_codec \<Rightarrow> byte list \<Rightarrow> frame list \<Rightarrow> ('zc, 'zd) test_peer \<Rightarrow> ('zc, 'zd) test_peer" where
  "peer_after c buf fs p = p\<lparr>tp_codec := c, tp_buf := buf,
     tp_events := tp_events p @ reported_frames fs, tp_written := tp_written p @ ping_answers fs\<rparr>"

lemma peer_after_sel [simp]: "tp_codec (peer_after c buf fs p) = c" "tp_buf (peer_after c buf fs p) = buf"
  by (simp_all add: peer_after_def)

lemma peer_after_after [simp]: "peer_after c' buf' gs (peer_after c buf fs p) = peer_after c' buf' (fs @ gs) p"
  by (simp add: peer_after_def reported_frames_def ping_answers_def)

lemma peer_after_none: "peer_after (tp_codec p) (tp_buf p) [] p = p"
  by (simp add: peer_after_def reported_frames_def ping_answers_def)

lemma peer_after_buf [simp]: "peer_after c buf fs (p\<lparr>tp_buf := b\<rparr>) = peer_after c buf fs p"
  by (simp add: peer_after_def)

lemma peer_round_frame:
  assumes "decode_frame z (tp_codec p) (tp_buf p) = Some (c, buf, Ok (Some f))"
  shows "peer_round z True True p = Inr (peer_after c buf [f] p)"
  using assms by (cases f) (simp_all add: peer_round_def peer_after_def reported_frames_def ping_answers_def peer_skips_def)

lemma peer_loop_prefix:
  assumes "decodes_to z (tp_codec p) (tp_buf p @ bs) fs d"
  shows "\<exists>fs0 rest c buf. fs = fs0 @ rest \<and> decodes_to z c (buf @ bs) rest d \<and> decode_frame z c buf = Some (c, buf, Ok None) \<and>
    run_loop (peer_round z True True) p = Some (Some (peer_after c buf fs0 p, False))"
  using assms
proof (induction fs arbitrary: p)
  case Nil
  then have "tp_buf p = []" "bs = []" "tp_codec p = d" by (auto elim: decodes_to.cases)
  then have "peer_round z True True p = Inl (Some (peer_after d [] [] p, False))"
    using peer_after_none [of p] by (simp add: peer_round_def decode_frame_def)
  then show ?case using \<open>bs = []\<close> decodes_to.nil [of z d]
    by (intro exI [of _ "[]"] exI [of _ d]) (auto simp: decode_frame_def)
next
  case (Cons f fs)
  from Cons.prems obtain c rest where dec: "decode_frame z (tp_codec p) (tp_buf p @ bs) = Some (c, rest, Ok (Some f))"
    and next_dec: "decodes_to z c rest fs d" by (rule decodes_to_ConsE)
  obtain c1 buf r where d1: "decode_frame z (tp_codec p) (tp_buf p) = Some (c1, buf, r)"
    using dec decode_frame_diverges [of z "tp_codec p" "tp_buf p" bs] by (cases "decode_frame z (tp_codec p) (tp_buf p)") auto
  show ?case
  proof (cases "r = Ok None")
    case True
    then have "peer_round z True True p = Inl (Some (peer_after (tp_codec p) (tp_buf p) [] p, False))"
      using d1 decode_frame_None [of z "tp_codec p" "tp_buf p"] by (auto simp: peer_round_def peer_after_none)
    moreover have "decode_frame z (tp_codec p) (tp_buf p) = Some (tp_codec p, tp_buf p, Ok None)"
      using d1 True decode_frame_None [of z "tp_codec p" "tp_buf p"] by auto
    ultimately show ?thesis using Cons.prems
      by (intro exI [of _ "[]"] exI [of _ "f # fs"] exI [of _ "tp_codec p"] exI [of _ "tp_buf p"]) simp
  next
    case False
    then have "c1 = c" "rest = buf @ bs" "r = Ok (Some f)" using decode_frame_append [OF d1 False, of bs] dec by simp_all
    moreover from this obtain fs1 rest' c' buf' where "fs = fs1 @ rest'" "decodes_to z c' (buf' @ bs) rest' d"
      "decode_frame z c' buf' = Some (c', buf', Ok None)"
      "run_loop (peer_round z True True) (peer_after c buf [f] p) = Some (Some (peer_after c' buf' ([f] @ fs1) p, False))"
      using Cons.IH [of "peer_after c buf [f] p"] next_dec by auto
    ultimately show ?thesis
      using run_loop_continue [of "peer_round z True True" p, OF peer_round_frame] d1
      by (intro exI [of _ "f # fs1"] exI [of _ rest'] exI [of _ c'] exI [of _ buf']) simp
  qed
qed

text \<open>
  However the bytes are cut into reads: the peer reports the frames, less the PINGs and those it skips, and it answers
  each PING.
\<close>

lemma peer_chunks:
  assumes "decodes_to z (tp_codec p) (tp_buf p @ concat chunks) fs d" "chunks = [] \<longrightarrow> tp_buf p = []"
  shows "run_test_peer z (map (\<lambda>c. PeerRead (Some c) True True) chunks) p = Some (peer_after d [] fs p, False)"
  using assms
proof (induction chunks arbitrary: p fs)
  case Nil
  then have "decodes_to z (tp_codec p) [] fs d" by simp
  then have "fs = []" "d = tp_codec p" by (cases rule: decodes_to.cases; simp add: decode_frame_def)+
  then show ?case using peer_after_none [of p] Nil by simp
next
  case (Cons c cs)
  let ?p = "p\<lparr>tp_buf := tp_buf p @ c\<rparr>"
  obtain fs1 rest c' buf where r: "fs = fs1 @ rest" "decodes_to z c' (buf @ concat cs) rest d"
    "decode_frame z c' buf = Some (c', buf, Ok None)"
    "run_loop (peer_round z True True) ?p = Some (Some (peer_after c' buf fs1 ?p, False))"
    using peer_loop_prefix [of z ?p "concat cs" fs d] Cons.prems(1) by auto
  then have "peer_feed z True True c p = Some (peer_after c' buf fs1 p, False)" by (simp add: peer_feed_def)
  moreover have "cs = [] \<longrightarrow> buf = []"
    using r(2,3) by (auto elim: decodes_to.cases)
  ultimately show ?case using Cons.IH [of "peer_after c' buf fs1 p" rest] r(1,2) by (simp add: peer_select_def)
qed

text \<open>
  So a test peer in step with the writer sees the commands of a batch: whatever the reads, it reports the frames of the
  commands.  This is what the tests of \<open>Conformance_Stream\<close> look at.
\<close>

lemma test_peer_sees_batch:
  assumes "zlib_transfers z R" "codec_sync z R (wr_codec st) (tp_codec p)" "mfs \<le> unat (codec_max_frame_size (tp_codec p))"
    and "list_all (wf_command mfs) cmds" "process_batch z io cmds st = Some (st', False)"
    and "wire_bytes (wire st') = wire_bytes (wire st) @ concat chunks" "tp_buf p = []"
  shows "\<exists>p'. run_test_peer z (map (\<lambda>c. PeerRead (Some c) True True) chunks) p = Some (p', False) \<and>
    tp_events p' = tp_events p @ reported_frames (concat (map command_frames cmds)) \<and> tp_buf p' = [] \<and>
    codec_sync z R (wr_codec st') (tp_codec p')"
proof -
  obtain bytes d where b: "wire_bytes (wire st') = wire_bytes (wire st) @ bytes"
    "decodes_to z (tp_codec p) bytes (concat (map command_frames cmds)) d" "codec_sync z R (wr_codec st') d"
    using batch_decodes [OF assms(1-5)] by blast
  then have "decodes_to z (tp_codec p) (tp_buf p @ concat chunks) (concat (map command_frames cmds)) d"
    using assms(6,7) by simp
  from peer_chunks [OF this] assms(7) show ?thesis using b(3) by (auto simp: peer_after_def)
qed

text \<open>Nothing that a stream hands to the writer is skipped or answered.\<close>

definition stream_command :: "mux_command \<Rightarrow> bool" where
  "stream_command cmd =
     (case cmd of EncodePing pid \<Rightarrow> False | EncodeWindowUpdate sid delta \<Rightarrow> False | SendWsPong payload \<Rightarrow> False | _ \<Rightarrow> True)"

lemma stream_command_reported: "stream_command cmd \<Longrightarrow> reported_frames (command_frames cmd) = command_frames cmd"
  by (cases cmd) (simp_all add: stream_command_def command_frames_def reported_frames_def peer_skips_def raw_frame_def)

lemma reported_frames_append [simp]: "reported_frames (fs @ gs) = reported_frames fs @ reported_frames gs"
  by (simp add: reported_frames_def)

lemma stream_commands_reported:
  "list_all stream_command cmds \<Longrightarrow> reported_frames (concat (map command_frames cmds)) = concat (map command_frames cmds)"
  by (induction cmds) (simp_all add: stream_command_reported, simp add: reported_frames_def)

section \<open>The loopback\<close>

text \<open>
  One frame as the loopback reads it: the length from the last three bytes of the header, the control bit and the type.
  It sends back PINGs and data, byte for byte.
\<close>

definition loopback_length :: "byte list \<Rightarrow> nat" where
  "loopback_length header = unat (u32_from_be 0 (header ! 5) (header ! 6) (header ! 7))"

definition loopback_echo :: "byte list \<Rightarrow> byte list \<Rightarrow> byte list" where
  "loopback_echo header payload =
     (let control = header ! 0 AND 0x80 \<noteq> 0;
          ping = control \<and> u16_from_be (header ! 2) (header ! 3) = 6
      in if ping \<or> (\<not> control \<and> payload \<noteq> []) then header @ payload else [])"

text \<open>
  The loop over what has arrived, while the writes to the socket succeed: the bytes sent back, and those of an incomplete
  frame, which \<open>read_exact\<close> still waits for.
\<close>

function loopback_serve :: "byte list \<Rightarrow> byte list \<times> byte list" where
  "loopback_serve bs =
     (if length bs < 8 then ([], bs)
      else let n = loopback_length (take 8 bs) in
      if length bs < 8 + n then ([], bs)
      else let (out, rest) = loopback_serve (drop (8 + n) bs)
           in (loopback_echo (take 8 bs) (take n (drop 8 bs)) @ out, rest))"
  by pat_completeness auto
termination by (relation "measure length") auto

declare loopback_serve.simps [simp del]

definition echoed :: "frame \<Rightarrow> bool" where
  "echoed f = (case f of Ping pid \<Rightarrow> True | Data sid payload fin \<Rightarrow> payload \<noteq> [] | _ \<Rightarrow> False)"

lemma u32_low_bytes: "u32_from_be 0 b c d = u32_from_be a b c d AND 0x00FFFFFF"
proof (rule bit_word_eqI)
  fix n assume "n < LENGTH(32)"
  then consider "n < 8" | "8 \<le> n" "n < 16" | "16 \<le> n" "n < 24" | "24 \<le> n" "n < 32" by force
  then show "bit (u32_from_be 0 b c d) n = bit (u32_from_be a b c d AND 0x00FFFFFF) n"
    using bit_24_mask [of n] by cases (auto simp: u32_from_be_def bit_simps dest: bit_imp_le_length)
qed

lemma control_bit: "(a AND 0x80 \<noteq> 0) = (u16_from_be a b AND 0x8000 \<noteq> 0)"
proof -
  have "(a AND 2 ^ 7 \<noteq> 0) = bit a 7" "(u16_from_be a b AND 2 ^ 15 \<noteq> 0) = bit (u16_from_be a b) 15"
    by (simp_all only: and_exp_eq_0_iff_not_bit not_not)
  moreover have "bit (u16_from_be a b) 15 = bit a 7" by (auto simp: u16_from_be_def bit_simps dest: bit_imp_le_length)
  ultimately show ?thesis by simp
qed

text \<open>The loopback reads the header as the codec does.\<close>

lemma loopback_header:
  assumes "8 \<le> length bs"
  shows "loopback_length (take 8 bs) = hdr_payload_len bs"
    and "(take 8 bs ! 0 AND 0x80 \<noteq> 0) = hdr_is_control bs"
  using assms u32_low_bytes [of "bs ! 5" "bs ! 6" "bs ! 7" "bs ! 4"] control_bit [of "bs ! 0" "bs ! 1"]
  by (simp_all add: loopback_length_def hdr_payload_len_def hdr_is_control_def u32_at_def)

lemma map_sum_Ok_iff: "map_sum id g r = Ok y \<longleftrightarrow> (\<exists>x. r = Ok x \<and> y = g x)"
  by (cases r) auto

lemma control_frame_echoed:
  assumes "decode_control_frame z c t fl payload = Some (c', Ok f)"
  shows "echoed f \<longleftrightarrow> t = PING_TYPE" and "echoed f \<Longrightarrow> decode_control_frame z e t fl payload = Some (e, Ok f)"
  using assms
  by (auto simp: decode_control_frame_def echoed_def decode_settings_def map_sum_Ok_iff Let_def
      SYN_STREAM_TYPE_def SYN_REPLY_TYPE_def RST_STREAM_TYPE_def PING_TYPE_def GOAWAY_TYPE_def SETTINGS_TYPE_def WINDOW_UPDATE_TYPE_def
      split: if_splits prod.splits sum.splits)

lemma loopback_frame:
  assumes "decode_frame z c bs = Some (c', rest, Ok (Some f))"
  shows "loopback_serve bs = (let (out, r) = loopback_serve rest in
    ((if echoed f then take (8 + hdr_payload_len bs) bs else []) @ out, r))"
proof -
  let ?n = "hdr_payload_len bs"
  have len: "8 + ?n \<le> length bs" "rest = drop (8 + ?n) bs" using decode_frame_Some [OF assms] by simp_all
  note hdr = loopback_header [of bs]
  have "loopback_echo (take 8 bs) (take ?n (drop 8 bs)) = (if echoed f then take (8 + ?n) bs else [])"
  proof (cases "hdr_is_control bs")
    case True
    then obtain c' where "decode_control_frame z c (u16_from_be (bs ! 2) (bs ! 3)) (hdr_flags bs) (take ?n (drop 8 bs)) = Some (c', Ok f)"
      using assms len by (auto simp: decode_frame_def map_sum_Ok_iff Let_def split: if_splits)
    from control_frame_echoed(1) [OF this] show ?thesis using True hdr len by (simp add: loopback_echo_def take_add PING_TYPE_def)
  next
    case False
    then have "f = Data (hdr_stream_id bs) (take ?n (drop 8 bs)) (hdr_flags bs AND FLAG_FIN \<noteq> 0)"
      using assms len by (auto simp: decode_frame_def Let_def split: if_splits)
    then show ?thesis using False hdr len by (simp add: loopback_echo_def take_add echoed_def)
  qed
  then show ?thesis using hdr len by (simp add: loopback_serve.simps [of bs] Let_def split: prod.splits)
qed

text \<open>What comes back is a frame again, for a receiver that takes its size.\<close>

lemma echoed_decodes:
  assumes "decode_frame z c bs = Some (c', rest, Ok (Some f))" "echoed f"
    and "\<And>sid payload fin. f = Data sid payload fin \<Longrightarrow> length payload \<le> unat (codec_max_frame_size e)"
  shows "decode_frame z e (take (8 + hdr_payload_len bs) bs) = Some (e, [], Ok (Some f))"
proof -
  let ?n = "hdr_payload_len bs"
  let ?b = "take (8 + ?n) bs"
  have len: "8 + ?n \<le> length bs" "?n \<le> frame_limit c bs" using decode_frame_Some [OF assms(1)] by simp_all
  then have b: "length ?b = 8 + ?n" "take ?n (drop 8 ?b) = take ?n (drop 8 bs)" by (simp_all add: drop_take)
  have hdr: "hdr_payload_len ?b = ?n" "hdr_is_control ?b = hdr_is_control bs" "hdr_flags ?b = hdr_flags bs"
    "hdr_stream_id ?b = hdr_stream_id bs"
    by (simp_all add: hdr_payload_len_def hdr_is_control_def hdr_flags_def hdr_stream_id_def u32_at_def)
  show ?thesis
  proof (cases "hdr_is_control bs")
    case True
    then obtain c1 where d: "decode_control_frame z c (u16_from_be (bs ! 2) (bs ! 3)) (hdr_flags bs) (take ?n (drop 8 bs)) = Some (c1, Ok f)"
      using assms(1) len by (auto simp: decode_frame_def map_sum_Ok_iff Let_def split: if_splits)
    show ?thesis
      using control_frame_echoed(2) [OF d assms(2)] True len b by (simp add: decode_frame_def hdr frame_limit_def)
  next
    case False
    then have f: "f = Data (hdr_stream_id bs) (take ?n (drop 8 bs)) (hdr_flags bs AND FLAG_FIN \<noteq> 0)"
      using assms(1) len by (auto simp: decode_frame_def Let_def split: if_splits)
    then have "?n \<le> unat (codec_max_frame_size e)" using assms(3) len by simp
    then show ?thesis using False b f by (simp add: decode_frame_def hdr frame_limit_def)
  qed
qed

text \<open>
  The loopback sends back exactly the PINGs and the data of what it reads: the client decodes them, in order, and its
  zlib stream is not touched.
\<close>

lemma loopback_returns:
  assumes "decodes_to z d bytes fs d'"
    and "list_all (\<lambda>f. case f of Data sid payload fin \<Rightarrow> length payload \<le> unat (codec_max_frame_size e) | _ \<Rightarrow> True) fs"
  shows "\<exists>out. loopback_serve bytes = (out, []) \<and> decodes_to z e out (filter echoed fs) e"
  using assms
proof (induction rule: decodes_to.induct)
  case (nil d)
  then show ?case by (auto simp: loopback_serve.simps intro: decodes_to.nil)
next
  case (frame d bytes d1 rest f fs d')
  then obtain out where out: "loopback_serve rest = (out, [])" "decodes_to z e out (filter echoed fs) e" by auto
  have "decodes_to z e (take (8 + hdr_payload_len bytes) bytes) [f] e" if "echoed f"
    using echoed_decodes [OF frame.hyps(1) that, of e] frame.prems by (intro decodes_one) (auto split: frame.splits)
  then show ?case using loopback_frame [OF frame.hyps(1)] out decodes_to_append by fastforce
qed

section \<open>The echo\<close>

text \<open>The echo of \<open>fake_session\<close> writes back what it reads, until a read or a write fails.\<close>

primrec echo_peer :: "(byte list \<times> bool) list \<Rightarrow> byte list" where
  "echo_peer [] = []"
| "echo_peer (r # rs) = (case r of (chunk, write_ok) \<Rightarrow> if chunk = [] \<or> \<not> write_ok then [] else chunk @ echo_peer rs)"

lemma echo_peer_all: "[] \<notin> set chunks \<Longrightarrow> echo_peer (map (\<lambda>c. (c, True)) chunks) = concat chunks"
  by (induction chunks) auto

text \<open>The peer of the tests of \<^verbatim>\<open>crates/spdy-mux/src/session.rs\<close> sends one PING and then only reads.\<close>

definition healthy_peer_sends :: "byte list" where
  "healthy_peer_sends = encode_ping 1"

lemma healthy_peer_pings: "decodes_to z e healthy_peer_sends [Ping 1] e"
  unfolding healthy_peer_sends_def by (rule decodes_one) (rule decode_encode_ping)

text \<open>
  Either peer completes the handshake: the first PING of the client comes back, which is what \<open>spawn\<close> waits for (C21).
\<close>

lemma handshake_comes_back:
  assumes "writer_start z cfg io now = (st, True)"
  shows "[] \<notin> set chunks \<Longrightarrow> concat chunks = wire_bytes (wire st) \<Longrightarrow>
      decodes_to z e (echo_peer (map (\<lambda>c. (c, True)) chunks))
        [Ping 1, Settings (Some (wc_initial_window_size cfg)) (Some (wc_max_concurrent_streams cfg)) None] e"
    and "\<exists>out. loopback_serve (wire_bytes (wire st)) = (out, []) \<and> decodes_to z e out [Ping 1] e"
proof -
  have d: "decodes_to z e (wire_bytes (wire st))
      [Ping 1, Settings (Some (wc_initial_window_size cfg)) (Some (wc_max_concurrent_streams cfg)) None] e"
    using writer_start_wire [OF assms] handshake_bytes [of z e cfg] by simp
  then show "[] \<notin> set chunks \<Longrightarrow> concat chunks = wire_bytes (wire st) \<Longrightarrow>
      decodes_to z e (echo_peer (map (\<lambda>c. (c, True)) chunks))
        [Ping 1, Settings (Some (wc_initial_window_size cfg)) (Some (wc_max_concurrent_streams cfg)) None] e"
    by (simp add: echo_peer_all)
  show "\<exists>out. loopback_serve (wire_bytes (wire st)) = (out, []) \<and> decodes_to z e out [Ping 1] e"
    using loopback_returns [OF d, of e] by (simp add: echoed_def)
qed

end
