(* ===== verification/Conformance_Stream.thy ===== *)
theory Conformance_Stream
  imports Raw_Frames Stream_Laws Kube_Session_Laws Test_Peers
begin

text \<open>
  The unit tests of streams (\<^verbatim>\<open>crates/spdy-mux/src/stream.rs\<close>, module \<open>tests\<close>), run on the definitions.  A test drives a
  stream of a fresh connection by polls, in the order in which \<open>join!\<close> makes them, and the peer looks at the
  frames that arrive.  The frames are those of the commands handed to the writer (C18, C28), and what the peer
  sends back is what the channel of the stream delivers (C6).  Every channel has room.
\<close>

section \<open>The test bench\<close>

definition test_config :: mux_config where
  "test_config = mux_config_default\<lparr>cfg_ping_timeout := from_secs 5, cfg_write_timeout := from_secs 5\<rparr>"

definition free_channels :: realize_env where
  "free_channels = \<lparr>env_reg_error = SendOk, env_reg_data = SendOk, env_cmd = SendOk, env_ctrl_permit_error = True,
     env_ctrl_permit_data = True, env_close_permit_error = True, env_close_permit_data = True\<rparr>"

definition spawn_test_peer :: "mux_config \<Rightarrow> mux_handle" where
  "spawn_test_peer config = spawn_handle config (\<lambda>_. sw_new 0)"

text \<open>\<open>None\<close> is a failed \<open>expect\<close>.\<close>

definition reserve_stream :: "mux_handle \<Rightarrow> (stream \<times> mux_handle) option" where
  "reserve_stream mux =
     (case open_stream_pair [] [] mux of (h, Inr parts) \<Rightarrow> Some (new_unopened parts 0 1, h) | (h, Inl e) \<Rightarrow> None)"

definition peer_sees :: "handle_effect list \<Rightarrow> frame list" where
  "peer_sees effs =
     concat (map (\<lambda>e. case e of HCmd c \<Rightarrow> command_frames c | HControl c \<Rightarrow> command_frames c | _ \<Rightarrow> []) effs)"

text \<open>
  That these are the frames the peer reports: once the writer has put the commands on the wire, the test peer
  reports them, however it reads the bytes.
\<close>

definition handed_over :: "handle_effect list \<Rightarrow> mux_command list" where
  "handed_over effs = concat (map (\<lambda>e. case e of HCmd c \<Rightarrow> [c] | HControl c \<Rightarrow> [c] | _ \<Rightarrow> []) effs)"

lemma peer_sees_handed_over: "peer_sees effs = concat (map command_frames (handed_over effs))"
  by (induction effs) (auto simp: peer_sees_def handed_over_def split: handle_effect.splits)

lemma test_peer_sees:
  assumes "zlib_transfers z R" "codec_sync z R (wr_codec st) (tp_codec p)" "mfs \<le> unat (codec_max_frame_size (tp_codec p))"
    and "list_all (wf_command mfs) (handed_over effs)" "list_all stream_command (handed_over effs)"
    and "process_batch z io (handed_over effs) st = Some (st', False)"
    and "wire_bytes (wire st') = wire_bytes (wire st) @ concat chunks" "tp_buf p = []"
  shows "\<exists>p'. run_test_peer z (map (\<lambda>c. PeerRead (Some c) True True) chunks) p = Some (p', False) \<and>
    tp_events p' = tp_events p @ peer_sees effs"
  using test_peer_sees_batch [OF assms(1-4,6-8)] stream_commands_reported [OF assms(5)]
  by (auto simp: peer_sees_handed_over)

datatype test_poll = TRead recv_result nat | TFill recv_result | TConsume nat | TWrite "byte list" | TShutdown
  | TErrorRead recv_result nat

datatype test_result = TBytes "(io_error, byte list) result poll" | TCount "(io_error, nat) result poll"
  | TUnit "(io_error, unit) result poll" | TNothing

text \<open>One poll on a whole stream; \<open>fill_buf\<close> finds at most one message.\<close>

definition unsplit_poll :: "test_poll \<Rightarrow> stream \<Rightarrow> mux_handle \<Rightarrow> (stream \<times> mux_handle \<times> frame list \<times> test_result) option" where
  "unsplit_poll p s h =
     (case p of
        TRead recv cap \<Rightarrow>
          (let (s', h', effs, r) = stream_poll_read (free_channels, h) recv cap s h in Some (s', h', peer_sees effs, TBytes r))
      | TFill recv \<Rightarrow>
          map_option (\<lambda>(s', h', effs, r). (s', h', peer_sees effs, TBytes r))
            (stream_poll_fill_buf (free_channels, h) (\<lambda>k. if k = 0 then recv else RecvPending) s h)
      | TConsume n \<Rightarrow> Some (stream_consume n s, h, [], TNothing)
      | TWrite buf \<Rightarrow>
          (let (s', h', effs, r) = stream_poll_write (free_channels, h) (\<lambda>k w. w) ReserveOk True 0 buf s h
           in Some (s', h', peer_sees effs, TCount r))
      | TShutdown \<Rightarrow>
          (let (s', h', effs, r) = stream_poll_shutdown (free_channels, h) ReserveOk True s h in Some (s', h', peer_sees effs, TUnit r))
      | TErrorRead recv cap \<Rightarrow> None)"

text \<open>One poll on a split stream.\<close>

definition split_poll ::
  "test_poll \<Rightarrow> open_phase \<times> data_stream \<times> error_stream \<Rightarrow> mux_handle
    \<Rightarrow> ((open_phase \<times> data_stream \<times> error_stream) \<times> mux_handle \<times> frame list \<times> test_result) option" where
  "split_poll p s h =
     (let (ph, d, e) = s in
      case p of
        TRead recv cap \<Rightarrow>
          (let (ph', d', h', effs, r) = data_poll_read (free_channels, h) recv cap ph d h
           in Some ((ph', d', e), h', peer_sees effs, TBytes r))
      | TFill recv \<Rightarrow>
          map_option (\<lambda>(ph', d', h', effs, r). ((ph', d', e), h', peer_sees effs, TBytes r))
            (data_poll_fill_buf (free_channels, h) (\<lambda>k. if k = 0 then recv else RecvPending) ph d h)
      | TConsume n \<Rightarrow> Some ((ph, data_consume n d, e), h, [], TNothing)
      | TWrite buf \<Rightarrow>
          (let (ph', d', h', effs, r) = data_poll_write (free_channels, h) (\<lambda>k w. w) ReserveOk True 0 buf ph d h
           in Some ((ph', d', e), h', peer_sees effs, TCount r))
      | TShutdown \<Rightarrow>
          (let (ph', d', h', effs, r) = data_poll_shutdown (free_channels, h) ReserveOk True ph d h
           in Some ((ph', d', e), h', peer_sees effs, TUnit r))
      | TErrorRead recv cap \<Rightarrow>
          (let (ph', e', h', effs, r) = error_poll_read (free_channels, h) recv cap ph e h
           in Some ((ph', d, e'), h', peer_sees effs, TBytes r)))"

text \<open>A sequence of polls: the end state, and per poll the frames and the result.\<close>

primrec run_polls ::
  "(test_poll \<Rightarrow> 's \<Rightarrow> mux_handle \<Rightarrow> ('s \<times> mux_handle \<times> frame list \<times> test_result) option) \<Rightarrow> test_poll list
    \<Rightarrow> 's \<Rightarrow> mux_handle \<Rightarrow> ('s \<times> mux_handle \<times> (frame list \<times> test_result) list) option" where
  "run_polls poll [] s h = Some (s, h, [])"
| "run_polls poll (p # ps) s h =
     (case poll p s h of
        None \<Rightarrow> None
      | Some (s', h', fs, r) \<Rightarrow> map_option (\<lambda>(s'', h'', out). (s'', h'', (fs, r) # out)) (run_polls poll ps s' h'))"

definition unsplit_test :: "mux_config \<Rightarrow> test_poll list \<Rightarrow> (frame list \<times> test_result) list option" where
  "unsplit_test config ps =
     (case reserve_stream (spawn_test_peer config) of
        None \<Rightarrow> None
      | Some (s, h) \<Rightarrow> map_option (snd \<circ> snd) (run_polls unsplit_poll ps s h))"

definition split_test :: "mux_config \<Rightarrow> test_poll list \<Rightarrow> (frame list \<times> test_result) list option" where
  "split_test config ps =
     (case reserve_stream (spawn_test_peer config) of
        None \<Rightarrow> None
      | Some (s, h) \<Rightarrow> map_option (snd \<circ> snd) (run_polls split_poll ps (stream_split s) h))"

text \<open>What the peer sees of an open: both SYN_STREAMs, and the half-close of the error stream.\<close>

abbreviation open_frames :: "frame list" where
  "open_frames \<equiv> [SynStream 1 [] False, SynStream 3 [] False, Data 1 [] True]"

abbreviation got :: "string \<Rightarrow> test_result" where
  "got s \<equiv> TBytes (Ready (Ok (str_bytes s)))"

section \<open>The tests\<close>

definition server_first_read_wakes_unsplit_stream_without_client_write :: bool where
  "server_first_read_wakes_unsplit_stream_without_client_write \<longleftrightarrow>
     unsplit_test test_config [TRead RecvPending 16, TRead (RecvData (str_bytes ''hello'')) 16]
       = Some [(open_frames, TBytes Pending), ([], got ''hello'')]"

definition server_first_fill_buf_wakes_unsplit_stream_without_client_write :: bool where
  "server_first_fill_buf_wakes_unsplit_stream_without_client_write \<longleftrightarrow>
     unsplit_test test_config [TFill RecvPending, TFill (RecvData (str_bytes ''greeting'')), TConsume 8]
       = Some [(open_frames, TBytes Pending), ([], got ''greeting''), ([], TNothing)]"

definition server_first_read_wakes_split_data_stream :: bool where
  "server_first_read_wakes_split_data_stream \<longleftrightarrow>
     split_test test_config [TRead RecvPending 16, TRead (RecvData (str_bytes ''pod-out'')) 16]
       = Some [(open_frames, TBytes Pending), ([], got ''pod-out'')]"

definition server_first_read_wakes_split_error_stream :: bool where
  "server_first_read_wakes_split_error_stream \<longleftrightarrow>
     split_test test_config [TErrorRead RecvPending 16, TErrorRead (RecvData (str_bytes ''pod not found'')) 16]
       = Some [(open_frames, TBytes Pending), ([], got ''pod not found'')]"

definition concurrent_read_and_write_open_the_stream_exactly_once :: bool where
  "concurrent_read_and_write_open_the_stream_exactly_once \<longleftrightarrow>
     split_test test_config
       [TErrorRead RecvPending 8, TWrite (str_bytes ''race-safe-payload''), TErrorRead (RecvData (str_bytes ''ack'')) 8]
       = Some [(open_frames, TBytes Pending), ([Data 3 (str_bytes ''race-safe-payload'') False], TCount (Ready (Ok 17))),
               ([], got ''ack'')]"

definition unused_unopened_stream_never_opens_and_releases_capacity :: bool where
  "unused_unopened_stream_never_opens_and_releases_capacity \<longleftrightarrow>
     (let mux = spawn_test_peer test_config in
      active_pairs mux = 0 \<and>
      (case reserve_stream mux of
         None \<Rightarrow> False
       | Some (s, h) \<Rightarrow> active_pairs h = 1 \<and> active_pairs (fst (drop_stream (s_phase s) h)) = 0 \<and>
           peer_sees (snd (drop_stream (s_phase s) h)) = []))"

definition dropped_stream_after_read_triggered_open_sends_rst :: bool where
  "dropped_stream_after_read_triggered_open_sends_rst \<longleftrightarrow>
     (case reserve_stream (spawn_test_peer test_config) of
        None \<Rightarrow> False
      | Some (s, h) \<Rightarrow>
          (case run_polls unsplit_poll [TRead RecvPending 4] s h of
             None \<Rightarrow> False
           | Some (s', h', out) \<Rightarrow> out = [(open_frames, TBytes Pending)] \<and>
               peer_sees (snd (drop_stream (s_phase s') h')) = [RstStream 3 RST_STATUS_CANCEL]))"

definition first_write_after_lazy_open_is_bounded_by_frame_size :: bool where
  "first_write_after_lazy_open_is_bounded_by_frame_size \<longleftrightarrow>
     unsplit_test (test_config\<lparr>cfg_max_frame_size := 16\<rparr>) [TWrite (str_bytes ''0123456789ABCDEFGHIJ'')]
       = Some [(open_frames @ [Data 3 (str_bytes ''01234567'') False], TCount (Ready (Ok 8)))]"

definition tokio_io_split_write_then_read_open_stream_exactly_once :: bool where
  "tokio_io_split_write_then_read_open_stream_exactly_once \<longleftrightarrow>
     unsplit_test test_config
       [TWrite (str_bytes ''via-tokio-split-write-first''), TRead RecvPending 8, TRead (RecvData (str_bytes ''greeting'')) 8]
       = Some [(open_frames @ [Data 3 (str_bytes ''via-tokio-split-write-first'') False], TCount (Ready (Ok 27))),
               ([], TBytes Pending), ([], got ''greeting'')]"

definition tokio_io_split_read_then_write_open_stream_exactly_once :: bool where
  "tokio_io_split_read_then_write_open_stream_exactly_once \<longleftrightarrow>
     unsplit_test test_config
       [TRead RecvPending 8, TWrite (str_bytes ''via-tokio-split-read-first''), TRead (RecvData (str_bytes ''greeting'')) 8]
       = Some [(open_frames, TBytes Pending), ([Data 3 (str_bytes ''via-tokio-split-read-first'') False], TCount (Ready (Ok 26))),
               ([], got ''greeting'')]"

definition write_then_read_open_split_stream_exactly_once :: bool where
  "write_then_read_open_split_stream_exactly_once \<longleftrightarrow>
     split_test test_config
       [TWrite (str_bytes ''write-branch-first''), TErrorRead RecvPending 8, TErrorRead (RecvData (str_bytes ''ack'')) 8]
       = Some [(open_frames @ [Data 3 (str_bytes ''write-branch-first'') False], TCount (Ready (Ok 18))),
               ([], TBytes Pending), ([], got ''ack'')]"

definition three_way_race_does_not_lose_a_wake :: bool where
  "three_way_race_does_not_lose_a_wake \<longleftrightarrow>
     split_test test_config
       [TWrite (str_bytes ''three-way-race''), TRead RecvPending 8, TErrorRead RecvPending 8,
        TRead (RecvData (str_bytes ''pod-out'')) 8, TErrorRead (RecvData (str_bytes ''pod-err'')) 8]
       = Some [(open_frames @ [Data 3 (str_bytes ''three-way-race'') False], TCount (Ready (Ok 14))),
               ([], TBytes Pending), ([], TBytes Pending), ([], got ''pod-out''), ([], got ''pod-err'')]"

definition zero_length_read_does_not_open_unsplit_stream :: bool where
  "zero_length_read_does_not_open_unsplit_stream \<longleftrightarrow>
     (case reserve_stream (spawn_test_peer test_config) of
        None \<Rightarrow> False
      | Some (s, h) \<Rightarrow>
          (case run_polls unsplit_poll [TRead RecvPending 0] s h of
             None \<Rightarrow> False | Some (s', h', out) \<Rightarrow> out = [([], got [])] \<and> active_pairs h' = 1))"

definition zero_length_read_does_not_open_split_data_stream :: bool where
  "zero_length_read_does_not_open_split_data_stream \<longleftrightarrow>
     (case reserve_stream (spawn_test_peer test_config) of
        None \<Rightarrow> False
      | Some (s, h) \<Rightarrow>
          (case run_polls split_poll [TRead RecvPending 0] (stream_split s) h of
             None \<Rightarrow> False | Some (s', h', out) \<Rightarrow> out = [([], got [])] \<and> active_pairs h' = 1))"

text \<open>\<open>read_to_end\<close> reads until nothing comes; the peer's FIN closes the channel.\<close>

definition shutdown_polls :: "byte list \<Rightarrow> byte list \<Rightarrow> test_poll list" where
  "shutdown_polls request reply =
     [TWrite request, TShutdown, TShutdown, TWrite (str_bytes ''not-sent''),
      TRead (RecvData reply) (length reply), TRead RecvClosed 32]"

definition shutdown_outcome :: "byte list \<Rightarrow> byte list \<Rightarrow> (frame list \<times> test_result) list" where
  "shutdown_outcome request reply =
     [(open_frames @ [Data 3 request False], TCount (Ready (Ok (length request)))),
      ([Data 3 [] True], TUnit (Ready (Ok ()))), ([], TUnit (Ready (Ok ()))), ([], TCount (Ready (Err BrokenPipe))),
      ([], TBytes (Ready (Ok reply))), ([], got [])]"

definition write_shutdown_preserves_unsplit_response_reads :: bool where
  "write_shutdown_preserves_unsplit_response_reads \<longleftrightarrow>
     (let request = concat (replicate 128 (str_bytes ''request-before-fin''));
          reply = concat (replicate 128 (str_bytes ''response-after-fin''))
      in unsplit_test test_config (shutdown_polls request reply) = Some (shutdown_outcome request reply))"

definition write_shutdown_preserves_split_response_reads :: bool where
  "write_shutdown_preserves_split_response_reads \<longleftrightarrow>
     (let request = concat (replicate 128 (str_bytes ''request-before-fin''));
          reply = concat (replicate 128 (str_bytes ''response-after-fin''))
      in split_test test_config (shutdown_polls request reply) = Some (shutdown_outcome request reply))"

definition empty_shutdown_polls :: "byte list \<Rightarrow> test_poll list" where
  "empty_shutdown_polls reply = [TShutdown, TShutdown, TRead (RecvData reply) (length reply), TRead RecvClosed 32]"

definition empty_shutdown_outcome :: "byte list \<Rightarrow> (frame list \<times> test_result) list" where
  "empty_shutdown_outcome reply =
     [(open_frames @ [Data 3 [] True], TUnit (Ready (Ok ()))), ([], TUnit (Ready (Ok ()))),
      ([], TBytes (Ready (Ok reply))), ([], got [])]"

definition empty_request_shutdown_realizes_unsplit_stream :: bool where
  "empty_request_shutdown_realizes_unsplit_stream \<longleftrightarrow>
     (let reply = concat (replicate 64 (str_bytes ''response-to-empty-request''))
      in unsplit_test test_config (empty_shutdown_polls reply) = Some (empty_shutdown_outcome reply))"

definition empty_request_shutdown_realizes_split_stream :: bool where
  "empty_request_shutdown_realizes_split_stream \<longleftrightarrow>
     (let reply = concat (replicate 64 (str_bytes ''response-to-empty-request''))
      in split_test test_config (empty_shutdown_polls reply) = Some (empty_shutdown_outcome reply))"

definition shutdown_before_realize_fails_once_mux_is_closed :: bool where
  "shutdown_before_realize_fails_once_mux_is_closed \<longleftrightarrow>
     (case reserve_stream (spawn_test_peer test_config) of
        None \<Rightarrow> False
      | Some (s, h) \<Rightarrow>
          map_option (snd \<circ> snd) (run_polls unsplit_poll [TShutdown] s (h\<lparr>h_closed := True\<rparr>))
            = Some [([], TUnit (Ready (Err BrokenPipe)))])"

section \<open>They pass\<close>

lemma str_bytes_simps [simp]:
  "str_bytes [] = []" "str_bytes s = [] \<longleftrightarrow> s = []" "take n (str_bytes s) = str_bytes (take n s)"
  by (simp_all add: str_bytes_def take_map)

text \<open>The handle with the pair reserved, and with the pair open; the frame size is \<open>m\<close>.\<close>

definition reserved :: "u32 \<Rightarrow> mux_handle" where
  "reserved m = (spawn_test_peer (test_config\<lparr>cfg_max_frame_size := m\<rparr>))\<lparr>active_pairs := 1\<rparr>"

definition realized :: "u32 \<Rightarrow> mux_handle" where
  "realized m = alloc_pair ((reserved m)\<lparr>open_seq := \<lparr>next_stream_id = 5\<rparr>\<rparr>)"

definition fresh_phase :: open_phase where
  "fresh_phase = Unopened \<lparr>un_error_headers = [], un_data_headers = [], pending_data_tx = Some 0, pending_error_tx = Some 1,
     release_guard = Some pair_release_guard_new\<rparr>"

definition open_pair :: "bool \<Rightarrow> opened" where
  "open_pair g = \<lparr>o_data_id = 3, o_error_id = 1, o_window = 1, graceful_shutdown = g\<rparr>"

lemma open_pair_simps [simp]:
  "o_data_id (open_pair g) = 3" "o_window (open_pair g) = 1" "graceful_shutdown (open_pair g) = g"
  "(open_pair g)\<lparr>graceful_shutdown := g'\<rparr> = open_pair g'" "o_error_id (open_pair g) = 1"
  by (simp_all add: open_pair_def)

lemma reserve_fresh:
  "reserve_stream (spawn_test_peer (test_config\<lparr>cfg_max_frame_size := m\<rparr>))
    = Some (\<lparr>s_phase = fresh_phase, s_read = read_new, s_max_frame_size = m\<rparr>, reserved m)"
  by (simp add: reserve_stream_def open_stream_pair_def spawn_test_peer_def spawn_handle_def reserve_pair_def reserve_verdict_def
      operating_limit_def hard_limit_def test_config_def mux_config_default_def new_unopened_def fresh_phase_def reserved_def)

lemma reserved_pairs [simp]: "active_pairs (reserved m) = 1" "active_pairs (spawn_test_peer config) = 0"
  by (simp_all add: reserved_def spawn_test_peer_def spawn_handle_def)

lemma test_config_frames: "test_config\<lparr>cfg_max_frame_size := 1048576\<rparr> = test_config"
  by (simp add: test_config_def mux_config_default_def)

lemmas reserve_default = reserve_fresh [of 1048576, unfolded test_config_frames]

lemma opens_once:
  "ensure_open (free_channels, reserved m) fresh_phase (reserved m)
    = (Opened (open_pair False), realized m,
       [HReg 1 (RegOpen 1 1 0 0), HReg 3 (RegOpen 3 0 1 1), HCmd (OpenStreamPair 1 3 [] [])], Ok ())"
  by (simp add: ensure_open_def fresh_phase_def ensure_realized_def realize_stream_pair_def realize_locked_def register_pair_def
      all_permits_def free_channels_def finish_open_def open_pair_def realized_def reserved_def spawn_test_peer_def spawn_handle_def
      MAX_STREAM_ID_def shard_unat Let_def)

lemma opened_stays: "ensure_open oe (Opened op) h = (Opened op, h, [], Ok ())"
  by (simp add: ensure_open_def)

lemma peer_sees_simps [simp]:
  "peer_sees [] = []" "peer_sees (HReg k r # es) = peer_sees es" "peer_sees (HCloseReg k r # es) = peer_sees es"
  "peer_sees (HCmd c # es) = command_frames c @ peer_sees es" "peer_sees (HControl c # es) = command_frames c @ peer_sees es"
  by (simp_all add: peer_sees_def)

lemma command_frames_simps [simp]:
  "command_frames (OpenStreamPair 1 3 [] []) = open_frames" "command_frames (SendData 3 p fin) = [Data 3 p fin]"
  "command_frames (CloseStream sid st) = [RstStream sid st]"
  "length p < 2 ^ 24 \<Longrightarrow> command_frames (SendRawFrame (raw_data_frame 3 p)) = [Data 3 p False]"
  using raw_data_frame_wf(2) [of p "length p" 3] by (simp_all add: command_frames_def)

lemma window_open [simp]: "h_windows (realized m) (Suc 0) = sw_new 1048576"
  by (simp add: realized_def reserved_def alloc_pair_def spawn_test_peer_def spawn_handle_def test_config_def mux_config_default_def)

text \<open>A write on the fresh window takes what fits in a frame.\<close>

lemma write_fresh:
  assumes "0 < n" "n = min (length buf) (max_payload_for m buf)" "length buf \<le> 1048576"
  shows "\<exists>w. poll_write_via_sender (\<lambda>k w. w) ReserveOk True 3 m task buf (sw_new 1048576)
    = (w, [SendRawFrame (raw_data_frame 3 (take n buf))], Ready (Ok n))"
proof -
  have "write_size m buf (sw_new 1048576) = n"
    using assms by (simp add: write_size_def available_def sw_new_def)
  then show ?thesis
    using assms(1) by (simp add: poll_write_via_sender_def write_commit_def consume_def sw_new_def is_closed_def I64_MIN_def Let_def)
qed

lemma write_fits:
  assumes "buf \<noteq> []" "length buf \<le> 1048568"
  obtains w where "poll_write_via_sender (\<lambda>k w. w) ReserveOk True 3 1048576 0 buf (sw_new 1048576)
    = (w, [SendRawFrame (raw_data_frame 3 buf)], Ready (Ok (length buf)))"
  using write_fresh [of "length buf" buf 1048576 0] assms by (auto simp: max_payload_for_def Let_def)

lemmas bench_simps = unsplit_test_def split_test_def reserve_default reserve_fresh unsplit_poll_def split_poll_def stream_split_def
  ensure_shared_open_eq opens_once opened_stays

lemmas poll_defs = stream_poll_read_def stream_poll_write_def stream_poll_shutdown_def data_poll_read_def data_poll_write_def
  data_poll_shutdown_def error_poll_read_def poll_read_channel_def read_new_def poll_shutdown_opened_def Let_def

lemma stream_read_tests:
  server_first_read_wakes_unsplit_stream_without_client_write server_first_read_wakes_split_data_stream
  server_first_read_wakes_split_error_stream
  by (simp_all add: server_first_read_wakes_unsplit_stream_without_client_write_def server_first_read_wakes_split_data_stream_def
      server_first_read_wakes_split_error_stream_def bench_simps poll_defs)

lemma fill_pending: "poll_fill_buf_channel (\<lambda>k. if k = 0 then RecvPending else RecvPending) read_new = Some (read_new, Suc 0, Pending)"
  by (simp add: poll_fill_buf_channel_def run_loop.simps fill_buf_round_def read_new_def)

lemma fill_data:
  "bs \<noteq> [] \<Longrightarrow> poll_fill_buf_channel (\<lambda>k. if k = 0 then RecvData bs else RecvPending) read_new
    = Some (read_new\<lparr>read_buf := Some bs\<rparr>, Suc 0, Ready (Ok bs))"
  by (simp add: poll_fill_buf_channel_def run_loop.simps fill_buf_round_def read_new_def)

lemma stream_fill_test: server_first_fill_buf_wakes_unsplit_stream_without_client_write
  by (simp add: server_first_fill_buf_wakes_unsplit_stream_without_client_write_def bench_simps stream_poll_fill_buf_def
      fill_pending [simplified] fill_data)

lemma drop_fresh: "drop_stream fresh_phase h = (release_pair h, [])"
  by (simp add: drop_stream_def drop_release_guard_def pair_release_guard_new_def fresh_phase_def)

lemma stream_drop_tests:
  unused_unopened_stream_never_opens_and_releases_capacity zero_length_read_does_not_open_unsplit_stream
  zero_length_read_does_not_open_split_data_stream
  by (simp_all add: unused_unopened_stream_never_opens_and_releases_capacity_def zero_length_read_does_not_open_unsplit_stream_def
      zero_length_read_does_not_open_split_data_stream_def bench_simps poll_defs drop_fresh release_pair_def)

lemma stream_reset_test: dropped_stream_after_read_triggered_open_sends_rst
  by (simp add: dropped_stream_after_read_triggered_open_sends_rst_def bench_simps poll_defs drop_stream_def drop_guard_def
      close_reg_def RST_STATUS_CANCEL_def stream_RST_STATUS_CANCEL_def)

text \<open>The tests that write, each with the outcome of its write.\<close>

lemma stream_bounded_test: first_write_after_lazy_open_is_bounded_by_frame_size
proof -
  let ?buf = "str_bytes ''0123456789ABCDEFGHIJ''"
  have "8 = min (length ?buf) (max_payload_for 16 ?buf)" by (simp add: max_payload_for_def)
  from write_fresh [OF _ this] obtain w where w: "poll_write_via_sender (\<lambda>k w. w) ReserveOk True 3 16 0 ?buf (sw_new 1048576)
      = (w, [SendRawFrame (raw_data_frame 3 (take 8 ?buf))], Ready (Ok 8))" by auto
  have "take 8 ?buf = str_bytes ''01234567''" by simp
  note w [unfolded this]
  then show ?thesis
    unfolding first_write_after_lazy_open_is_bounded_by_frame_size_def unsplit_test_def reserve_fresh
    by (simp add: unsplit_poll_def stream_poll_write_def opens_once Let_def)
qed

lemma write_then:
  assumes "buf \<noteq> []" "length buf \<le> 1048568"
  shows "\<exists>h. unsplit_poll (TWrite buf) \<lparr>s_phase = fresh_phase, s_read = rd, s_max_frame_size = 1048576\<rparr> (reserved 1048576)
      = Some (\<lparr>s_phase = Opened (open_pair False), s_read = rd, s_max_frame_size = 1048576\<rparr>, h,
          open_frames @ [Data 3 buf False], TCount (Ready (Ok (length buf))))"
    and "\<exists>h. unsplit_poll (TWrite buf) \<lparr>s_phase = Opened (open_pair False), s_read = rd, s_max_frame_size = 1048576\<rparr> (realized 1048576)
      = Some (\<lparr>s_phase = Opened (open_pair False), s_read = rd, s_max_frame_size = 1048576\<rparr>, h,
          [Data 3 buf False], TCount (Ready (Ok (length buf))))"
    and "\<exists>h. split_poll (TWrite buf) (fresh_phase, \<lparr>ds_read = rd, ds_max_frame_size = 1048576\<rparr>, e) (reserved 1048576)
      = Some ((Opened (open_pair False), \<lparr>ds_read = rd, ds_max_frame_size = 1048576\<rparr>, e), h,
          open_frames @ [Data 3 buf False], TCount (Ready (Ok (length buf))))"
    and "\<exists>h. split_poll (TWrite buf) (Opened (open_pair False), \<lparr>ds_read = rd, ds_max_frame_size = 1048576\<rparr>, e) (realized 1048576)
      = Some ((Opened (open_pair False), \<lparr>ds_read = rd, ds_max_frame_size = 1048576\<rparr>, e), h,
          [Data 3 buf False], TCount (Ready (Ok (length buf))))"
  by (rule write_fits [OF assms], use assms in \<open>simp add: bench_simps poll_defs\<close>)+

text \<open>The other polls one by one, so that a poll that writes stays as it is.\<close>

lemmas other_polls = unsplit_poll_def [of "TRead recv cap" for recv cap, unfolded test_poll.case]
  unsplit_poll_def [of TShutdown, unfolded test_poll.case]
  split_poll_def [of "TRead recv cap" for recv cap, unfolded test_poll.case]
  split_poll_def [of TShutdown, unfolded test_poll.case]
  split_poll_def [of "TErrorRead recv cap" for recv cap, unfolded test_poll.case]

lemmas run_simps = unsplit_test_def split_test_def reserve_default stream_split_def ensure_shared_open_eq opens_once opened_stays
  other_polls poll_defs

lemma concurrent_test: concurrent_read_and_write_open_the_stream_exactly_once
  using write_then(4) [of "str_bytes ''race-safe-payload''" read_new "\<lparr>es_read = read_new\<rparr>"]
  by (auto simp: concurrent_read_and_write_open_the_stream_exactly_once_def run_simps)

lemma tokio_split_tests:
  tokio_io_split_write_then_read_open_stream_exactly_once tokio_io_split_read_then_write_open_stream_exactly_once
  using write_then(1) [of "str_bytes ''via-tokio-split-write-first''" read_new]
    write_then(2) [of "str_bytes ''via-tokio-split-read-first''" read_new]
  by (auto simp: tokio_io_split_write_then_read_open_stream_exactly_once_def
      tokio_io_split_read_then_write_open_stream_exactly_once_def run_simps)

lemma split_write_tests: write_then_read_open_split_stream_exactly_once three_way_race_does_not_lose_a_wake
  using write_then(3) [of "str_bytes ''write-branch-first''" read_new "\<lparr>es_read = read_new\<rparr>"]
    write_then(3) [of "str_bytes ''three-way-race''" read_new "\<lparr>es_read = read_new\<rparr>"]
  by (auto simp: write_then_read_open_split_stream_exactly_once_def three_way_race_does_not_lose_a_wake_def run_simps)

text \<open>After the half-close a write is refused and reads go on.\<close>

lemma write_refused:
  "buf \<noteq> [] \<Longrightarrow> unsplit_poll (TWrite buf) \<lparr>s_phase = Opened (open_pair True), s_read = rd, s_max_frame_size = m\<rparr> h
    = Some (\<lparr>s_phase = Opened (open_pair True), s_read = rd, s_max_frame_size = m\<rparr>, h, [], TCount (Ready (Err BrokenPipe)))"
  "buf \<noteq> [] \<Longrightarrow> split_poll (TWrite buf) (Opened (open_pair True), d, e) h
    = Some ((Opened (open_pair True), d, e), h, [], TCount (Ready (Err BrokenPipe)))"
  by (simp_all add: bench_simps poll_defs)

lemma shutdown_runs:
  assumes "request \<noteq> []" "length request \<le> 1048568" "reply \<noteq> []"
  shows "unsplit_test test_config (shutdown_polls request reply) = Some (shutdown_outcome request reply)"
    and "split_test test_config (shutdown_polls request reply) = Some (shutdown_outcome request reply)"
  using write_then(1) [OF assms(1,2), of read_new] write_then(3) [OF assms(1,2), of read_new "\<lparr>es_read = read_new\<rparr>"] assms(3)
  by (auto simp: shutdown_polls_def shutdown_outcome_def run_simps write_refused)

lemma empty_shutdown_runs:
  assumes "reply \<noteq> []"
  shows "unsplit_test test_config (empty_shutdown_polls reply) = Some (empty_shutdown_outcome reply)"
    and "split_test test_config (empty_shutdown_polls reply) = Some (empty_shutdown_outcome reply)"
  using assms by (simp_all add: empty_shutdown_polls_def empty_shutdown_outcome_def run_simps)

lemma length_repeat: "length (concat (replicate n xs)) = n * length xs"
  by (induction n) simp_all

lemma stream_shutdown_tests:
  write_shutdown_preserves_unsplit_response_reads write_shutdown_preserves_split_response_reads
  empty_request_shutdown_realizes_unsplit_stream empty_request_shutdown_realizes_split_stream
  by (simp_all add: write_shutdown_preserves_unsplit_response_reads_def write_shutdown_preserves_split_response_reads_def
      empty_request_shutdown_realizes_unsplit_stream_def empty_request_shutdown_realizes_split_stream_def
      shutdown_runs empty_shutdown_runs length_repeat Let_def)

lemma closed_mux_test: shutdown_before_realize_fails_once_mux_is_closed
  by (simp add: shutdown_before_realize_fails_once_mux_is_closed_def reserve_default other_polls stream_poll_shutdown_def
      ensure_open_def ensure_realized_def realize_stream_pair_def fresh_phase_def Let_def)

end
