(* ===== verification/Conformance_Mux.thy ===== *)
theory Conformance_Mux
  imports Session_Laws Transport Kube_Session
begin

text \<open>
  The unit tests of the dictionary, the transports and the session (\<^verbatim>\<open>dictionary.rs\<close>, \<^verbatim>\<open>transport.rs\<close> and \<^verbatim>\<open>session.rs\<close> of
  \<^verbatim>\<open>crates/spdy-mux/src\<close>), run on the definitions.
\<close>

definition dictionary_length :: bool where
  "dictionary_length \<longleftrightarrow> length SPDY_DICT = 1423"

lemma dictionary_test: dictionary_length
  by (simp add: dictionary_length_def length_SPDY_DICT)

section \<open>Transports\<close>

text \<open>The peer reads what was flushed.\<close>

definition flush_delivers_buffered_websocket_frame :: bool where
  "flush_delivers_buffered_websocket_frame \<longleftrightarrow>
     (let payload = str_bytes ''buffered frame'';
          (w1, r1) = fast_write_binary None payload fast_writer_new;
          (w2, r2) = fast_flush None w1
      in r1 = Ok () \<and> r2 = Ok () \<and> take (fw_flushed w2) (fw_frames w2) = [WsWrite OpBinary payload])"

definition flush_reports_buffered_transport_failure :: "string \<Rightarrow> bool" where
  "flush_reports_buffered_transport_failure reason \<longleftrightarrow>
     (let (w1, r1) = fast_write_binary None (str_bytes ''buffered frame'') fast_writer_new;
          (w2, r2) = fast_flush (Some reason) w1
      in r1 = Ok () \<and> r2 = Err (FastWebSocket reason) \<and> fw_flushed w2 = 0)"

lemma transport_tests: flush_delivers_buffered_websocket_frame "flush_reports_buffered_transport_failure reason"
  by (simp_all add: flush_delivers_buffered_websocket_frame_def flush_reports_buffered_transport_failure_def fast_write_defs
      fast_flush_def fast_writer_new_def)

section \<open>Sessions\<close>

text \<open>What \<open>MuxHandle::spawn\<close> returns for a peer that answers the first PING, and for one that is gone.\<close>

definition healthy_connection :: "(spdy_error, mux_handle) result" where
  "healthy_connection = spawn_result (spawn_handle mux_config_default (\<lambda>_. sw_new 0)) (PingAnswered (Ok ()))"

definition dead_connection :: "(spdy_error, mux_handle) result" where
  "dead_connection = spawn_result (spawn_handle mux_config_default (\<lambda>_. sw_new 0)) PingDropped"

text \<open>A number of opens, each of which must succeed; \<open>rtts\<close> are the times that they take.\<close>

primrec opens_succeed :: "nat list \<Rightarrow> session \<Rightarrow> bool" where
  "opens_succeed [] s \<longleftrightarrow> True"
| "opens_succeed (rtt # rtts) s \<longleftrightarrow>
     (case session_open_stream_pair rtt [] [] s of (s', Inr x) \<Rightarrow> opens_succeed rtts s' | (s', Inl e) \<Rightarrow> False)"

text \<open>The peer of the first connection goes away, and its tasks close the handle.\<close>

definition dead_peer_does_not_cancel_healthy_siblings :: "nat list \<Rightarrow> bool" where
  "dead_peer_does_not_cancel_healthy_siblings rtts \<longleftrightarrow>
     (case session_with_config [healthy_connection, healthy_connection] of
        Inl e \<Rightarrow> False
      | Inr s \<Rightarrow>
          length (pool s) = 2 \<and> \<not> h_closed (pool s ! 0) \<and> \<not> h_closed (pool s ! 1) \<and>
          (let s' = s\<lparr>pool := (pool s)[0 := (pool s ! 0)\<lparr>h_closed := True\<rparr>]\<rparr>
           in \<not> h_closed (pool s' ! 1) \<and> opens_succeed rtts s'))"

definition parent_cancellation_closes_all_children :: bool where
  "parent_cancellation_closes_all_children \<longleftrightarrow>
     (case session_with_config [healthy_connection, healthy_connection] of
        Inl e \<Rightarrow> False
      | Inr s \<Rightarrow> \<not> session_is_drained s \<and> session_is_drained (session_close s))"

definition partial_initialization_retains_healthy_connections :: "nat \<Rightarrow> bool" where
  "partial_initialization_retains_healthy_connections rtt \<longleftrightarrow>
     (case session_with_config [healthy_connection, dead_connection] of
        Inl e \<Rightarrow> False
      | Inr s \<Rightarrow> length (pool s) = 1 \<and> \<not> session_is_drained s \<and> \<not> h_closed (pool s ! 0) \<and> opens_succeed [rtt] s)"

lemmas session_tests_defs = session_with_config_def healthy_connection_def dead_connection_def spawn_result_def

lemma session_parent_test: parent_cancellation_closes_all_children
  by (simp add: parent_cancellation_closes_all_children_def session_tests_defs session_is_drained_def session_close_def spawn_handle_def)

lemma session_partial_test: "partial_initialization_retains_healthy_connections rtt"
  by (simp add: partial_initialization_retains_healthy_connections_def session_tests_defs session_is_drained_def
      session_open_stream_pair_def two_choices_def try_open_def open_stream_pair_def reserve_pair_def reserve_verdict_def
      operating_limit_def hard_limit_def spawn_handle_def mux_config_default_def Let_def)

text \<open>With one of two handles closed, the choice falls on the other one, whichever is picked first.\<close>

lemma open_past_closed:
  assumes "pool s = [h0, h]" "h_closed h0 \<or> has_room h0 \<and> \<not> goaway_received h0" "has_room h" "\<not> goaway_received h"
  shows "\<exists>s' i parts. session_open_stream_pair rtt eh dh s = (s', Ok (i, parts)) \<and> i < 2 \<and> has_room (pool s ! i) \<and>
    pool s' = (pool s)[i := takes_slot (pool s ! i)]"
proof -
  obtain a b s0 where p: "pick_two 2 s = ((a, b), s0)" by (metis surj_pair)
  then have ab: "{a, b} = {0, 1}" "pool s0 = [h0, h]" using pick_two_distinct [OF p] assms(1) by auto
  have opens: "\<exists>parts. open_stream_pair eh dh h' = (takes_slot h', Ok parts)" if "has_room h'" "\<not> goaway_received h'" for h'
    using that open_stream_pair_cases [of h' eh dh]
    by (cases "open_stream_pair eh dh h'") (fastforce simp: has_room_def split: sum.splits if_splits)
  have live: "\<not> h_closed h" "has_room h0 \<Longrightarrow> \<not> h_closed h0" using assms(3) by (simp_all add: has_room_def)
  have "preferred s0 (a, b) = [0, 1] \<or> preferred s0 (a, b) = [1, 0]"
    using ab(1) by (auto simp: preferred_def doubleton_eq_iff)
  then have "\<exists>s' x. try_each rtt eh dh (preferred s0 (a, b)) s0 = (s', Ok (Some x))"
    using ab(2) assms(2) live opens [OF assms(3,4)] opens [of h0] by (auto simp: try_open_def Let_def)
  then obtain s' i parts where o: "session_open_stream_pair rtt eh dh s = (s', Ok (i, parts))"
    using p assms(1) by (auto simp: session_open_stream_pair_def two_choices_def Let_def numeral_2_eq_2)
  then show ?thesis using session_open_cases [OF o, of 2] assms(1) by auto
qed

lemma opens_past_closed:
  assumes "pool s = [h0, h]" "h_closed h0" "\<not> goaway_received h"
    and "\<forall>k<length rtts. has_room ((takes_slot ^^ k) h)"
  shows "opens_succeed rtts s"
  using assms
proof (induction rtts arbitrary: s h)
  case (Cons rtt rtts)
  have "has_room h" using Cons.prems(4) by force
  from open_past_closed [OF Cons.prems(1) disjI1 [OF Cons.prems(2)] this Cons.prems(3), of rtt "[]" "[]"]
  obtain s' i parts where o: "session_open_stream_pair rtt [] [] s = (s', Ok (i, parts))" "i < 2" "has_room (pool s ! i)"
    "pool s' = (pool s)[i := takes_slot (pool s ! i)]" by blast
  then have "i = 1" using Cons.prems(1,2) by (auto simp: less_2_cases_iff has_room_def)
  then have s': "session_open_stream_pair rtt [] [] s = (s', Ok (i, parts))" "pool s' = [h0, takes_slot h]"
    using o Cons.prems(1) by simp_all
  have "\<forall>k<length rtts. has_room ((takes_slot ^^ k) (takes_slot h))"
    using Cons.prems(4) by (auto simp flip: funpow_swap1 simp: funpow_Suc_right dest: spec [of _ "Suc _"])
  moreover have "\<not> goaway_received (takes_slot h)" using Cons.prems(3) by (simp add: takes_slot_def)
  ultimately have "opens_succeed rtts s'" using Cons.IH [OF s'(2) Cons.prems(2)] by blast
  then show ?case using s' by simp
qed simp

text \<open>A fresh handle with a number of pairs in use.\<close>

definition in_use_handle :: "nat \<Rightarrow> mux_handle" where
  "in_use_handle k = (spawn_handle mux_config_default (\<lambda>_. sw_new 0))\<lparr>active_pairs := word_of_nat k\<rparr>"

lemma in_use_simps [simp]:
  "\<not> goaway_received (in_use_handle k)" "takes_slot (in_use_handle k) = in_use_handle (Suc k)" "\<not> h_closed (in_use_handle k)"
  by (simp_all add: in_use_handle_def takes_slot_def spawn_handle_def)

lemma in_use_room [simp]:
  assumes "k < 64"
  shows "has_room (in_use_handle k)"
proof -
  have "take_bit 64 k = k" "take_bit 32 k = k" using assms by (simp_all add: take_bit_nat_eq_self)
  then have "unat (ucast (word_of_nat k :: u64) :: u32) = k" by (simp add: unsigned_ucast_eq unsigned_of_nat)
  then have "(ucast (word_of_nat k :: u64) :: u32) < 64" "(ucast (word_of_nat k :: u64) :: u32) < 100"
    using assms by (simp_all add: word_less_nat_alt)
  then show ?thesis
    by (simp add: in_use_handle_def has_room_def operating_limit_def hard_limit_def spawn_handle_def mux_config_default_def)
qed

lemma session_sibling_test: "dead_peer_does_not_cancel_healthy_siblings [r1, r2, r3, r4]"
proof -
  let ?h = "spawn_handle mux_config_default (\<lambda>_. sw_new 0)"
  have h: "?h = in_use_handle 0" by (simp add: in_use_handle_def spawn_handle_def)
  have "(takes_slot ^^ k) (in_use_handle 0) = in_use_handle k" for k by (induction k) simp_all
  then have "opens_succeed [r1, r2, r3, r4] s" if "pool s = [?h\<lparr>h_closed := True\<rparr>, ?h]" for s
    using that h by (intro opens_past_closed) auto
  then show ?thesis
    by (simp add: dead_peer_does_not_cancel_healthy_siblings_def session_tests_defs del: opens_succeed.simps)
       (simp add: spawn_handle_def)
qed

end
