(* ===== verification/Conformance_Kube.thy ===== *)
theory Conformance_Kube
  imports Connect Forwarder Conformance_Mux
begin

text \<open>
  The unit tests of port forwarding, run on the definitions: the modules \<open>tests\<close> of \<^verbatim>\<open>pod_watch.rs\<close>, \<^verbatim>\<open>forwarder/pool.rs\<close>,
  \<^verbatim>\<open>forwarder/lifecycle.rs\<close>, \<^verbatim>\<open>forwarder/mod.rs\<close>, \<^verbatim>\<open>connect.rs\<close> and \<^verbatim>\<open>session.rs\<close> (\<^verbatim>\<open>crates/kube-portforward/src\<close>).  Each test is a closed
  boolean with the calls and assertions of the source, and it holds.  What a broadcast
  receiver has not taken yet is what was sent since the last look.
\<close>

section \<open>The pod watcher\<close>

definition mk_pod_full :: "string \<Rightarrow> string option \<Rightarrow> bool \<Rightarrow> bool \<Rightarrow> bool \<Rightarrow> pod" where
  "mk_pod_full name uid ready running terminating =
     \<lparr>pod_name = name, pod_uid = uid, pod_deleting = terminating,
      pod_status_of = Some \<lparr>phase = Some (if running then ''Running'' else ''Pending''),
        conditions = Some [(''Ready'', if ready then ''True'' else ''False'')]\<rparr>\<rparr>"

definition mk_pod :: "string \<Rightarrow> bool \<Rightarrow> bool \<Rightarrow> pod" where
  "mk_pod name ready running = mk_pod_full name None ready running False"

definition test_pod_with_readiness :: "string \<Rightarrow> string \<Rightarrow> bool \<Rightarrow> pod" where
  "test_pod_with_readiness name uid ready =
     \<lparr>pod_name = name, pod_uid = Some uid, pod_deleting = False,
      pod_status_of = Some \<lparr>phase = Some ''Running'', conditions = Some [(''Ready'', if ready then ''True'' else ''False'')]\<rparr>\<rparr>"

text \<open>The store after \<open>Event::Apply\<close>: the pod of that name, if any, is replaced.\<close>

definition test_apply :: "pod \<Rightarrow> pod_watcher \<Rightarrow> pod_watcher" where
  "test_apply p pw = update_latest p (pw\<lparr>pw_store := filter (\<lambda>q. pod_name q \<noteq> pod_name p) (pw_store pw) @ [p]\<rparr>)"

definition cached_watcher :: "ready_pod option \<Rightarrow> pod_watcher" where
  "cached_watcher cached = (pod_watcher_new (SelLabels []) PolicyReady)\<lparr>latest_ready := cached\<rparr>"

definition ready_running_pod_is_ready_for_labels_selector :: bool where
  "ready_running_pod_is_ready_for_labels_selector \<longleftrightarrow>
     is_pod_selected (mk_pod ''p1'' True True) (SelLabels ''app=x'') PolicyReady"

definition not_running_pod_is_not_ready :: bool where
  "not_running_pod_is_not_ready \<longleftrightarrow> \<not> is_pod_selected (mk_pod ''p1'' True False) (SelLabels []) PolicyReady"

definition name_selector_filters_by_name :: bool where
  "name_selector_filters_by_name \<longleftrightarrow>
     is_pod_selected (mk_pod ''p1'' True True) (SelName ''p1'') PolicyReady \<and>
     \<not> is_pod_selected (mk_pod ''p1'' True True) (SelName ''p2'') PolicyReady"

definition ready_condition_must_be_true :: bool where
  "ready_condition_must_be_true \<longleftrightarrow> \<not> is_pod_selected (mk_pod ''p1'' False True) (SelLabels []) PolicyReady"

definition running_policy_accepts_running_pod_without_ready_condition :: bool where
  "running_policy_accepts_running_pod_without_ready_condition \<longleftrightarrow>
     is_pod_selected (mk_pod ''p1'' False True) (SelLabels []) PolicyRunning"

definition running_policy_rejects_non_running_pod :: bool where
  "running_policy_rejects_non_running_pod \<longleftrightarrow> \<not> is_pod_selected (mk_pod ''p1'' True False) (SelLabels []) PolicyRunning"

definition running_policy_rejects_terminating_pod :: bool where
  "running_policy_rejects_terminating_pod \<longleftrightarrow>
     \<not> is_pod_selected (mk_pod_full ''p1'' None True True True) (SelLabels []) PolicyRunning"

definition ready_policy_rejects_terminating_pod :: bool where
  "ready_policy_rejects_terminating_pod \<longleftrightarrow>
     \<not> is_pod_selected (mk_pod_full ''p1'' None True True True) (SelLabels []) PolicyReady"

definition update_latest_detects_uid_replacement_of_same_named_pod :: bool where
  "update_latest_detects_uid_replacement_of_same_named_pod \<longleftrightarrow>
     (let w1 = update_latest (mk_pod_full ''p1'' (Some ''uid-a'') True True False) (cached_watcher None);
          w2 = update_latest (mk_pod_full ''p1'' (Some ''uid-b'') True True False) w1
      in map_option rp_uid (latest_ready w1) = Some (Some ''uid-a'') \<and> pw_sent w1 = [PodReady ''p1''] \<and>
         map_option rp_uid (latest_ready w2) = Some (Some ''uid-b'') \<and> pw_sent w2 = pw_sent w1 @ [PodReady ''p1''])"

definition update_latest_is_a_noop_for_unchanged_pod :: bool where
  "update_latest_is_a_noop_for_unchanged_pod \<longleftrightarrow>
     (let p = mk_pod_full ''p1'' (Some ''uid-a'') True True False; w1 = update_latest p (cached_watcher None)
      in length (pw_sent w1) = 1 \<and> pw_sent (update_latest p w1) = pw_sent w1)"

definition update_latest_keeps_current_target_when_a_different_pod_becomes_ready :: bool where
  "update_latest_keeps_current_target_when_a_different_pod_becomes_ready \<longleftrightarrow>
     (let w1 = update_latest (mk_pod_full ''p1'' (Some ''uid-a'') True True False) (cached_watcher None);
          w2 = update_latest (mk_pod_full ''p2'' (Some ''uid-b'') True True False) w1
      in pw_sent w1 = [PodReady ''p1''] \<and> map_option rp_name (latest_ready w2) = Some ''p1'' \<and> pw_sent w2 = pw_sent w1)"

definition ready_pod_falls_back_once_the_cached_target_stops_being_selectable :: bool where
  "ready_pod_falls_back_once_the_cached_target_stops_being_selectable \<longleftrightarrow>
     (let w = test_apply (mk_pod_full ''p2'' (Some ''uid-b'') True True False)
                (test_apply (mk_pod_full ''p1'' (Some ''uid-a'') True True False) (pod_watcher_new (SelLabels []) PolicyReady));
          (w1, r1) = ready_pod_query w; (w2, r2) = ready_pod_query w1;
          w3 = test_apply (mk_pod_full ''p1'' (Some ''uid-a'') True True True) w2
      in map_option rp_name r1 = Some ''p1'' \<and> map_option rp_name r2 = Some ''p1'' \<and>
         map_option rp_name (snd (ready_pod_query w3)) = Some ''p2'')"

definition died_only_fires_for_the_currently_cached_pod :: bool where
  "died_only_fires_for_the_currently_cached_pod \<longleftrightarrow>
     (let w = cached_watcher (Some \<lparr>rp_name = ''p1'', rp_uid = Some ''uid-a''\<rparr>);
          w1 = handle_deleted_pod ''old-pod'' (Some ''uid-x'') w; w2 = handle_deleted_pod ''p1'' (Some ''uid-a'') w1
      in pw_sent w1 = [] \<and> map_option rp_name (latest_ready w1) = Some ''p1'' \<and>
         latest_ready w2 = None \<and> pw_sent w2 = [PodDied ''p1''])"

definition handle_deleted_pod_ignores_a_stale_delete_for_a_replaced_uid :: bool where
  "handle_deleted_pod_ignores_a_stale_delete_for_a_replaced_uid \<longleftrightarrow>
     (let w = cached_watcher (Some \<lparr>rp_name = ''p1'', rp_uid = Some ''uid-b''\<rparr>);
          w1 = handle_deleted_pod ''p1'' (Some ''uid-a'') w; w2 = handle_deleted_pod ''p1'' (Some ''uid-b'') w1
      in pw_sent w1 = [] \<and> map_option rp_uid (latest_ready w1) = Some (Some ''uid-b'') \<and>
         latest_ready w2 = None \<and> pw_sent w2 = [PodDied ''p1''])"

lemmas pod_tests_defs = ready_running_pod_is_ready_for_labels_selector_def not_running_pod_is_not_ready_def
  name_selector_filters_by_name_def ready_condition_must_be_true_def
  running_policy_accepts_running_pod_without_ready_condition_def running_policy_rejects_non_running_pod_def
  running_policy_rejects_terminating_pod_def ready_policy_rejects_terminating_pod_def

lemmas pod_cache_tests_defs = update_latest_detects_uid_replacement_of_same_named_pod_def
  update_latest_is_a_noop_for_unchanged_pod_def
  update_latest_keeps_current_target_when_a_different_pod_becomes_ready_def
  ready_pod_falls_back_once_the_cached_target_stops_being_selectable_def
  died_only_fires_for_the_currently_cached_pod_def handle_deleted_pod_ignores_a_stale_delete_for_a_replaced_uid_def

lemma pod_selection_tests:
  ready_running_pod_is_ready_for_labels_selector not_running_pod_is_not_ready name_selector_filters_by_name
  ready_condition_must_be_true running_policy_accepts_running_pod_without_ready_condition
  running_policy_rejects_non_running_pod running_policy_rejects_terminating_pod ready_policy_rejects_terminating_pod
  by (simp_all add: pod_tests_defs mk_pod_def mk_pod_full_def is_pod_selected_def matches_selector_def)

lemma pod_cache_tests:
  update_latest_detects_uid_replacement_of_same_named_pod update_latest_is_a_noop_for_unchanged_pod
  update_latest_keeps_current_target_when_a_different_pod_becomes_ready
  ready_pod_falls_back_once_the_cached_target_stops_being_selectable
  died_only_fires_for_the_currently_cached_pod handle_deleted_pod_ignores_a_stale_delete_for_a_replaced_uid
  by (simp_all add: pod_cache_tests_defs mk_pod_full_def is_pod_selected_def matches_selector_def update_latest_def
      pod_watcher_new_def cached_watcher_def test_apply_def ready_pod_query_def pod_identity_def handle_deleted_pod_def Let_def)

section \<open>The pool and the reactor to pod changes\<close>

text \<open>A session on one connection whose handshake succeeded.\<close>

definition fake_session :: "u16 \<Rightarrow> ksession" where
  "fake_session port =
     ksession_from_spdy \<lparr>pool = [spawn_handle mux_config_default (\<lambda>_. sw_new 0)], metrics = [metrics_new], next_pick = 0,
       session_cancelled = False\<rparr> LegacySpdy port"

definition ready_of :: "string \<Rightarrow> string \<Rightarrow> ready_pod" where
  "ready_of name uid = \<lparr>rp_name = name, rp_uid = Some uid\<rparr>"

definition gate_only_blocks_on_genuine_in_flight_work :: bool where
  "gate_only_blocks_on_genuine_in_flight_work \<longleftrightarrow>
     (let p0 = pool_new;
          p1 = refresh_snapshot (p0\<lparr>entries := entries p0 @ [\<lparr>ps_session = 0, created_at = 0\<rparr>]\<rparr>);
          p2 = opening_slot_new p1; p3 = opening_slot_drop p2; p4 = p3\<lparr>prefetch_in_flight := True\<rparr>
      in \<not> has_in_flight_open p0 \<and> \<not> has_in_flight_open p1 \<and> has_in_flight_open p2 \<and> \<not> has_in_flight_open p3 \<and>
         has_in_flight_open p4)"

text \<open>Session 0 was opened for pod a, session 1 for pod b; what \<open>drain_and_cancel_all\<close> takes out is cancelled.\<close>

definition install_rejects_a_session_opened_for_a_stale_target :: bool where
  "install_rejects_a_session_opened_for_a_stale_target \<longleftrightarrow>
     (let p0 = pool_new\<lparr>pool_target := Some (ready_of ''b'' ''uid-b'')\<rparr>;
          (p1, ra) = install_if_current (ready_of ''a'' ''uid-a'') 0 0 p0;
          (p2, rb) = install_if_current (ready_of ''b'' ''uid-b'') 1 0 p1;
          (p3, drained) = drain_pool None p2
      in ra = Err 0 \<and> entries p1 = [] \<and> rb = Ok 1 \<and> 1 \<in> set drained \<and> 0 \<notin> set drained)"

definition a_pooled_session_only_serves_the_port_it_was_opened_for :: bool where
  "a_pooled_session_only_serves_the_port_it_was_opened_for \<longleftrightarrow>
     (let s = fake_session 8080
      in session_serves s 8080 \<and> \<not> session_serves s 9090 \<and> \<not> session_serves (ksession_cancel s) 8080)"

text \<open>A pool with one session for the given target; \<open>None\<close> of \<open>handle_pod_died\<close> says that it drained nothing.\<close>

definition pool_for :: "ready_pod \<Rightarrow> session_pool" where
  "pool_for target =
     refresh_snapshot (pool_new\<lparr>pool_target := Some target, entries := [\<lparr>ps_session = 0, created_at = 0\<rparr>]\<rparr>)"

definition died_event_for_a_non_target_pod_does_not_drain_the_pool :: bool where
  "died_event_for_a_non_target_pod_does_not_drain_the_pool \<longleftrightarrow>
     (let w = pod_watcher_new (SelLabels []) PolicyReady; p = pool_for (ready_of ''b'' ''uid-b'')
      in handle_pod_died w ''a'' p = None \<and>
         (case handle_pod_died w ''b'' p of Some (p', cancelled) \<Rightarrow> cancelled = [0] \<and> entries p' = [] | None \<Rightarrow> False))"

definition stale_died_event_does_not_cancel_a_same_name_replacement_pod :: bool where
  "stale_died_event_does_not_cancel_a_same_name_replacement_pod \<longleftrightarrow>
     (let w = test_apply (test_pod_with_readiness ''p'' ''uid-b'' True)
                (test_apply (test_pod_with_readiness ''p'' ''uid-a'' True) (pod_watcher_new (SelName ''p'') PolicyReady));
          (w', r) = ready_pod_query w
      in map_option rp_uid r = Some (Some ''uid-b'') \<and> handle_pod_died w' ''p'' (pool_for (ready_of ''p'' ''uid-b'')) = None)"

definition stale_died_event_does_not_cancel_an_unready_replacement_pod :: bool where
  "stale_died_event_does_not_cancel_an_unready_replacement_pod \<longleftrightarrow>
     (let w = test_apply (test_pod_with_readiness ''p'' ''uid-b'' False) (test_apply (test_pod_with_readiness ''p'' ''uid-b'' True)
                (test_apply (test_pod_with_readiness ''p'' ''uid-a'' True) (pod_watcher_new (SelName ''p'') PolicyReady)));
          (w', r) = ready_pod_query w
      in r = None \<and> handle_pod_died w' ''p'' (pool_for (ready_of ''p'' ''uid-b'')) = None)"

definition real_current_target_death_drains_the_pool :: bool where
  "real_current_target_death_drains_the_pool \<longleftrightarrow>
     (let (w, r) = ready_pod_query (pod_watcher_new (SelName ''p'') PolicyReady)
      in r = None \<and>
         (case handle_pod_died w ''p'' (pool_for (ready_of ''p'' ''uid-a'')) of
            Some (p', cancelled) \<Rightarrow> cancelled = [0] \<and> entries p' = [] | None \<Rightarrow> False))"

lemmas pool_tests_defs = gate_only_blocks_on_genuine_in_flight_work_def
  install_rejects_a_session_opened_for_a_stale_target_def a_pooled_session_only_serves_the_port_it_was_opened_for_def

lemma pool_tests:
  gate_only_blocks_on_genuine_in_flight_work install_rejects_a_session_opened_for_a_stale_target
  by (simp_all add: pool_tests_defs pool_new_def refresh_snapshot_def opening_slot_new_def opening_slot_drop_def
      has_in_flight_open_def install_if_current_def push_entry_def drain_pool_def ready_of_def)

lemma pool_port_test: a_pooled_session_only_serves_the_port_it_was_opened_for
  by (simp add: pool_tests_defs fake_session_def ksession_from_spdy_def session_serves_def ks_is_full_def ks_is_cancelled_def
      ksession_cancel_def session_close_def session_is_full_def max_concurrent_def hard_limit_def spawn_handle_def
      mux_config_default_def Let_def)

lemmas died_tests_defs = died_event_for_a_non_target_pod_does_not_drain_the_pool_def
  stale_died_event_does_not_cancel_a_same_name_replacement_pod_def
  stale_died_event_does_not_cancel_an_unready_replacement_pod_def real_current_target_death_drains_the_pool_def

lemma lifecycle_tests:
  died_event_for_a_non_target_pod_does_not_drain_the_pool
  stale_died_event_does_not_cancel_a_same_name_replacement_pod
  stale_died_event_does_not_cancel_an_unready_replacement_pod
  real_current_target_death_drains_the_pool
  by (simp_all add: died_tests_defs pool_for_def pool_new_def ready_of_def refresh_snapshot_def handle_pod_died_def drain_pool_def
      contains_identity_def test_apply_def test_pod_with_readiness_def pod_watcher_new_def update_latest_def
      is_pod_selected_def matches_selector_def ready_pod_query_def pod_identity_def)

section \<open>The forwarder\<close>

definition waiting_forwarder :: "(kube_error, forwarder) result" where
  "waiting_forwarder =
     builder_build (builder_pod_selector (SelName ''waiting'') (forwarder_builder_new ''default''))
       (\<lambda>namespace sel readiness. Ok (pod_watcher_new sel readiness))"

text \<open>The first poll of a call waits for a pod; after the shutdown it is dropped, and a new call fails at once.\<close>

definition shutdown_cancels_pending_connections_and_prevents_reopening :: bool where
  "shutdown_cancels_pending_connections_and_prevents_reopening \<longleftrightarrow>
     (case waiting_forwarder of
        Inl e \<Rightarrow> False
      | Inr f \<Rightarrow>
          (let (f1, pc) = start_call 8080 f; f2 = shutdown_cancel f1
           in pc = WaitReady True \<and> wait_for_ready_pod (fw_watcher f1) [] = None \<and>
              drop_call pc f2 = Some (f2, []) \<and> forwarder_wait_for_ready_pod False [] f2 = Some (f2, None) \<and>
              snd (start_call 8080 f2) = Failed Cancelled \<and> shutdown_cancel f2 = f2))"

definition zero_target_port_fails_before_waiting_for_pods :: bool where
  "zero_target_port_fails_before_waiting_for_pods \<longleftrightarrow>
     (case waiting_forwarder of
        Inl e \<Rightarrow> False
      | Inr f \<Rightarrow> (case snd (start_call 0 f) of Failed (Configuration msg) \<Rightarrow> True | _ \<Rightarrow> False))"

lemma forwarder_tests:
  shutdown_cancels_pending_connections_and_prevents_reopening zero_target_port_fails_before_waiting_for_pods
  by (simp_all add: shutdown_cancels_pending_connections_and_prevents_reopening_def waiting_forwarder_def builder_build_def
      zero_target_port_fails_before_waiting_for_pods_def forwarder_build_def forwarder_builder_new_def builder_pod_selector_def
      forwarder_config_default_def DEFAULT_MAX_SESSIONS_def start_call_def next_call_id_def shutdown_cancel_def
      forwarder_wait_for_ready_pod_def watcher_shutdown_def
      wait_for_ready_pod_def ready_pod_query_def pod_watcher_new_def Let_def)

section \<open>The fallback of the upgrade\<close>

datatype fallback_scenario = SuccessfulFallback | FailedFallback

text \<open>The fake API server: it answers by the \<open>Upgrade\<close> header of the request.\<close>

definition handle_upgrade_request :: "fallback_scenario \<Rightarrow> http_request \<Rightarrow> http_response" where
  "handle_upgrade_request scenario req =
     (let upgrade_hdr = map ascii_lower_char (case map_of (req_headers req) ''upgrade'' of Some v \<Rightarrow> v | None \<Rightarrow> [])
      in if upgrade_hdr = ''websocket'' then \<lparr>res_status = 404, res_headers = []\<rparr>
         else if upgrade_hdr = ''spdy/3.1'' then
           (case scenario of
              SuccessfulFallback \<Rightarrow>
                \<lparr>res_status = 101, res_headers = [(''upgrade'', Some LEGACY_SPDY_UPGRADE),
                   (''x-stream-protocol-version'', Some LEGACY_STREAM_PROTOCOL)]\<rparr>
            | FailedFallback \<Rightarrow> \<lparr>res_status = 502, res_headers = []\<rparr>)
         else \<lparr>res_status = 400, res_headers = []\<rparr>)"

definition fake_apiserver :: "fallback_scenario \<Rightarrow> http_env" where
  "fake_apiserver scenario =
     \<lparr>env_parse_uri = (\<lambda>u. Ok ()), env_send = (\<lambda>req. Ok (handle_upgrade_request scenario req)),
      env_upgrade = (\<lambda>res. Ok 0), env_ws_key = ''key''\<rparr>"

definition upgrade_against ::
  "fallback_scenario \<Rightarrow> (kube_error \<Rightarrow> string) \<Rightarrow> recovery_signal list \<times> (kube_error, spdy_upgraded) result" where
  "upgrade_against scenario display =
     upgrade_spdy_with_fallback display (fake_apiserver scenario) (fake_apiserver scenario)
       \<lparr>uri_scheme = Some ''http'', uri_authority = Some ''127.0.0.1:80''\<rparr> ''default'' ''demo-pod''"

definition successful_fallback_reports_no_upgrade_failed :: "(kube_error \<Rightarrow> string) \<Rightarrow> bool" where
  "successful_fallback_reports_no_upgrade_failed display \<longleftrightarrow>
     (case upgrade_against SuccessfulFallback display of
        (calls, Inr up) \<Rightarrow> up_protocol up = LegacySpdy \<and> calls = []
      | _ \<Rightarrow> False)"

definition failed_fallback_reports_terminal_upgrade_failure_once :: "(kube_error \<Rightarrow> string) \<Rightarrow> bool" where
  "failed_fallback_reports_terminal_upgrade_failure_once display \<longleftrightarrow>
     (case upgrade_against FailedFallback display of
        ([SignalUpgradeFailed s msg], Inl (UpgradeFailed status m)) \<Rightarrow> s = Some 502 \<and> status = Some 502
      | _ \<Rightarrow> False)"

text \<open>
  A server that leaves the connection of a rejected upgrade open.  That the second request goes over a connection of its own is
  the poisoning of the first one.
\<close>

definition hijacking_apiserver :: http_env where
  "hijacking_apiserver =
     \<lparr>env_parse_uri = (\<lambda>u. Ok ()),
      env_send = (\<lambda>req. if map_of (req_headers req) ''upgrade'' = Some ''websocket'' then Ok \<lparr>res_status = 400, res_headers = []\<rparr>
        else if map_of (req_headers req) ''upgrade'' = Some LEGACY_SPDY_UPGRADE
        then Ok \<lparr>res_status = 101, res_headers = [(''upgrade'', Some LEGACY_SPDY_UPGRADE),
          (''x-stream-protocol-version'', Some LEGACY_STREAM_PROTOCOL)]\<rparr>
        else Err ''connection closed''),
      env_upgrade = (\<lambda>res. Ok 1), env_ws_key = ''key''\<rparr>"

definition rejected_websocket_upgrade_connection_is_not_reused :: bool where
  "rejected_websocket_upgrade_connection_is_not_reused \<longleftrightarrow>
     (let cluster_url = \<lparr>uri_scheme = Some ''http'', uri_authority = Some ''127.0.0.1:80''\<rparr>; parse = env_parse_uri hijacking_apiserver
      in case (build_spdy_tunnel_request parse cluster_url ''default'' ''demo-pod'',
               build_legacy_spdy_request parse cluster_url ''default'' ''demo-pod'') of
        (Inr ws_request, Inr legacy_request) \<Rightarrow>
          (case perform_ws_upgrade hijacking_apiserver ws_request of
             (poisoned, Inl (UpgradeFailed status m)) \<Rightarrow> poisoned \<and> status = Some 400
           | _ \<Rightarrow> False) \<and>
          snd (perform_legacy_spdy_upgrade hijacking_apiserver legacy_request) = Ok 1
      | _ \<Rightarrow> False)"

lemmas connect_tests_defs = upgrade_against_def fake_apiserver_def handle_upgrade_request_def upgrade_spdy_with_fallback_def
  upgrade_spdy_tunnel_def upgrade_legacy_spdy_def build_spdy_tunnel_request_def build_legacy_spdy_request_def
  portforward_uri_def perform_ws_upgrade_def perform_legacy_spdy_upgrade_def ws_upgrade_request_def header_insert_def
  header_text_def should_fallback_def fallback_status_def

lemma test_names_valid: "name_is_valid ''default''" "name_is_valid ''demo-pod''"
  by code_simp+

lemma test_headers_lower:
  "map ascii_lower_char ''websocket'' = ''websocket''" "map ascii_lower_char LEGACY_SPDY_UPGRADE = ''spdy/3.1''"
  by code_simp+

lemma connect_tests:
  "successful_fallback_reports_no_upgrade_failed display" "failed_fallback_reports_terminal_upgrade_failure_once display"
  by (simp_all add: successful_fallback_reports_no_upgrade_failed_def failed_fallback_reports_terminal_upgrade_failure_once_def
      connect_tests_defs test_names_valid test_headers_lower eq_ignore_ascii_case_def del: list.map)

lemma connect_reuse_test: rejected_websocket_upgrade_connection_is_not_reused
  by (simp add: rejected_websocket_upgrade_connection_is_not_reused_def hijacking_apiserver_def connect_tests_defs test_names_valid
      eq_ignore_ascii_case_def LEGACY_SPDY_UPGRADE_def)

section \<open>Spare streams\<close>

text \<open>
  Two streams are put aside; then the peer of the first connection goes away, and its tasks close the handle.  A stream reaches the
  peer over the connection it belongs to; \<open>rtts\<close> are the times that opens take.
\<close>

definition push_spare :: "nat \<Rightarrow> ksession \<Rightarrow> ksession option" where
  "push_spare rtt ks =
     (case open_new_stream rtt ks of
        (ks', Inr spare) \<Rightarrow> Some (ks'\<lparr>spare_streams := spare_streams ks' @ [spare]\<rparr>) | (ks', Inl e) \<Rightarrow> None)"

definition kill_first :: "ksession \<Rightarrow> ksession" where
  "kill_first ks = ks\<lparr>k_inner := (k_inner ks)\<lparr>pool := (pool (k_inner ks))[0 := (pool (k_inner ks) ! 0)\<lparr>h_closed := True\<rparr>]\<rparr>\<rparr>"

definition connect_skips_a_cached_spare_bound_to_a_dead_mux :: "nat \<Rightarrow> nat \<Rightarrow> nat \<Rightarrow> nat \<Rightarrow> bool" where
  "connect_skips_a_cached_spare_bound_to_a_dead_mux t1 t2 t3 t4 \<longleftrightarrow>
     (case session_with_config [healthy_connection, healthy_connection] of
        Inl e \<Rightarrow> False
      | Inr mux \<Rightarrow>
          (case Option.bind (push_spare t1 (ksession_from_spdy mux LegacySpdy 8080)) (push_spare t2) of
             None \<Rightarrow> False
           | Some ks \<Rightarrow>
               (let (ks1, r1) = ksession_connect (\<lambda>s. False) t3 (kill_first ks);
                    (ks2, r2) = ksession_connect (\<lambda>s. False) t4 ks1
                in map_sum id ks_handle r1 = Ok 1 \<and> map_sum id ks_handle r2 = Ok 1)))"

text \<open>A spare stream that nobody has used is stale exactly when its connection is gone.\<close>

definition fresh_spare :: "kstream \<Rightarrow> bool" where
  "fresh_spare s \<longleftrightarrow> ks_handle s < 2 \<and> (\<exists>parts d e. ks_stream s = new_unopened parts d e)"

lemma fresh_spare_closed:
  "fresh_spare s \<Longrightarrow> spare_read_closed (\<lambda>s. False) s ks = h_closed (pool (k_inner ks) ! ks_handle s)"
  by (auto simp: fresh_spare_def spare_read_closed_def is_read_closed_def new_unopened_def read_new_def)

lemma open_new_stream_two:
  assumes "pool (k_inner ks) = [h0, in_use_handle k]" "k < 64" "h_closed h0 \<or> h0 = in_use_handle j \<and> j < 64"
  shows "\<exists>ks' s. open_new_stream rtt ks = (ks', Ok s) \<and> fresh_spare s \<and> spare_streams ks' = spare_streams ks \<and>
    has_room (pool (k_inner ks) ! ks_handle s) \<and>
    pool (k_inner ks') = (pool (k_inner ks))[ks_handle s := takes_slot (pool (k_inner ks) ! ks_handle s)]"
proof -
  have "h_closed h0 \<or> has_room h0 \<and> \<not> goaway_received h0" using assms(3) by auto
  from open_past_closed [OF assms(1) this, of rtt "pair_headers ''error'' (k_port ks) (next_request_id ks)"
      "pair_headers ''data'' (k_port ks) (next_request_id ks)"]
  show ?thesis using assms(2)
    by (fastforce simp: open_new_stream_def portforward_headers_def fresh_spare_def Let_def)
qed

text \<open>With the first connection gone, a connect takes the other one, whatever is put aside.\<close>

definition half_dead :: "nat \<Rightarrow> ksession \<Rightarrow> bool" where
  "half_dead n ks \<longleftrightarrow> (\<exists>h0 k. pool (k_inner ks) = [h0, in_use_handle k] \<and> h_closed h0 \<and> k \<le> n) \<and>
     list_all fresh_spare (spare_streams ks)"

lemma pop_spares_half_dead:
  assumes "list_all fresh_spare ss" "pool (k_inner ks) = [h0, in_use_handle k]" "h_closed h0" "k \<le> n"
  shows "case pop_spares (\<lambda>s. False) ss ks of (ks', r) \<Rightarrow> half_dead n ks' \<and> (\<forall>s. r = Some s \<longrightarrow> ks_handle s = 1)"
  using assms
proof (induction ss arbitrary: ks h0)
  case Nil
  then show ?case by (auto simp: half_dead_def)
next
  case (Cons s ss)
  have s: "fresh_spare s" "ks_handle s = 0 \<or> ks_handle s = 1"
    using Cons.prems(1) by (auto simp: fresh_spare_def less_2_cases_iff)
  show ?case
  proof (cases "ks_handle s = 0")
    case True
    obtain u where u: "s_phase (ks_stream s) = Unopened u" using s(1) by (auto simp: fresh_spare_def new_unopened_def)
    have "spare_read_closed (\<lambda>s. False) s ks"
      using fresh_spare_closed [OF s(1), of ks] Cons.prems(2,3) True by simp
    moreover obtain h1 where h1: "pool (k_inner (fst (drop_kstream s ks))) = [h1, in_use_handle k]" "h_closed h1"
      using Cons.prems(2,3) True u by (simp add: drop_kstream_def drop_stream_def drop_release_guard_def release_pair_def Let_def split: option.splits)
    ultimately show ?thesis using Cons.IH [OF _ h1 Cons.prems(4)] Cons.prems(1) by simp
  next
    case False
    then have "\<not> spare_read_closed (\<lambda>s. False) s ks"
      using fresh_spare_closed [OF s(1), of ks] Cons.prems(2) s(2) by simp
    then show ?thesis using Cons.prems s(2) False by (auto simp: half_dead_def)
  qed
qed

lemma connect_half_dead:
  assumes "half_dead n ks" "n < 63"
  shows "\<exists>ks' s. ksession_connect (\<lambda>s. False) rtt ks = (ks', Ok s) \<and> ks_handle s = 1 \<and> half_dead (Suc n) ks'"
proof -
  obtain h0 k where hk: "pool (k_inner ks) = [h0, in_use_handle k]" "h_closed h0" "k \<le> n" "list_all fresh_spare (spare_streams ks)"
    using assms(1) by (auto simp: half_dead_def)
  obtain ks1 r where p: "pop_spares (\<lambda>s. False) (spare_streams ks) ks = (ks1, r)" by force
  then have ks1: "half_dead n ks1" "\<And>s. r = Some s \<Longrightarrow> ks_handle s = 1"
    using pop_spares_half_dead [OF hk(4,1-3)] by auto
  show ?thesis
  proof (cases r)
    case None
    obtain h1 k1 where h1: "pool (k_inner ks1) = [h1, in_use_handle k1]" "h_closed h1" "k1 \<le> n" "list_all fresh_spare (spare_streams ks1)"
      using ks1(1) by (auto simp: half_dead_def)
    obtain ks' s where o: "open_new_stream rtt ks1 = (ks', Ok s)" "fresh_spare s" "spare_streams ks' = spare_streams ks1"
      "has_room (pool (k_inner ks1) ! ks_handle s)"
      "pool (k_inner ks') = (pool (k_inner ks1))[ks_handle s := takes_slot (pool (k_inner ks1) ! ks_handle s)]"
      using open_new_stream_two [OF h1(1) _ disjI1 [OF h1(2)], of rtt] h1(3) assms(2) by auto
    then have one: "ks_handle s = 1" using h1(1,2) by (auto simp: fresh_spare_def less_2_cases_iff has_room_def)
    then have "half_dead (Suc n) ks'" using o(3,5) h1 by (auto simp: half_dead_def)
    then show ?thesis using None p o(1) one by (simp add: ksession_connect_def)
  next
    case (Some s)
    have "half_dead (Suc n) ks1" using ks1(1) by (auto simp: half_dead_def intro: le_SucI)
    then show ?thesis using Some p ks1(2) by (simp add: ksession_connect_def)
  qed
qed

lemma push_spare_two:
  assumes "pool (k_inner ks) = [in_use_handle j, in_use_handle k]" "j < 64" "k < 64" "list_all fresh_spare (spare_streams ks)"
  shows "\<exists>ks' j' k'. push_spare rtt ks = Some ks' \<and> pool (k_inner ks') = [in_use_handle j', in_use_handle k'] \<and>
    j' \<le> Suc j \<and> k' \<le> Suc k \<and> list_all fresh_spare (spare_streams ks')"
proof -
  obtain ks' s where o: "open_new_stream rtt ks = (ks', Ok s)" "fresh_spare s" "spare_streams ks' = spare_streams ks"
      "pool (k_inner ks') = (pool (k_inner ks))[ks_handle s := takes_slot (pool (k_inner ks) ! ks_handle s)]"
    using open_new_stream_two [OF assms(1,3), of j rtt] assms(2) by auto
  then have "ks_handle s = 0 \<or> ks_handle s = 1" by (auto simp: fresh_spare_def less_2_cases_iff)
  then show ?thesis using o assms
    by (intro exI [of _ "ks'\<lparr>spare_streams := spare_streams ks' @ [s]\<rparr>"] exI [of _ "if ks_handle s = 0 then Suc j else j"]
        exI [of _ "if ks_handle s = 0 then k else Suc k"]) (auto simp: push_spare_def)
qed

lemma spare_stream_test: "connect_skips_a_cached_spare_bound_to_a_dead_mux t1 t2 t3 t4"
proof -
  obtain mux where mux: "session_with_config [healthy_connection, healthy_connection] = Ok mux"
    "pool mux = [in_use_handle 0, in_use_handle 0]"
    by (simp add: session_tests_defs in_use_handle_def spawn_handle_def)
  let ?ks0 = "ksession_from_spdy mux LegacySpdy 8080"
  have "pool (k_inner ?ks0) = [in_use_handle 0, in_use_handle 0]" "spare_streams ?ks0 = []"
    using mux(2) by (simp_all add: ksession_from_spdy_def)
  from push_spare_two [OF this(1), of t1] this(2) obtain ks1 j1 k1 where ks1: "push_spare t1 ?ks0 = Some ks1"
    "pool (k_inner ks1) = [in_use_handle j1, in_use_handle k1]" "j1 \<le> 1" "k1 \<le> 1" "list_all fresh_spare (spare_streams ks1)" by auto
  from push_spare_two [OF this(2), of t2] this(3-) obtain ks j k where ks: "push_spare t2 ks1 = Some ks"
    "pool (k_inner ks) = [in_use_handle j, in_use_handle k]" "k \<le> 2" "list_all fresh_spare (spare_streams ks)" by force
  then have "half_dead 2 (kill_first ks)" by (auto simp: half_dead_def kill_first_def)
  from connect_half_dead [OF this, of t3] obtain ks2 s where s: "ksession_connect (\<lambda>s. False) t3 (kill_first ks) = (ks2, Ok s)"
    "ks_handle s = 1" "half_dead (Suc 2) ks2" by auto
  from connect_half_dead [OF s(3), of t4] obtain ks3 s' where "ksession_connect (\<lambda>s. False) t4 ks2 = (ks3, Ok s')" "ks_handle s' = 1"
    by auto
  then show ?thesis using mux(1) ks1(1) ks(1) s(1,2) by (simp add: connect_skips_a_cached_spare_bound_to_a_dead_mux_def)
qed

end
