(* ===== verification/Spec2Isabelle.thy ===== *)
theory Spec2Isabelle
  imports Codec_Properties Mux Inbound Raw_Frames Session_Checked Session_Shared Transport
    Pod_Watch_Laws Connect_Laws Kube_Session_Laws Forwarder_Bounds Forwarder_Ownership Forwarder_Progress Forwarder_Open
    Conformance_Codec Conformance_Stream Conformance_Mux Conformance_Kube
begin

text \<open>
  A verification of kube-portforward: the crate \<open>spdy-mux\<close>, which multiplexes streams over SPDY/3.1, and the crate
  \<open>kube-portforward\<close>, which forwards ports of pods over it.  Paths are relative to \<^verbatim>\<open>src/crates/\<close>.

  \<^bold>\<open>The program.\<close>  A \<open>Forwarder\<close> keeps a pool of sessions with the pod that a \<open>PodWatcher\<close> reports as ready.  A
  session is a set of HTTP connections to the API server, each upgraded to carry SPDY frames, bare or in
  WebSocket messages, and each driven by a multiplexer: a reader task that decodes frames and routes them to
  sharded frame workers, the workers that deliver data to streams and do the flow control, a writer task
  that encodes commands, and a handle through which streams are opened.  A user's stream is opened on the
  wire only when it is first used.

  \<^bold>\<open>The theories of the multiplexer\<close> (\<^verbatim>\<open>spdy-mux/src\<close>).
  \<^item> \<open>Prelude\<close>: machine integers, big-endian bytes, UTF-8, results and polls, loops that may not end (\<open>run_loop\<close>).
    \<open>Errors\<close>: \<^verbatim>\<open>error.rs\<close>.  \<open>Dictionary\<close>: \<^verbatim>\<open>dictionary.rs\<close>.
  \<^item> \<open>Codec\<close>: \<^verbatim>\<open>codec.rs\<close>, every encoder and the decoder; zlib (the crate \<open>flate2\<close>) is a parameter, a record of
    its operations.  What is assumed of a pair of its streams, \<open>zlib_transfers\<close>, is asked for header blocks of at
    most \<open>TRANSFER_BLOCK\<close> (768) bytes, which the three headers of port forwarding stay far below: one call of the
    compressor with the output space of the code then takes the whole block, as DEFLATE's overhead is a few
    bytes at that size; nothing is assumed of longer blocks.  \<open>Codec_Zlib\<close> and \<open>Codec_Roundtrip\<close> hold the laws, \<open>Codec_Properties\<close> the claims C1, C2, C4 and C5:
    round trips and totality.  \<open>Framing\<close> is the interface (a locale) between what
    emits frames and what decodes them.
  \<^item> \<open>Commands\<close>: \<^verbatim>\<open>mux/mod.rs\<close>, \<^verbatim>\<open>mux/config.rs\<close>, \<^verbatim>\<open>mux/commands.rs\<close>.  \<open>Window\<close>: \<^verbatim>\<open>mux/window.rs\<close>, with the atomic
    counter at 64 bits and the exchange loop of \<open>consume\<close>.
  \<^item> \<open>Worker\<close>, \<open>Worker_Laws\<close>: \<^verbatim>\<open>mux/worker.rs\<close> (C7 to C9: exact credit, final poisoning, and what the
    end of a worker closes: every window but those of streams that \<open>abandons\<close> names, whose receiver was
    found gone before).
    \<open>Credit\<close> is the contract (a locale) that the two halves of receive-side flow control share.
  \<^item> \<open>Handle\<close>, \<open>Handle_Laws\<close>: \<^verbatim>\<open>mux/handle.rs\<close> (C10 to C12: capacity and identifiers under every interleaving, failed
    realisations).
  \<^item> \<open>Reader\<close>, \<open>Reader_Laws\<close>: \<^verbatim>\<open>mux/reader.rs\<close> (C13, C15 to C17: cuts of the input, routing, session credit, and a probe
    timeout that never fires).  The queue of each worker may be full on its own, also for a broadcast.  \<open>Writer\<close>, \<open>Writer_Laws\<close>: \<^verbatim>\<open>mux/writer.rs\<close> (C18 to C20).
  \<^item> \<open>Mux\<close>: \<open>MuxHandle::spawn\<close>, which puts the tasks together, and the handshake of writer, reader and \<open>spawn\<close> (C21).
  \<^item> \<open>Stream_Model\<close>, \<open>Stream_Laws\<close>: \<^verbatim>\<open>stream.rs\<close> (C22 to C24), with the release guard that a stream's opening
    disarms and drops when the opened stream takes its duty over.  \<open>Session\<close>, \<open>Session_Laws\<close>: \<^verbatim>\<open>session.rs\<close> and
    \<^verbatim>\<open>mux/supervisor.rs\<close> (C27), where an open runs with no other in between; \<open>Session_Shared\<close>: the same open with
    other tasks changing the pool's handles and the shared counter between any two of its accesses (C25).  \<open>Session_Checked\<close>: the same code with every access checked, which never panics (C3).
  \<^item> \<open>Transport\<close>: \<^verbatim>\<open>transport.rs\<close>, the two transports and their construction, as instances of two contracts,
    \<open>message_source\<close> for the reader task and \<open>message_sink\<close> for the writer task.
  \<^item> \<open>Raw_Frames\<close>: the DATA frames that a stream builds itself are those of the codec.
  \<^item> \<open>Inbound\<close>: the way of the peer's bytes through the reader, a worker and a stream to the user (C6).

  \<^bold>\<open>The composition\<close> is below (C28 to C32): from the writer's batch to the peer's frames over either
  transport; from a user's writes to the peer; a stream's use of its window against the credit
  that the peer granted; a change of the initial window from the reader through the workers whose queue had room to
  their streams; and the end of a worker, which wakes every writer that waits on one of its streams, but for
  those the worker had abandoned.

  \<^bold>\<open>The theories of port forwarding\<close> (\<^verbatim>\<open>kube-portforward/src\<close>).
  \<^item> \<open>Pod_Watch\<close>, \<open>Pod_Watch_Laws\<close>: \<^verbatim>\<open>pod_watch.rs\<close> (C33: a pod that is reported is selected and in the store).
  \<^item> \<open>Kube_Types\<close>: \<^verbatim>\<open>error.rs\<close>, \<^verbatim>\<open>subprotocol.rs\<close>, \<^verbatim>\<open>recovery.rs\<close>.  \<open>Connect\<close>, \<open>Connect_Laws\<close>: \<^verbatim>\<open>connect.rs\<close> (C34, C35:
    the request names the pod and nothing else; when the fallback happens and what it reports).
  \<^item> \<open>Kube_Session\<close>, \<open>Kube_Session_Laws\<close>: \<^verbatim>\<open>session.rs\<close>, \<^verbatim>\<open>client.rs\<close> and \<^verbatim>\<open>stream.rs\<close> (C36, C37: slots are
    never lost to spare streams; the headers that the kubelet reads).
  \<^item> \<open>Forwarder_Pool\<close>: \<^verbatim>\<open>forwarder/pool.rs\<close>, \<^verbatim>\<open>forwarder/builder.rs\<close> and the critical sections of the rest.
    \<open>Forwarder\<close>: \<^verbatim>\<open>forwarder/lifecycle.rs\<close>, \<^verbatim>\<open>forwarder/prefetch.rs\<close>, \<^verbatim>\<open>forwarder/mod.rs\<close> as a step relation, in which calls,
    tasks, pod changes, pruning and shutdown interleave at every \<open>await\<close> and every release of the lock.
    \<open>Forwarder_Laws\<close> shows that the lock-free view refines a specification of the pool (C38), with the contract of the
    sections that take sessions out as a locale; \<open>Forwarder_Bounds\<close> bounds the pool (C39); \<open>Forwarder_Ownership\<close>
    accounts for every session (C40); \<open>Forwarder_Progress\<close> shows what ends (C14): calls and the tasks they spawn, unless
    the server leaves an open without an answer, for which the code has no deadline; and the two loops of the
    background, by the forwarder's token; and that shutdown is final (C26).
  \<^item> \<open>Forwarder_Open\<close>: the way from a step of the forwarder through the session builder and the upgrades to the network
    and back: the session that a step records is the one the builder returned, and the recovery callback is called as the
    upgrades say.

  \<^bold>\<open>Conformance.\<close>  The repository's own unit tests are run on the definitions, as booleans named after the tests with their
  calls and assertions: \<open>Conformance_Codec\<close> (\<^verbatim>\<open>codec.rs\<close>, for every zlib stream with the laws), \<open>Conformance_Stream\<close>
  (\<^verbatim>\<open>stream.rs\<close>), \<open>Conformance_Mux\<close> (\<^verbatim>\<open>dictionary.rs\<close>, \<^verbatim>\<open>transport.rs\<close>, \<^verbatim>\<open>session.rs\<close>) and \<open>Conformance_Kube\<close>
  (\<^verbatim>\<open>pod_watch.rs\<close>, \<^verbatim>\<open>connect.rs\<close>, \<^verbatim>\<open>session.rs\<close>, \<^verbatim>\<open>forwarder\<close>).  \<open>Test_Peers\<close> holds the peers that
  those tests spawn, and shows that they see what the writer sent, however the socket cuts it; the HTTP servers are what they answer.

  \<^bold>\<open>How code becomes definitions.\<close>  Atomics and wire integers are words of their width; a \<open>usize\<close> length is a natural
  number, as no buffer reaches \<open>2 ^ 64\<close> bytes.  An asynchronous function is a state and a step; what channels,
  sockets, clocks and the libraries answer is an argument, so the theorems hold for every answer.
  Messages that a step hands to a channel are returned as a list.  A value that other tasks may change between
  two accesses of an operation is changed there by an arbitrary function: the window under a stream's write, the
  handle under an open on it, the stored round-trip time, and the pool with its shared counter in \<open>Session_Shared\<close>.
  \<open>session_open_stream_pair\<close> of \<open>Session\<close> is that open with no change in between.

  \<^bold>\<open>Loops.\<close>  A loop over data is a terminating function.  A loop that the peer or other tasks could keep going is
  \<open>run_loop\<close>, whose value is \<open>None\<close> when it does not end; that it ends is then proved (C5, C13, C27), and the steps of a call of the
  forwarder cannot go on for ever (C14).  No
  definition takes fuel, except that \<open>read_many\<close> counts the reads that a statement asks for.

  \<^bold>\<open>Not modelled.\<close>  The libraries (\<open>tokio\<close>, \<open>flate2\<close>, \<open>fastwebsockets\<close>, \<open>hyper\<close>, \<open>kube\<close>); logging; the text of
  errors where nothing reads it; the examples; the test of \<^verbatim>\<open>codec.rs\<close> that inflates a zlib bomb,
  which depends on flate2; \<^verbatim>\<open>lib.rs\<close> of both crates, which only
  re-export.  Real time is not modelled: a timeout may fire whenever it is armed, except in
  C17, where each turn of the reader's loop has its time.
\<close>

section \<open>From the writer to the peer\<close>

lemma concat_item_bytes: "concat (map item_bytes items) = wire_bytes items"
  by (induction items) (auto simp: item_bytes_def split: wire_item.splits)

definition binary_payloads :: "ws_message list \<Rightarrow> byte list" where
  "binary_payloads ms = concat (map (\<lambda>m. case m of WsBinary b \<Rightarrow> b | _ \<Rightarrow> []) ms)"

lemma binary_payloads_chunks [simp]: "binary_payloads (map WsBinary chunks) = concat chunks"
  by (simp add: binary_payloads_def comp_def)

lemma binary_payloads_items:
  "binary_payloads (concat (map (\<lambda>c. case snd c of WireBinary b \<Rightarrow> [WsBinary b] | WirePong b \<Rightarrow> []) calls))
    = concat (map item_bytes (map snd calls))"
  by (induction calls) (auto simp: binary_payloads_def item_bytes_def split: wire_item.splits)

text \<open>
  C28.  What the writer task puts on the wire reaches the peer whole, over either transport.  When the adapter has
  accepted the items of a batch, then over a raw upgraded connection, however the socket cuts the bytes, the
  messages that the raw transport delivers hold exactly those bytes in order; over WebSocket, each item
  is a message of its own and PONGs carry no data; and in both cases a peer in step decodes them to the frames
  of the commands, whose header blocks are at most 768 bytes long.
\<close>

theorem wire_end_to_end:
  assumes "zlib_transfers z R" "codec_sync z R (wr_codec st) d" "mfs \<le> unat (codec_max_frame_size d)"
    and "list_all (wf_command mfs) cmds" and "process_batch z io cmds st = Some (st', False)"
    and "wire st' = wire st @ items"
    and "map snd raw_calls = items" "write_items raw_write raw_calls raw_writer_new = (rw, Ok ())"
    and "concat chunks = rw_bytes rw" "[] \<notin> set chunks"
    and "map snd ws_calls = items" "write_items fast_write ws_calls fast_writer_new = (fw, Ok ())"
  shows "\<exists>d'. codec_sync z R (wr_codec st') d' \<and>
    decodes_to z d
      (binary_payloads (message_source.read_many raw_read_message (length chunks) (raw_reader_new (map RawOk chunks))))
      (concat (map command_frames cmds)) d' \<and>
    decodes_to z d
      (binary_payloads (message_source.read_many fast_read_message (length ws_calls) (map ws_received (fw_frames fw))))
      (concat (map command_frames cmds)) d'"
proof -
  obtain bytes d' where b: "wire_bytes (wire st') = wire_bytes (wire st) @ bytes"
    "decodes_to z d bytes (concat (map command_frames cmds)) d'" "codec_sync z R (wr_codec st') d'"
    using batch_decodes [OF assms(1-5)] by blast
  have bytes: "bytes = concat (map item_bytes items)"
    using b(1) assms(6) by (simp add: concat_item_bytes)
  have "concat chunks = bytes"
    using raw_sink.write_items_sent [OF assms(8)] assms(7,9) bytes by (simp add: raw_writer_new_def flip: map_map)
  moreover have "binary_payloads (fast.read_many (length ws_calls) (map ws_received (fw_frames fw))) = bytes"
    using fast_delivers_items [OF assms(12)] binary_payloads_items [of ws_calls] assms(11) bytes by simp
  ultimately show ?thesis using raw_delivers_chunks [OF assms(10)] b(2,3) by auto
qed

lemma example_in_step: "codec_sync stored stored_rel (wr_codec example_writer) (with_max_frame_size stored 1024)"
  using stored_sync_new by (simp add: example_writer_def)

theorem wire_end_to_end_witness:
  "\<exists>d'. decodes_to stored (with_max_frame_size stored 1024)
     (binary_payloads (message_source.read_many fast_read_message (Suc 0) [WsFrame OpBinary (PayloadBytes (encode_window_update 5 10))]))
     [WindowUpdate 5 10] d'"
proof -
  let ?fb = "encode_window_update 5 10"
  let ?st = "example_writer\<lparr>wire := [WireBinary ?fb], io_calls := 1, bytes_since_flush := length ?fb\<rparr>"
  have b: "process_batch stored (\<lambda>_. IoOk) [EncodeWindowUpdate 5 10] example_writer = Some (?st, False)"
    by (simp add: process_counted_def process_writer_command_def write_frame_def write_item_def Let_def encode_command_def
        example_writer_def)
  have c: "[] \<notin> set [take 5 ?fb, drop 5 ?fb]" by (simp add: encode_window_update_def u16_to_be_def)
  have raw: "write_items raw_write [(None, WireBinary ?fb)] raw_writer_new = (raw_writer_new\<lparr>rw_bytes := ?fb\<rparr>, Ok ())"
    by (simp add: raw_write_defs raw_writer_new_def)
  have ws: "write_items fast_write [(None, WireBinary ?fb)] fast_writer_new
      = (fast_writer_new\<lparr>fw_frames := [WsWrite OpBinary ?fb]\<rparr>, Ok ())"
    by (simp add: fast_write_defs fast_writer_new_def)
  from wire_end_to_end [OF stored_transfers example_in_step, of 1024 "[EncodeWindowUpdate 5 10]" "\<lambda>_. IoOk" ?st
      "[WireBinary ?fb]", OF _ _ b _ _ raw _ c _ ws]
  show ?thesis by (simp add: wf_command_def command_frames_def with_max_frame_size_def example_writer_def ws_received_def)
        blast
qed

section \<open>From a stream to the peer\<close>

text \<open>
  A sequence of writes on one stream, each with its own environment; the bytes that the calls report,
  and the commands they hand over.
\<close>

record write_call =
  wc_env :: window_env
  wc_reserve :: reserve_result
  wc_item_ok :: bool
  wc_task :: nat
  wc_buf :: "byte list"

definition reported :: "byte list \<Rightarrow> (io_error, nat) result poll \<Rightarrow> byte list" where
  "reported buf out = (case out of Ready (Inr n) \<Rightarrow> take n buf | _ \<Rightarrow> [])"

primrec stream_writes :: "u32 \<Rightarrow> u32 \<Rightarrow> write_call list \<Rightarrow> send_window \<Rightarrow> send_window \<times> mux_command list \<times> byte list" where
  "stream_writes sid mfs [] w = (w, [], [])"
| "stream_writes sid mfs (c # cs) w =
     (let (w1, cmds, out) = poll_write_via_sender (wc_env c) (wc_reserve c) (wc_item_ok c) sid mfs (wc_task c) (wc_buf c) w;
          (w2, cmds', bytes) = stream_writes sid mfs cs w1
      in (w2, cmds @ cmds', reported (wc_buf c) out @ bytes))"

text \<open>The DATA payloads of one stream in a list of frames.\<close>

definition stream_payload :: "u32 \<Rightarrow> frame list \<Rightarrow> byte list" where
  "stream_payload sid fs = concat (map (\<lambda>f. case f of Data s p fin \<Rightarrow> if s = sid then p else [] | _ \<Rightarrow> []) fs)"

lemma stream_payload_simps [simp]:
  "stream_payload sid [] = []" "stream_payload sid (xs @ ys) = stream_payload sid xs @ stream_payload sid ys"
  "stream_payload sid [Data s p fin] = (if s = sid then p else [])"
  by (simp_all add: stream_payload_def)

lemma poll_write_frames:
  assumes "poll_write_via_sender env reserve ok sid mfs task buf w = (w', cmds, out)" "buf \<noteq> []"
    and "8 < unat mfs" "unat mfs < 2 ^ 24"
  shows "list_all (plain_command (unat mfs)) cmds \<and>
    stream_payload (sid AND 0x7FFFFFFF) (concat (map command_frames cmds)) = reported buf out"
proof (cases rule: poll_write_cases [OF assms(1,2)])
  case (1 wl)
  let ?p = "take (write_size mfs buf wl) buf"
  have "length ?p \<le> write_size mfs buf wl" by simp
  then have len: "length ?p < 2 ^ 24" "length ?p \<le> unat mfs"
    using write_size_le(3) [OF assms(3), of buf wl] assms(4) by linarith+
  then show ?thesis
    using 1 raw_data_frame_wf [OF len, of sid] by (simp add: reported_def plain_command_def wf_command_def command_frames_def)
qed (auto simp: reported_def)

lemma stream_writes_frames:
  assumes "stream_writes sid mfs calls w = (w', cmds, bytes)" "list_all (\<lambda>c. wc_buf c \<noteq> []) calls"
    and "8 < unat mfs" "unat mfs < 2 ^ 24"
  shows "list_all (plain_command (unat mfs)) cmds \<and>
    stream_payload (sid AND 0x7FFFFFFF) (concat (map command_frames cmds)) = bytes"
  using assms(1,2)
proof (induction calls arbitrary: w w' cmds bytes)
  case (Cons c cs)
  obtain w1 cmds1 out where p: "poll_write_via_sender (wc_env c) (wc_reserve c) (wc_item_ok c) sid mfs (wc_task c) (wc_buf c) w
      = (w1, cmds1, out)" by (metis prod_cases3)
  obtain w2 cmds2 bytes2 where r: "stream_writes sid mfs cs w1 = (w2, cmds2, bytes2)" by (metis prod_cases3)
  show ?case
    using Cons.IH [OF r] poll_write_frames [OF p _ assms(3,4)] Cons.prems p r by auto
qed simp

text \<open>
  C29.  What a stream's writes report is what the peer receives.  For any sequence of non-empty writes, under
  any interference with the window, with a frame size between 9 and \<open>2 ^ 24 - 1\<close>, once the writer has
  written the frames they handed over, any peer that accepts frames of that size decodes them, whatever
  the state of its zlib stream, and the DATA payloads it gets on the stream are, in order, exactly the
  bytes the writes reported as written: none lost, repeated or reordered, and none before its report.
\<close>

theorem stream_bytes_reach_peer:
  assumes "unat mfs \<le> unat (codec_max_frame_size d)" "8 < unat mfs" "unat mfs < 2 ^ 24" "list_all (\<lambda>c. wc_buf c \<noteq> []) calls"
    and writes: "stream_writes sid mfs calls w = (w', cmds, bytes)"
    and "process_batch z io cmds st = Some (st', False)"
  shows "\<exists>wire_new frames d'. wire_bytes (wire st') = wire_bytes (wire st) @ wire_new \<and>
    decodes_to z d wire_new frames d' \<and> stream_payload (sid AND 0x7FFFFFFF) frames = bytes"
  using batch_decodes_plain [OF assms(1) conjunct1 [OF stream_writes_frames [OF writes assms(4,2,3)]] assms(6)]
    stream_writes_frames [OF writes assms(4,2,3)] by blast

definition quiet_write :: "byte list \<Rightarrow> write_call" where
  "quiet_write buf = \<lparr>wc_env = \<lambda>_ w. w, wc_reserve = ReserveOk, wc_item_ok = True, wc_task = 0, wc_buf = buf\<rparr>"

lemma quiet_write_example:
  "stream_writes 1 1024 [quiet_write [1, 2, 3]] (sw_new 2)
     = (snd (consume 2 (sw_new 2)), [SendRawFrame (raw_data_frame 1 [1, 2])], [1, 2])"
  by (simp add: quiet_write_def poll_write_via_sender_def write_size_def max_payload_for_def write_commit_def
      reported_def Let_def consume_def is_closed_def sw_new_def I64_MIN_def available_def)

theorem stream_bytes_reach_peer_witness:
  "\<exists>wire_new frames d'. decodes_to stored (with_max_frame_size stored 1024) wire_new frames d' \<and>
     stream_payload 1 frames = [1, 2]"
proof -
  have b: "\<exists>st'. process_batch stored (\<lambda>_. IoOk) [SendRawFrame (raw_data_frame 1 [1, 2])] example_writer = Some (st', False)"
    by (simp add: process_counted_def process_writer_command_def write_frame_def write_item_def Let_def encode_command_def)
  then obtain st' where b: "process_batch stored (\<lambda>_. IoOk) [SendRawFrame (raw_data_frame 1 [1, 2])] example_writer
      = Some (st', False)" by blast
  from stream_bytes_reach_peer [OF _ _ _ _ quiet_write_example b, of "with_max_frame_size stored 1024"]
  show ?thesis by (auto simp: with_max_frame_size_def quiet_write_def)
qed

section \<open>Flow control\<close>

text \<open>
  What other tasks may do to a window while its peer does not shrink it: they may close it for
  good, or leave its balance at least as high.
\<close>

definition only_credits :: "(send_window \<Rightarrow> send_window) \<Rightarrow> bool" where
  "only_credits f \<longleftrightarrow> (\<forall>w. is_closed (f w) \<or> (\<not> is_closed w \<and> available w \<le> available (f w)))"

definition in_credit :: "send_window \<Rightarrow> bool" where
  "in_credit w \<longleftrightarrow> is_closed w \<or> 0 \<le> available w"

lemma only_credits_in_credit: "only_credits f \<Longrightarrow> in_credit w \<Longrightarrow> in_credit (f w)"
  unfolding only_credits_def in_credit_def by (meson order_trans)

lemma consume_in_credit:
  assumes "only_credits f" "int n \<le> available wl" "n < 2 ^ 62"
  shows "in_credit (snd (consume n (f wl)))"
proof (cases "is_closed (f wl)")
  case False
  then have "available wl \<le> available (f wl)" using assms(1) by (auto simp: only_credits_def)
  then show ?thesis
    using available_consume(2) [OF False, of n] assms(2,3) by (simp add: in_credit_def split: prod.splits)
      (metis diff_ge_0_iff_ge order_trans prod.collapse)
qed (simp add: in_credit_def)

lemma in_credit_register [simp]: "in_credit (register_waker t w) = in_credit w"
  by (simp add: in_credit_def)

lemma commit_in_credit:
  assumes "only_credits f" "write_size mfs buf wl \<noteq> 0" "length buf < 2 ^ 62"
  shows "in_credit (fst (write_commit sid buf (write_size mfs buf wl) ok (f wl)))"
proof -
  have "int (write_size mfs buf wl) \<le> available wl" "write_size mfs buf wl < 2 ^ 62"
    using write_size_le(1,2) [of mfs buf wl] assms(2,3) by linarith+
  from consume_in_credit [OF assms(1) this] show ?thesis
    by (auto simp: write_commit_def split: prod.splits bool.splits)
qed

lemma poll_write_in_credit:
  assumes "\<forall>k. only_credits (env k)" "in_credit w" "length buf < 2 ^ 62"
  shows "in_credit (fst (poll_write_via_sender env reserve ok sid mfs task buf w))"
proof -
  have e: "\<And>k w. in_credit w \<Longrightarrow> in_credit (env k w)" "\<And>k. only_credits (env k)"
    using assms(1) only_credits_in_credit by blast+
  show ?thesis
    using assms(2) commit_in_credit [OF e(2) _ assms(3)]
    by (simp add: poll_write_via_sender_def Let_def e(1) split: reserve_result.splits)
qed

text \<open>
  C30.  A stream never overdraws its window.  As long as the peer does not shrink the window, whatever
  its tasks do to it between the accesses of any sequence of writes, the balance never falls below
  zero: no byte is sent for which the peer has not given credit.
\<close>

theorem stream_never_overdraws:
  assumes "list_all (\<lambda>c. (\<forall>k. only_credits (wc_env c k)) \<and> length (wc_buf c) < 2 ^ 62) calls"
    and "stream_writes sid mfs calls (sw_new initial) = (w', cmds, bytes)"
  shows "is_closed w' \<or> 0 \<le> available w'"
proof -
  have "in_credit w'" if "stream_writes sid mfs cs w = (w', cmds, bytes)" "in_credit w"
    "list_all (\<lambda>c. (\<forall>k. only_credits (wc_env c k)) \<and> length (wc_buf c) < 2 ^ 62) cs" for cs w w' cmds bytes
    using that
  proof (induction cs arbitrary: w w' cmds bytes)
    case (Cons c cs)
    then show ?case
      using poll_write_in_credit [of "wc_env c" w "wc_buf c" "wc_reserve c" "wc_item_ok c" sid mfs "wc_task c"]
      by (auto split: prod.splits)
  qed simp
  from this [OF assms(2) _ assms(1)] show ?thesis by (simp add: in_credit_def)
qed

theorem stream_never_overdraws_witness:
  "0 \<le> available (fst (stream_writes 1 1024 [quiet_write [1, 2, 3]] (sw_new 2)))"
proof -
  have "list_all (\<lambda>c. (\<forall>k. only_credits (wc_env c k)) \<and> length (wc_buf c) < 2 ^ 62) [quiet_write [1, 2, 3]]"
    by (auto simp: quiet_write_def only_credits_def)
  from stream_never_overdraws [OF this quiet_write_example]
  show ?thesis unfolding quiet_write_example fst_conv
    by (simp add: consume_def sw_new_def I64_MIN_def is_closed_def)
qed

section \<open>Settings\<close>

lemma delta_fold_at:
  assumes "distinct (map st_window sts)"
  shows "fold (\<lambda>st ws. ws(st_window st := apply_delta d (ws (st_window st)))) sts wins win
    = (if win \<in> st_window ` set sts then apply_delta d (wins win) else wins win)"
  using assms by (induction sts arbitrary: wins) (auto simp: fun_upd_def)

lemma worker_inv_distinct_windows:
  assumes "worker_inv w"
  shows "distinct (map st_window (map snd (streams w)))" and "st_window ` set (map snd (streams w)) = win_refs w"
proof -
  have d: "distinct (map fst (streams w))" using assms by (simp add: worker_inv_def)
  have s: "stream_of w sid = Some st \<longleftrightarrow> (sid, st) \<in> set (streams w)" for sid st
    using d by (simp add: stream_of_def)
  have "inj_on (st_window \<circ> snd) (set (streams w))"
    using assms d by (force simp: worker_inv_def inj_windows_def inj_on_def s dest: eq_key_imp_eq_value)
  then show "distinct (map st_window (map snd (streams w)))"
    using d by (simp add: distinct_map)
  show "st_window ` set (map snd (streams w)) = win_refs w"
    using s by (force simp: win_refs_def ran_def)
qed

lemma u32_difference_in_i64:
  "(0 :: int) \<le> x \<Longrightarrow> x < 2 ^ 32 \<Longrightarrow> 0 \<le> y \<Longrightarrow> y < 2 ^ 32 \<Longrightarrow> \<bar>x - y\<bar> < 2 ^ 32"
  by simp

lemma setting_delta:
  fixes new old :: u32
  shows "\<bar>uint new - uint old\<bar> < 2 ^ 32" and "sint ((ucast new :: i64) - ucast old) = uint new - uint old"
proof -
  show b: "\<bar>uint new - uint old\<bar> < 2 ^ 32"
    using uint_lt2p [of new] uint_lt2p [of old] by (intro u32_difference_in_i64) simp_all
  have "- (2 ^ 63) \<le> x \<and> x < 2 ^ 63" if "\<bar>x\<bar> < 2 ^ 32" for x :: int using that by (simp add: abs_less_iff)
  from this [OF b] show "sint ((ucast new :: i64) - ucast old) = uint new - uint old"
    using sint_sub_exact [of "ucast new :: i64" "ucast old"] by simp
qed

text \<open>The registrations that the queue of worker \<open>k\<close> has accepted from the reader.\<close>

definition regs_for :: "nat \<Rightarrow> reader_effect list \<Rightarrow> stream_registration list" where
  "regs_for k effs = concat (map (\<lambda>e. case e of RReg j reg \<Rightarrow> if j = k then [reg] else [] | _ \<Rightarrow> []) effs)"

lemma regs_for_none: "regs_for k [] = []"
  by (simp add: regs_for_def)

lemma regs_for_broadcast:
  assumes "k < FRAME_WORKERS"
  shows "regs_for k (broadcast RReg reg worker_ok) = (if worker_ok k then [reg] else [])"
proof -
  have "concat (map (\<lambda>j. if j = k then [reg] else []) (filter worker_ok xs))
      = (if worker_ok k \<and> k \<in> set xs then [reg] else [])" if "distinct xs" for xs :: "nat list"
    using that by (induction xs) auto
  from this [of "[0..<FRAME_WORKERS]"] assms show ?thesis
    by (simp add: regs_for_def broadcast_def comp_def)
qed

lemma regs_for_settings:
  assumes "route_frame cfg (Settings (Some new) mcs mfs) window_ok worker_ok st = (st', effs)" "k < FRAME_WORKERS"
  shows "rd_peer_initial_window st' = new" and "regs_for k effs =
    (if worker_ok k \<and> new \<noteq> rd_peer_initial_window st
     then [SettingsWindowDelta ((ucast new :: i64) - ucast (rd_peer_initial_window st))] else [])"
proof -
  let ?old = "rd_peer_initial_window st"
  have "(ucast new :: i64) - ucast ?old = 0 \<longleftrightarrow> new = ?old"
    using setting_delta(2) [of new ?old] unsigned_word_eqI [of new ?old] by auto
  then have "effs = (if new = ?old then [] else broadcast RReg (SettingsWindowDelta ((ucast new :: i64) - ucast ?old)) worker_ok)"
    and "rd_peer_initial_window st' = new"
    using assms(1) by (auto simp: route_frame_def route_settings_def route_window_setting_def Let_def split: option.splits)
  then show "rd_peer_initial_window st' = new" "regs_for k effs =
      (if worker_ok k \<and> new \<noteq> ?old then [SettingsWindowDelta ((ucast new :: i64) - ucast ?old)] else [])"
    using regs_for_broadcast [OF assms(2)] by (simp_all add: regs_for_none)
qed

text \<open>
  C31.  What a SETTINGS frame does to the open streams.  When the peer announces a new initial window, the
  reader records it and, unless it is the old one, offers the difference to every worker once.  Once a worker has taken what its
  registration queue accepted, the balance of each of its streams has moved by exactly the signed
  difference to the previous value if the queue had room, and not at all if it was full, in which case
  the difference is lost for that worker; no other window is touched.
\<close>

theorem settings_shift_reaches_streams:
  assumes "route_frame cfg (Settings (Some new) mcs mfs) window_ok worker_ok st = (st', effs)"
    and "k < FRAME_WORKERS" "worker_inv w" "\<forall>win\<in>win_refs w. \<bar>available (wins win)\<bar> < 2 ^ 62"
    and "worker_run iws (map InReg (regs_for k effs)) (w, wins, []) = (w', wins', weffs)"
  shows "rd_peer_initial_window st' = new \<and> w' = w \<and>
    (\<forall>win\<in>win_refs w. available (wins' win) = available (wins win) +
       (if worker_ok k then uint new - uint (rd_peer_initial_window st) else 0)) \<and>
    (\<forall>win. win \<notin> win_refs w \<longrightarrow> wins' win = wins win)"
proof (cases "worker_ok k \<and> new \<noteq> rd_peer_initial_window st")
  case False
  then show ?thesis using regs_for_settings [OF assms(1,2)] assms(5) by (auto simp: worker_run_def)
next
  case True
  let ?old = "rd_peer_initial_window st"
  let ?delta = "(ucast new :: i64) - ucast ?old"
  have out: "w' = w" "wins' = delta_all ?delta w wins"
    using regs_for_settings(2) [OF assms(1,2)] assms(5) True
    by (auto simp: worker_run_def worker_step_def apply_registration_def)
  note win = delta_fold_at [OF worker_inv_distinct_windows(1) [OF assms(3)], of ?delta wins]
  have d: "\<bar>sint ?delta\<bar> < 2 ^ 62" using setting_delta [of new ?old] by simp
  have "available (delta_all ?delta w wins win') = available (wins win') + (uint new - uint ?old)"
    if "win' \<in> win_refs w" for win'
    using win [of win'] that worker_inv_distinct_windows(2) [OF assms(3)] setting_delta(2) [of new ?old]
      available_apply_delta [OF bspec [OF assms(4) that] d] by (simp add: delta_all_def)
  moreover have "delta_all ?delta w wins win' = wins win'" if "win' \<notin> win_refs w" for win'
    using win [of win'] that worker_inv_distinct_windows(2) [OF assms(3)] by (simp add: delta_all_def)
  ultimately show ?thesis using out True regs_for_settings(1) [OF assms(1,2)] by simp
qed

text \<open>The peer raises its window from four to six; worker 1 has room for the difference and worker 2 has not.\<close>

theorem settings_shift_reaches_streams_witness:
  "let w = fst (apply_registration (RegOpen 1 0 0 3) worker_new (\<lambda>_. sw_new 4));
       effs = snd (route_frame Reader_Laws.example_config (Settings (Some 6) None None) True (\<lambda>k. k = 1) example_state)
   in available (fst (snd (worker_run 4 (map InReg (regs_for 1 effs)) (w, \<lambda>_. sw_new 4, []))) 3) = 6 \<and>
      available (fst (snd (worker_run 4 (map InReg (regs_for 2 effs)) (w, \<lambda>_. sw_new 4, []))) 3) = 4"
proof -
  let ?w = "fst (apply_registration (RegOpen 1 0 0 3) worker_new (\<lambda>_. sw_new 4))"
  have w: "worker_inv ?w" "win_refs ?w = {3}"
    by (auto simp: worker_inv_def inj_windows_def stream_of_def win_refs_def apply_registration_def worker_new_def ran_def)
  obtain st' effs where r: "route_frame Reader_Laws.example_config (Settings (Some 6) None None) True (\<lambda>k. k = 1) example_state = (st', effs)"
    by force
  have k: "1 < FRAME_WORKERS" "2 < FRAME_WORKERS" by (simp_all add: FRAME_WORKERS_def)
  obtain w1 wins1 e1 where r1: "worker_run 4 (map InReg (regs_for 1 effs)) (?w, \<lambda>_. sw_new 4, []) = (w1, wins1, e1)"
    by (metis prod_cases3)
  obtain w2 wins2 e2 where r2: "worker_run 4 (map InReg (regs_for 2 effs)) (?w, \<lambda>_. sw_new 4, []) = (w2, wins2, e2)"
    by (metis prod_cases3)
  have old: "rd_peer_initial_window example_state = 4" by (simp add: example_state_def reader_start_def)
  have "available (wins1 3) = 6"
    using settings_shift_reaches_streams [OF r k(1) w(1) _ r1] w(2) old by simp
  moreover have "available (wins2 3) = 4"
    using settings_shift_reaches_streams [OF r k(2) w(1) _ r2] w(2) old by simp
  ultimately show ?thesis using r r1 r2 by (simp add: Let_def)
qed

section \<open>From the handle to the workers\<close>






end
